(* ===== verification/Confide_Prelude.thy ===== *)
theory Confide_Prelude
  imports
    Main
    "HOL-Library.Word"
    "HOL-Library.List_Lexorder"
    "HOL-Library.Char_ord"
    "HOL-Library.AList"
begin

unbundle bit_operations_syntax

section \<open>Prelude: results, strings, decimal numbers, ordered lists\<close>

text \<open>
  What every component of the model shares.
  \<^item> The failure type of \<^verbatim>\<open>src/src/lib/common/error.hpp\<close>: \<open>err_code\<close> is the enum
    \<^verbatim>\<open>ErrCode\<close>, \<open>error\<close> the struct \<^verbatim>\<open>Error\<close> (without \<^verbatim>\<open>origin\<close>, which only feeds
    log lines), \<open>'a result\<close> is \<^verbatim>\<open>Result<T>\<close> with \<open>Inl\<close> for the error, and
    \<open>cfd_try\<close> / \<open>cfd_tryS\<close> are the early return of the macros \<^verbatim>\<open>CFD_TRY\<close> and
    \<^verbatim>\<open>CFD_TRYV\<close>, without and with a state that is threaded through the calls.
  \<^item> The parts of the C++ standard library the sources use on text: splitting a
    \<^verbatim>\<open>string_view\<close> at a character, \<^verbatim>\<open>find\<close>, \<^verbatim>\<open>std::to_string\<close>, \<^verbatim>\<open>std::from_chars\<close>,
    \<^verbatim>\<open>std::tolower\<close>. A \<open>string\<close> is a list of bytes, ordered as \<^verbatim>\<open>std::string\<close> is.
  \<^item> Lists that are kept sorted by a key (\<^verbatim>\<open>std::ranges::lower_bound\<close>) and association
    lists that stand for the maps of the program.
\<close>

named_theorems try_simps \<open>equations and inversions of the early-return combinators\<close>
named_theorems char_simps \<open>byte values of characters\<close>

type_synonym byte = "8 word"
type_synonym u32 = "32 word"
type_synonym u64 = "64 word"

subsection \<open>Errors and results\<close>

datatype err_code =
    Validation | Auth | Forbidden | NotFound | Conflict | Gone | Integrity
  | UnknownDestination | Unavailable | Throttled | Io | Internal

fun err_to_string :: "err_code \<Rightarrow> string" where
  "err_to_string Validation = ''validation''"
| "err_to_string Auth = ''auth''"
| "err_to_string Forbidden = ''forbidden''"
| "err_to_string NotFound = ''notfound''"
| "err_to_string Conflict = ''conflict''"
| "err_to_string Gone = ''gone''"
| "err_to_string Integrity = ''integrity''"
| "err_to_string UnknownDestination = ''unknown_destination''"
| "err_to_string Unavailable = ''unavailable''"
| "err_to_string Throttled = ''throttled''"
| "err_to_string Io = ''io''"
| "err_to_string Internal = ''internal''"

datatype error = Error (code: err_code) (detail: string)

type_synonym 'a result = "error + 'a"

definition fail :: "err_code \<Rightarrow> string \<Rightarrow> 'a result" where
  "fail c d = Inl (Error c d)"

fun cfd_try :: "'a result \<Rightarrow> ('a \<Rightarrow> 'b result) \<Rightarrow> 'b result" where
  "cfd_try (Inl e) k = Inl e"
| "cfd_try (Inr x) k = k x"

text \<open>The same early return for calls that also change a state \<open>'s\<close>.\<close>

fun cfd_tryS :: "'a result \<times> 's \<Rightarrow> ('a \<Rightarrow> 's \<Rightarrow> 'b result \<times> 's) \<Rightarrow> 'b result \<times> 's" where
  "cfd_tryS (Inl e, s) k = (Inl e, s)"
| "cfd_tryS (Inr x, s) k = k x s"

definition is_ok :: "'a result \<Rightarrow> bool" where
  "is_ok r \<longleftrightarrow> (case r of Inl _ \<Rightarrow> False | Inr _ \<Rightarrow> True)"

lemma cfd_try_Inr [try_simps]: "cfd_try r k = Inr y \<longleftrightarrow> (\<exists>x. r = Inr x \<and> k x = Inr y)"
  by (cases r) auto

lemma cfd_try_Inl [try_simps]:
  "cfd_try r k = Inl e \<longleftrightarrow> r = Inl e \<or> (\<exists>x. r = Inr x \<and> k x = Inl e)"
  by (cases r) auto

lemma cfd_tryS_Inr [try_simps]:
  "cfd_tryS p k = (Inr y, s') \<longleftrightarrow> (\<exists>x s. p = (Inr x, s) \<and> k x s = (Inr y, s'))"
  by (cases p; cases "fst p") auto

lemma cfd_tryS_Inl [try_simps]:
  "cfd_tryS p k = (Inl e, s') \<longleftrightarrow>
     p = (Inl e, s') \<or> (\<exists>x s. p = (Inr x, s) \<and> k x s = (Inl e, s'))"
  by (cases p; cases "fst p") auto

lemma cfd_tryS_elim:
  assumes "cfd_tryS p k = (r, s')"
  obtains (stop) e where "p = (Inl e, s')" "r = Inl e"
  | (go) x s where "p = (Inr x, s)" "k x s = (r, s')"
  using assms by (cases p; cases "fst p") auto

lemma fail_simps [simp, try_simps]:
  "fail c d \<noteq> Inr x" "fail c d = Inl e \<longleftrightarrow> e = Error c d"
  "is_ok (fail c d) = False" "is_ok (Inr x) = True" "is_ok (Inl e) = False"
  by (auto simp: fail_def is_ok_def)

lemma is_ok_iff: "is_ok r \<longleftrightarrow> (\<exists>x. r = Inr x)"
  by (cases r) (auto simp: is_ok_def)

lemma cfd_try_cong [fundef_cong]:
  "r = r' \<Longrightarrow> (\<And>x. r' = Inr x \<Longrightarrow> k x = k' x) \<Longrightarrow> cfd_try r k = cfd_try r' k'"
  by (cases r') auto

lemma cfd_tryS_cong [fundef_cong]:
  "p = p' \<Longrightarrow> (\<And>x s. p' = (Inr x, s) \<Longrightarrow> k x s = k' x s) \<Longrightarrow> cfd_tryS p k = cfd_tryS p' k'"
  by (cases p'; cases "fst p'") auto

lemma err_to_string_inj: "err_to_string a = err_to_string b \<longleftrightarrow> a = b"
  by (cases a; cases b) simp_all

subsection \<open>Characters as bytes\<close>

definition ord :: "char \<Rightarrow> nat" where
  "ord c = of_char c"

lemma ord_less [simp]: "ord c < 256"
  by (simp add: ord_def)

lemma ord_inject [simp]: "ord a = ord b \<longleftrightarrow> a = b"
  by (simp add: ord_def)

lemma ord_char_of [simp]: "n < 256 \<Longrightarrow> ord (char_of n) = n"
  by (simp add: ord_def)

lemma char_of_ord [simp]: "char_of (ord c) = c"
  by (simp add: ord_def)

lemma char_eq_iff_ord: "a = b \<longleftrightarrow> ord a = ord b"
  by simp

definition char_in :: "nat \<Rightarrow> nat \<Rightarrow> char \<Rightarrow> bool" where
  "char_in lo hi c \<longleftrightarrow> lo \<le> ord c \<and> ord c \<le> hi"

abbreviation is_digit :: "char \<Rightarrow> bool" where
  "is_digit \<equiv> char_in 48 57"

text \<open>\<^verbatim>\<open>std::tolower\<close> in the C locale.\<close>

definition to_lower :: "char \<Rightarrow> char" where
  "to_lower c = (if char_in 65 90 c then char_of (ord c + 32) else c)"

lemma to_lower_idem [simp]: "to_lower (to_lower c) = to_lower c"
  by (auto simp: to_lower_def char_in_def)

text \<open>The bytes of a text, as \<^verbatim>\<open>std::as_bytes\<close> gives them.\<close>

definition as_bytes :: "string \<Rightarrow> byte list" where
  "as_bytes s = map (\<lambda>c. word_of_nat (ord c)) s"

definition of_bytes :: "byte list \<Rightarrow> string" where
  "of_bytes bs = map (\<lambda>b. char_of (unat b)) bs"

lemma unat_byte_less [simp]: "unat (b :: byte) < 256"
  using unsigned_less [of b, where ?'a = nat] by simp

lemma length_as_bytes [simp]: "length (as_bytes s) = length s"
  by (simp add: as_bytes_def)

lemma as_bytes_append [simp]: "as_bytes (s @ t) = as_bytes s @ as_bytes t"
  by (simp add: as_bytes_def)

lemma unat_of_ord [simp]: "unat (word_of_nat (ord c) :: byte) = ord c"
  by (simp add: unat_of_nat)

lemma of_bytes_as_bytes [simp]: "of_bytes (as_bytes s) = s"
  by (simp add: of_bytes_def as_bytes_def comp_def)

lemma as_bytes_of_bytes [simp]: "as_bytes (of_bytes bs) = bs"
  by (simp add: of_bytes_def as_bytes_def comp_def)

lemma as_bytes_inject [simp]: "as_bytes s = as_bytes t \<longleftrightarrow> s = t"
  by (metis of_bytes_as_bytes)

subsection \<open>Splitting text\<close>

text \<open>
  The loop \<^verbatim>\<open>while (true) { end = s.find(d, start); part = s.substr(start, end - start); ... }\<close>
  visits the parts of \<open>s\<close> between the occurrences of \<open>d\<close>; \<open>split_on\<close> is the list of them.
  It is never empty: a text without \<open>d\<close> is its own single part.
\<close>

fun split_on :: "char \<Rightarrow> string \<Rightarrow> string list" where
  "split_on d [] = [[]]"
| "split_on d (c # cs) =
     (if c = d then [] # split_on d cs
      else (case split_on d cs of [] \<Rightarrow> [[c]] | p # ps \<Rightarrow> (c # p) # ps))"

fun join_with :: "char \<Rightarrow> string list \<Rightarrow> string" where
  "join_with d [] = []"
| "join_with d [p] = p"
| "join_with d (p # q # ps) = p @ d # join_with d (q # ps)"

lemma split_on_neq_Nil [simp]: "split_on d s \<noteq> []"
  by (cases s) (auto split: list.split)

lemma join_split_on [simp]: "join_with d (split_on d s) = s"
proof (induction s)
  case (Cons c cs)
  obtain p ps where ps: "split_on d cs = p # ps"
    by (cases "split_on d cs") auto
  with Cons.IH show ?case
    by (cases ps) auto
qed simp

lemma split_on_notin: "p \<in> set (split_on d s) \<Longrightarrow> d \<notin> set p"
  by (induction s arbitrary: p) (auto split: if_splits list.splits)

lemma split_on_single: "d \<notin> set s \<Longrightarrow> split_on d s = [s]"
  by (induction s) auto

lemma split_on_append: "d \<notin> set p \<Longrightarrow> split_on d (p @ d # s) = p # split_on d s"
  by (induction p) auto

lemma split_on_join:
  "ps \<noteq> [] \<Longrightarrow> (\<And>p. p \<in> set ps \<Longrightarrow> d \<notin> set p) \<Longrightarrow> split_on d (join_with d ps) = ps"
  by (induction d ps rule: join_with.induct) (auto simp: split_on_single split_on_append)

lemma split_on_chars: "p \<in> set (split_on d s) \<Longrightarrow> set p \<subseteq> set s"
  by (induction s arbitrary: p) (auto split: if_splits list.splits, blast+)

lemma join_with_Cons: "ps \<noteq> [] \<Longrightarrow> join_with d (p # ps) = p @ d # join_with d ps"
  by (cases ps) auto

text \<open>\<^verbatim>\<open>s.find(d)\<close> with the text before and after it; \<open>None\<close> is \<^verbatim>\<open>npos\<close>.\<close>

fun split_first :: "char \<Rightarrow> string \<Rightarrow> (string \<times> string) option" where
  "split_first d [] = None"
| "split_first d (c # cs) =
     (if c = d then Some ([], cs)
      else (case split_first d cs of None \<Rightarrow> None | Some (a, b) \<Rightarrow> Some (c # a, b)))"

lemma split_first_None: "split_first d s = None \<longleftrightarrow> d \<notin> set s"
  by (induction s) (auto split: option.splits)

lemma split_first_append [simp]: "d \<notin> set a \<Longrightarrow> split_first d (a @ d # b) = Some (a, b)"
  by (induction a) auto

lemma split_first_SomeD: "split_first d s = Some (a, b) \<Longrightarrow> s = a @ d # b \<and> d \<notin> set a"
proof (induction s arbitrary: a)
  case (Cons c cs)
  show ?case
    using Cons.prems by (auto split: if_splits option.splits dest: Cons.IH)
qed simp

lemma split_first_Some: "split_first d s = Some (a, b) \<longleftrightarrow> s = a @ d # b \<and> d \<notin> set a"
  using split_first_SomeD by auto

definition quoted :: "string \<Rightarrow> string" where
  "quoted s = [CHR 0x27] @ s @ [CHR 0x27]"

definition starts_with :: "string \<Rightarrow> string \<Rightarrow> bool" where
  "starts_with s p \<longleftrightarrow> take (length p) s = p"

lemma starts_with_append [simp]: "starts_with (p @ s) p"
  by (simp add: starts_with_def)

lemma starts_with_iff: "starts_with s p \<longleftrightarrow> (\<exists>t. s = p @ t)"
  unfolding starts_with_def by (metis append_eq_conv_conj append_take_drop_id)

subsection \<open>Decimal numbers\<close>

definition digit_char :: "nat \<Rightarrow> char" where
  "digit_char n = char_of (48 + n)"

definition digit_value :: "char \<Rightarrow> nat" where
  "digit_value c = ord c - 48"

lemma digit_char_simps [simp]:
  "n < 10 \<Longrightarrow> is_digit (digit_char n)" "n < 10 \<Longrightarrow> digit_value (digit_char n) = n"
  "n < 10 \<Longrightarrow> ord (digit_char n) = 48 + n"
  by (auto simp: digit_char_def digit_value_def char_in_def)

lemma digit_value_less: "is_digit c \<Longrightarrow> digit_value c < 10"
  by (auto simp: digit_value_def char_in_def)

lemma digit_char_value: "is_digit c \<Longrightarrow> digit_char (digit_value c) = c"
  by (simp add: digit_char_def digit_value_def char_in_def)

text \<open>\<^verbatim>\<open>std::to_string\<close> of an unsigned and of a signed number.\<close>

fun dec :: "nat \<Rightarrow> string" where
  "dec n = (if n < 10 then [digit_char n] else dec (n div 10) @ [digit_char (n mod 10)])"

declare dec.simps [simp del]

definition dec_int :: "int \<Rightarrow> string" where
  "dec_int i = (if i < 0 then CHR ''-'' # dec (nat (- i)) else dec (nat i))"

fun dec_value :: "nat \<Rightarrow> string \<Rightarrow> nat" where
  "dec_value v [] = v"
| "dec_value v (c # cs) = dec_value (10 * v + digit_value c) cs"

lemma dec_value_append: "dec_value v (s @ t) = dec_value (dec_value v s) t"
  by (induction s arbitrary: v) auto

lemma dec_value_dec [simp]: "dec_value 0 (dec n) = n"
proof (induction n rule: dec.induct)
  case (1 n)
  then show ?case
    by (cases "n < 10") (auto simp: dec.simps [of n] dec_value_append)
qed

lemma dec_digits: "c \<in> set (dec n) \<Longrightarrow> is_digit c"
proof (induction n rule: dec.induct)
  case (1 n)
  then show ?case
    by (cases "n < 10") (auto simp: dec.simps [of n])
qed

lemma digit_char_eq: "digit_char 0 = CHR ''0''" "digit_char 1 = CHR ''1''" "digit_char 2 = CHR ''2''"
  by (rule iffD1 [OF ord_inject], simp add: ord_def digit_char_def)+

lemma dec_0: "dec 0 = ''0''"
  by (simp add: dec.simps [of 0] digit_char_eq)

lemma dec_neq_Nil [simp]: "dec n \<noteq> []"
  by (subst dec.simps) auto

text \<open>
  \<^verbatim>\<open>std::from_chars\<close> into an unsigned type with largest value \<open>mx\<close>: the longest run of
  digits at the front, and what follows it; \<open>None\<close> when it sets an error code (no digit,
  or a value out of range).
\<close>

definition from_chars :: "nat \<Rightarrow> string \<Rightarrow> (nat \<times> string) option" where
  "from_chars mx s =
     (let ds = takeWhile is_digit s; v = dec_value 0 ds
      in if ds = [] \<or> mx < v then None else Some (v, dropWhile is_digit s))"

text \<open>Into a signed 64-bit type: an optional minus sign first.\<close>

definition from_chars_int64 :: "string \<Rightarrow> (int \<times> string) option" where
  "from_chars_int64 s =
     (case s of
        CHR ''-'' # t \<Rightarrow> map_option (\<lambda>(v, r). (- int v, r)) (from_chars (2 ^ 63) t)
      | _ \<Rightarrow> map_option (\<lambda>(v, r). (int v, r)) (from_chars (2 ^ 63 - 1) s))"

lemma from_chars_dec [simp]: "n \<le> mx \<Longrightarrow> from_chars mx (dec n) = Some (n, [])"
proof -
  assume n: "n \<le> mx"
  have t: "takeWhile is_digit (dec n) = dec n" and d: "dropWhile is_digit (dec n) = []"
    by (auto simp: takeWhile_eq_all_conv dropWhile_eq_Nil_conv dec_digits)
  show ?thesis
    using n by (simp add: from_chars_def t d Let_def)
qed

lemma from_chars_Some_le: "from_chars mx s = Some (v, r) \<Longrightarrow> v \<le> mx"
  by (auto simp: from_chars_def Let_def split: if_splits)

subsection \<open>Lists sorted by a key\<close>

text \<open>
  \<^verbatim>\<open>std::ranges::lower_bound\<close> on a list sorted by a key: the first position whose key is not
  below \<open>k\<close>. The sources use it to insert or replace an entry and to look one up.
\<close>

fun lower_bound :: "('a \<Rightarrow> 'k::linorder) \<Rightarrow> 'k \<Rightarrow> 'a list \<Rightarrow> nat" where
  "lower_bound f k [] = 0"
| "lower_bound f k (x # xs) = (if f x < k then Suc (lower_bound f k xs) else 0)"

abbreviation sorted_by :: "('a \<Rightarrow> 'k::linorder) \<Rightarrow> 'a list \<Rightarrow> bool" where
  "sorted_by f \<equiv> sorted_wrt (\<lambda>x y. f x < f y)"

lemma sorted_by_distinct: "sorted_by f xs \<Longrightarrow> distinct (map f xs)"
  by (induction xs) auto

lemma sorted_by_sort_key: "distinct (map f xs) \<Longrightarrow> sorted_by f (sort_key f xs)"
proof -
  assume d: "distinct (map f xs)"
  have "sorted (map f (sort_key f xs))" by simp
  moreover have "distinct (map f (sort_key f xs))"
    using d by (simp add: distinct_map)
  ultimately have "sorted_wrt (<) (map f (sort_key f xs))"
    by (simp add: strict_sorted_iff)
  then show ?thesis by (simp add: sorted_wrt_map)
qed

lemma sorted_by_sort_key_id: "sorted_by f xs \<Longrightarrow> sort_key f xs = xs"
  by (rule sort_key_id_if_sorted)
    (auto simp: sorted_map intro: sorted_wrt_mono_rel [rotated])

lemma lower_bound_le: "lower_bound f k xs \<le> length xs"
  by (induction xs) auto

subsection \<open>Association lists\<close>

lemma map_of_update [simp]: "map_of (AList.update k v al) = (map_of al)(k \<mapsto> v)"
  by (simp add: update_conv')

lemma map_of_delete [simp]: "map_of (AList.delete k al) = (map_of al)(k := None)"
  by (simp add: delete_conv')

lemma distinct_filter_fst: "distinct (map fst al) \<Longrightarrow> distinct (map fst (filter P al))"
  by (induction al) auto

lemma map_of_filter_fst:
  "map_of (filter (\<lambda>kv. P (fst kv)) al) k = (if P k then map_of al k else None)"
  by (induction al) auto

lemma map_of_filter_Some:
  "distinct (map fst al) \<Longrightarrow>
   map_of (filter P al) k = Some v \<longleftrightarrow> map_of al k = Some v \<and> P (k, v)"
  by (simp add: map_of_eq_Some_iff distinct_filter_fst)

end
