(* ===== verification/Codec_Interface.thy ===== *)
theory Codec_Interface
  imports Confide_Prelude
begin

section \<open>Interface: textual encodings\<close>

text \<open>
  The contract several components share: a printer \<open>enc\<close> and a parser \<open>dec\<close> of the same
  format. \<open>text_codec\<close> asks that the parser reads what the printer wrote;
  \<open>checked_codec\<close> also that it accepts only valid values; \<open>canonical_codec\<close> also that an
  accepted text is the one the printer would write, so that no two texts name one value.
\<close>

locale text_codec =
  fixes enc :: "'a \<Rightarrow> 't"
    and dec :: "'t \<Rightarrow> 'a result"
    and valid :: "'a \<Rightarrow> bool"
  assumes dec_enc: "valid x \<Longrightarrow> dec (enc x) = Inr x"
begin

lemma enc_inject: "valid x \<Longrightarrow> valid y \<Longrightarrow> enc x = enc y \<longleftrightarrow> x = y"
  using dec_enc by (metis Inr_inject)

lemma enc_accepted: "valid x \<Longrightarrow> is_ok (dec (enc x))"
  by (simp add: dec_enc)

lemma inj_on_enc: "inj_on enc (Collect valid)"
  by (auto intro!: inj_onI simp: enc_inject)

end

locale checked_codec = text_codec +
  assumes dec_valid: "dec t = Inr x \<Longrightarrow> valid x"
begin

lemma dec_enc_dec: "dec t = Inr x \<Longrightarrow> dec (enc x) = Inr x"
  by (rule dec_enc) (rule dec_valid)

lemma valid_iff_enc_accepted: "valid x \<longleftrightarrow> dec (enc x) = Inr x"
  using dec_enc dec_valid by blast

end

locale canonical_codec = checked_codec +
  assumes enc_dec: "dec t = Inr x \<Longrightarrow> enc x = t"
begin

lemma dec_inject: "dec s = Inr x \<Longrightarrow> dec t = Inr x \<Longrightarrow> s = t"
  using enc_dec by blast

lemma accepted_iff: "dec t = Inr x \<longleftrightarrow> valid x \<and> t = enc x"
  using dec_enc dec_valid enc_dec by blast

end

end
