(* ===== verification/Common_Base64.thy ===== *)
theory Common_Base64
  imports Codec_Interface
begin

section \<open>Base64\<close>

text \<open>
  \<^verbatim>\<open>src/src/lib/common/base64.cpp\<close>. Groups of three bytes become a 24-bit number in a
  32-bit word and four 6-bit digits; the decoder rebuilds the word and checks where padding
  may stand. The shifts and masks are those of the source, on 32-bit words.
\<close>

subsection \<open>Model\<close>

definition kAlphabet :: string where
  "kAlphabet = ''ABCDEFGHIJKLMNOPQRSTUVWXYZabcdefghijklmnopqrstuvwxyz0123456789+/''"

definition b64_digit :: "char \<Rightarrow> int" where
  "b64_digit c =
     (if char_in 65 90 c then int (ord c) - 65
      else if char_in 97 122 c then int (ord c) - 97 + 26
      else if char_in 48 57 c then int (ord c) - 48 + 52
      else if c = CHR ''+'' then 62
      else if c = CHR ''/'' then 63
      else -1)"

text \<open>The inner loop that collects up to three bytes; missing ones count as 0.\<close>

fun enc_group :: "nat \<Rightarrow> byte list \<Rightarrow> u32 \<Rightarrow> u32" where
  "enc_group 0 bs g = g"
| "enc_group (Suc k) bs g =
     enc_group k (tl bs) (push_bit 8 g OR (if bs \<noteq> [] then ucast (hd bs) else 0))"

definition enc_digit :: "nat \<Rightarrow> u32 \<Rightarrow> nat \<Rightarrow> char" where
  "enc_digit n g k =
     (if k \<le> n then kAlphabet ! unat (drop_bit (18 - 6 * k) g AND 0x3F) else CHR ''='')"

function base64_encode :: "byte list \<Rightarrow> string" where
  "base64_encode bs =
     (if bs = [] then []
      else (let n = min 3 (length bs); g = enc_group 3 bs 0
            in map (enc_digit n g) [0, 1, 2, 3] @ base64_encode (drop 3 bs)))"
  by pat_completeness auto
termination
  by (relation "measure length") auto

declare base64_encode.simps [simp del]

definition b64_invalid :: "string \<Rightarrow> 'a result" where
  "b64_invalid d = fail Validation d"

text \<open>The inner loop of the decoder over the four characters of a group.\<close>

fun dec_group :: "bool \<Rightarrow> nat \<Rightarrow> string \<Rightarrow> nat \<Rightarrow> u32 \<Rightarrow> (nat \<times> u32) result" where
  "dec_group lst k [] pad g = Inr (pad, g)"
| "dec_group lst k (c # cs) pad g =
     (if c = CHR ''='' then
        (if \<not> lst \<or> k < 2 then b64_invalid ''base64: misplaced padding''
         else dec_group lst (Suc k) cs (Suc pad) (push_bit 6 g))
      else
        (let d = b64_digit c
         in if d < 0 \<or> 0 < pad then b64_invalid ''base64: invalid character''
            else dec_group lst (Suc k) cs pad (push_bit 6 g OR word_of_int d)))"

definition dec_bytes :: "nat \<Rightarrow> u32 \<Rightarrow> byte list" where
  "dec_bytes pad g = map (\<lambda>k. ucast (drop_bit (16 - 8 * k) g AND 0xFF)) [0..<3 - pad]"

function dec_groups :: "string \<Rightarrow> byte list result" where
  "dec_groups s =
     (if s = [] then Inr []
      else cfd_try (dec_group (length s = 4) 0 (take 4 s) 0 0) (\<lambda>(pad, g).
           cfd_try (dec_groups (drop 4 s)) (\<lambda>out. Inr (dec_bytes pad g @ out))))"
  by pat_completeness auto
termination
  by (relation "measure length") auto

declare dec_groups.simps [simp del]

definition base64_decode :: "string \<Rightarrow> byte list result" where
  "base64_decode s =
     (if length s mod 4 \<noteq> 0 then b64_invalid ''base64: length is not a multiple of 4''
      else dec_groups s)"

subsection \<open>Digits and groups\<close>

lemma b64_digits_table: "map b64_digit kAlphabet = map int [0..<64]"
  by (simp add: kAlphabet_def b64_digit_def char_in_def ord_def upt_rec)

lemma kAlphabet_length: "length kAlphabet = 64"
  by (simp add: kAlphabet_def)

lemma kAlphabet_no_pad: "CHR ''='' \<notin> set kAlphabet"
  by (simp add: kAlphabet_def)

lemma b64_digit_alphabet:
  assumes "n < 64"
  shows "b64_digit (kAlphabet ! n) = int n" "kAlphabet ! n \<noteq> CHR ''=''"
proof -
  have "map b64_digit kAlphabet ! n = map int [0..<64] ! n"
    by (simp only: b64_digits_table)
  then show "b64_digit (kAlphabet ! n) = int n"
    using assms by (simp add: kAlphabet_length)
  show "kAlphabet ! n \<noteq> CHR ''=''"
    using assms by (metis kAlphabet_length kAlphabet_no_pad nth_mem)
qed

lemma and_63_less: "unat (g AND 0x3F :: u32) < 64"
proof -
  have "g AND 0x3F \<le> (0x3F :: u32)" by (rule word_and_le1)
  then show ?thesis by (simp add: word_le_nat_alt)
qed

lemma regroup24:
  fixes g :: u32
  assumes "take_bit 24 g = g"
  shows "push_bit 6 (push_bit 6 (push_bit 6 (push_bit 6 0 OR (drop_bit 18 g AND 0x3F))
           OR (drop_bit 12 g AND 0x3F)) OR (drop_bit 6 g AND 0x3F)) OR (g AND 0x3F) = g"
proof -
  have m: "0x3F = (mask 6 :: u32)" by (simp add: mask_eq_exp_minus_1)
  have b: "bit g n \<Longrightarrow> n < 24" for n
    using assms by (metis bit_take_bit_iff)
  show ?thesis
    unfolding m
  proof (rule bit_word_eqI)
    fix n
    show "bit (push_bit 6 (push_bit 6 (push_bit 6 (push_bit 6 0 OR (drop_bit 18 g AND mask 6))
           OR (drop_bit 12 g AND mask 6)) OR (drop_bit 6 g AND mask 6)) OR (g AND mask 6)) n
         = bit g n" if "n < LENGTH(32)"
      using that
      by (cases "n < 6"; cases "n < 12"; cases "n < 18") (auto simp: bit_simps dest: b)
  qed
qed

lemma bytes_of_group:
  fixes a b c :: byte
  defines "g \<equiv> push_bit 8 (push_bit 8 (push_bit 8 0 OR ucast a) OR ucast b) OR (ucast c :: u32)"
  shows "take_bit 24 g = g"
    and "ucast (drop_bit 16 g AND 0xFF) = a"
    and "ucast (drop_bit 8 g AND 0xFF) = b"
    and "ucast (g AND 0xFF) = c"
proof -
  have m: "0xFF = (mask 8 :: u32)" by (simp add: mask_eq_exp_minus_1)
  have len: "bit w n \<Longrightarrow> n < 8" for w :: byte and n
    using bit_imp_le_length [of w n] by simp
  show "take_bit 24 g = g"
    unfolding g_def by (rule bit_word_eqI) (auto simp: bit_simps dest: len)
  show "ucast (drop_bit 16 g AND 0xFF) = a"
    unfolding g_def m by (rule bit_word_eqI) (auto simp: bit_simps dest: len)
  show "ucast (drop_bit 8 g AND 0xFF) = b"
    unfolding g_def m by (rule bit_word_eqI) (auto simp: bit_simps dest: len)
  show "ucast (g AND 0xFF) = c"
    unfolding g_def m by (rule bit_word_eqI) (auto simp: bit_simps dest: len)
qed

abbreviation sextet :: "u32 \<Rightarrow> nat \<Rightarrow> u32" where
  "sextet g k \<equiv> drop_bit (18 - 6 * k) g AND 0x3F"

lemma dec_group_digit:
  "dec_group l k (kAlphabet ! unat (x AND 0x3F) # cs) 0 g =
   dec_group l (Suc k) cs 0 (push_bit 6 g OR (x AND 0x3F))"
  using b64_digit_alphabet [OF and_63_less [of x]] by simp

lemma dec_group_enc_digits:
  assumes g: "take_bit 24 g = g"
    and z2: "n < 2 \<Longrightarrow> sextet g 2 = 0" and z3: "n < 3 \<Longrightarrow> sextet g 3 = 0"
    and n: "1 \<le> n" "n \<le> 3" and l: "n < 3 \<Longrightarrow> l"
  shows "dec_group l 0 (map (enc_digit n g) [0, 1, 2, 3]) 0 0 = Inr (3 - n, g)"
proof -
  note r = regroup24 [OF g]
  consider "n = 1" | "n = 2" | "n = 3" using n by linarith
  then show ?thesis
  proof cases
    case 1
    have "map (enc_digit n g) [0, 1, 2, 3] =
        [kAlphabet ! unat (sextet g 0), kAlphabet ! unat (sextet g 1), CHR ''='', CHR ''='']"
      using 1 by (simp add: enc_digit_def)
    moreover have "drop_bit 6 g AND 0x3F = 0" "g AND 0x3F = 0"
      using 1 z2 z3 by simp_all
    ultimately show ?thesis
      using 1 r [unfolded \<open>drop_bit 6 g AND 0x3F = 0\<close> \<open>g AND 0x3F = 0\<close>] l
      by (simp only: dec_group_digit) simp
  next
    case 2
    have "map (enc_digit n g) [0, 1, 2, 3] =
        [kAlphabet ! unat (sextet g 0), kAlphabet ! unat (sextet g 1),
         kAlphabet ! unat (sextet g 2), CHR ''='']"
      using 2 by (simp add: enc_digit_def)
    moreover have "g AND 0x3F = 0"
      using 2 z3 by simp
    ultimately show ?thesis
      using 2 r [unfolded \<open>g AND 0x3F = 0\<close>] l by (simp only: dec_group_digit) simp
  next
    case 3
    have "map (enc_digit n g) [0, 1, 2, 3] =
        [kAlphabet ! unat (sextet g 0), kAlphabet ! unat (sextet g 1),
         kAlphabet ! unat (sextet g 2), kAlphabet ! unat (sextet g 3)]"
      using 3 by (simp add: enc_digit_def)
    then show ?thesis
      using 3 r by (simp only: dec_group_digit) simp
  qed
qed

lemma low_sextets_zero:
  fixes a b :: byte
  shows "sextet (push_bit 8 (push_bit 8 (ucast a))) 2 = 0"
    and "sextet (push_bit 8 (push_bit 8 (ucast a) OR ucast b)) 3 = 0"
proof -
  have m: "0x3F = (mask 6 :: u32)" by (simp add: mask_eq_exp_minus_1)
  show "sextet (push_bit 8 (push_bit 8 (ucast a))) 2 = 0"
    unfolding m by (rule bit_word_eqI) (auto simp: bit_simps)
  show "sextet (push_bit 8 (push_bit 8 (ucast a) OR ucast b)) 3 = 0"
    unfolding m by (rule bit_word_eqI) (auto simp: bit_simps)
qed

lemma group_round_trip:
  assumes bs: "bs \<noteq> []" and n: "n = min 3 (length bs)" and l: "n < 3 \<Longrightarrow> l"
  shows "dec_group l 0 (map (enc_digit n (enc_group 3 bs 0)) [0, 1, 2, 3]) 0 0 =
           Inr (3 - n, enc_group 3 bs 0)"
    and "dec_bytes (3 - n) (enc_group 3 bs 0) = take 3 bs"
proof -
  define a where "a = hd bs"
  define b where "b = (if length bs < 2 then 0 else bs ! 1)"
  define c where "c = (if length bs < 3 then 0 else bs ! 2)"
  define g where "g = push_bit 8 (push_bit 8 (push_bit 8 0 OR ucast a) OR ucast b) OR (ucast c :: u32)"
  have eg: "enc_group 3 bs 0 = g"
    using bs by (cases bs; cases "tl bs"; cases "tl (tl bs)")
      (auto simp: g_def a_def b_def c_def numeral_3_eq_3)
  note bytes = bytes_of_group [of a b c, folded g_def]
  have "dec_group l 0 (map (enc_digit n g) [0, 1, 2, 3]) 0 0 = Inr (3 - n, g)"
  proof (rule dec_group_enc_digits)
    show "take_bit 24 g = g" by (rule bytes)
    show "n < 2 \<Longrightarrow> sextet g 2 = 0" "n < 3 \<Longrightarrow> sextet g 3 = 0"
      using low_sextets_zero n by (auto simp: g_def b_def c_def min_def split: if_splits)
    show "1 \<le> n" "n \<le> 3" using bs n by (auto simp: Suc_le_eq)
  qed (use l in auto)
  then show "dec_group l 0 (map (enc_digit n (enc_group 3 bs 0)) [0, 1, 2, 3]) 0 0 =
      Inr (3 - n, enc_group 3 bs 0)"
    by (simp add: eg)
  have "dec_bytes (3 - n) g = take n [a, b, c]"
  proof -
    have "dec_bytes (3 - n) g = map (\<lambda>k. [a, b, c] ! k) [0..<n]"
      unfolding dec_bytes_def
    proof (rule map_cong)
      fix k assume "k \<in> set [0..<n]"
      then consider "k = 0" | "k = 1" | "k = 2" using n by fastforce
      then show "ucast (drop_bit (16 - 8 * k) g AND 0xFF) = [a, b, c] ! k"
        using bytes by cases simp_all
    qed (use n in simp)
    also have "\<dots> = take n [a, b, c]"
      using n by (intro nth_equalityI) auto
    finally show ?thesis .
  qed
  also have "take n [a, b, c] = take 3 bs"
    using bs n by (cases bs; cases "tl bs"; cases "tl (tl bs)")
      (auto simp: a_def b_def c_def numeral_3_eq_3)
  finally show "dec_bytes (3 - n) (enc_group 3 bs 0) = take 3 bs"
    by (simp add: eg)
qed

subsection \<open>Round trip and shape\<close>

lemma base64_encode_Nil [simp]: "base64_encode [] = []"
  by (simp add: base64_encode.simps)

lemma base64_encode_step:
  "bs \<noteq> [] \<Longrightarrow> base64_encode bs =
     map (enc_digit (min 3 (length bs)) (enc_group 3 bs 0)) [0, 1, 2, 3] @ base64_encode (drop 3 bs)"
  by (subst base64_encode.simps) (simp add: Let_def)

lemma length_base64_encode: "length (base64_encode bs) = (length bs + 2) div 3 * 4"
proof (induction bs rule: base64_encode.induct)
  case (1 bs)
  show ?case
  proof (cases "bs = []")
    case False
    with 1 have "length (base64_encode bs) = 4 + (length (drop 3 bs) + 2) div 3 * 4"
      by (simp add: base64_encode_step)
    also have "\<dots> = (length bs + 2) div 3 * 4"
    proof (cases "length bs < 3")
      case True
      then have "length bs = 1 \<or> length bs = 2" using False less_2_cases_iff by (cases bs) auto
      then show ?thesis by auto
    next
      case ge: False
      then obtain m where "length bs = m + 3" using le_Suc_ex [of 3 "length bs"] by auto
      then have "(length bs + 2) div 3 = Suc ((length (drop 3 bs) + 2) div 3)"
        using div_add_self2 [of 3 "m + 2"] by simp
      then show ?thesis by simp
    qed
    finally show ?thesis .
  qed simp
qed

lemma base64_encode_eq_Nil: "base64_encode bs = [] \<longleftrightarrow> bs = []"
  using base64_encode_step [of bs] by (cases "bs = []") auto

lemma dec_groups_base64_encode: "dec_groups (base64_encode bs) = Inr bs"
proof (induction bs rule: base64_encode.induct)
  case (1 bs)
  show ?case
  proof (cases "bs = []")
    case True
    then show ?thesis by (simp add: dec_groups.simps)
  next
    case False
    let ?n = "min 3 (length bs)"
    let ?ds = "map (enc_digit ?n (enc_group 3 bs 0)) [0, 1, 2, 3]"
    let ?s = "base64_encode bs"
    have s: "?s = ?ds @ base64_encode (drop 3 bs)"
      by (rule base64_encode_step [OF False])
    then have tk: "take 4 ?s = ?ds" and dr: "drop 4 ?s = base64_encode (drop 3 bs)"
      and ne: "?s \<noteq> []"
      by simp_all
    have last: "length ?s = 4" if "?n < 3"
    proof -
      from that have "drop 3 bs = []" by (simp add: min_def split: if_splits)
      then show ?thesis by (simp add: s)
    qed
    note g = group_round_trip [OF False refl last]
    have ih: "dec_groups (base64_encode (drop 3 bs)) = Inr (drop 3 bs)"
      using False by (intro "1.IH") auto
    have "dec_groups ?s = cfd_try (dec_group (length ?s = 4) 0 ?ds 0 0) (\<lambda>(pad, g).
        cfd_try (dec_groups (base64_encode (drop 3 bs))) (\<lambda>out. Inr (dec_bytes pad g @ out)))"
      using ne by (subst dec_groups.simps) (simp add: tk dr)
    also have "\<dots> = Inr (take 3 bs @ drop 3 bs)"
      by (simp only: g ih cfd_try.simps prod.case)
    finally show ?thesis by simp
  qed
qed

lemma base64_chars: "c \<in> set (base64_encode bs) \<Longrightarrow> c \<in> set kAlphabet \<or> c = CHR ''=''"
proof -
  have d: "enc_digit n g k \<in> set kAlphabet \<union> {CHR ''=''}" for n g k
  proof -
    have "kAlphabet ! unat (drop_bit (18 - 6 * k) g AND 0x3F) \<in> set kAlphabet"
      by (rule nth_mem) (simp only: kAlphabet_length and_63_less)
    then show ?thesis by (simp add: enc_digit_def)
  qed
  have "set (base64_encode bs) \<subseteq> set kAlphabet \<union> {CHR ''=''}"
  proof (induction bs rule: base64_encode.induct)
    case (1 bs)
    then show ?case using d by (cases "bs = []") (simp_all add: base64_encode_step del: Un_insert_right)
  qed
  then show "c \<in> set (base64_encode bs) \<Longrightarrow> c \<in> set kAlphabet \<or> c = CHR ''=''" by blast
qed

interpretation base64: text_codec base64_encode base64_decode "\<lambda>_. True"
  by unfold_locales (simp add: base64_decode_def dec_groups_base64_encode length_base64_encode)

text \<open>C32. Encoding any bytes and decoding the text gives the same bytes back, so a digest or a
  password record stored as base64 is read back exactly.\<close>

theorem base64_round_trip: "base64_decode (base64_encode bs) = Inr bs"
  by (simp add: base64.dec_enc)

end
