(* ===== verification/Common_Id.thy ===== *)
theory Common_Id
  imports Codec_Interface
begin

section \<open>Transaction ids\<close>

text \<open>
  \<^verbatim>\<open>src/src/lib/common/id.cpp\<close>. A \<open>TransactionId\<close> is the canonical lowercase text of a
  version 4 UUID, and is its own text. \<open>generate\<close> takes its text from Boost.UUID, so the
  operations that call it take the generated text as an argument.
\<close>

type_synonym transaction_id = string

definition is_dash_pos :: "nat \<Rightarrow> bool" where
  "is_dash_pos p \<longleftrightarrow> p = 8 \<or> p = 13 \<or> p = 18 \<or> p = 23"

definition is_lower_hex :: "char \<Rightarrow> bool" where
  "is_lower_hex c \<longleftrightarrow> char_in 48 57 c \<or> char_in 97 102 c"

definition kUuidTextLen :: nat where "kUuidTextLen = 36"
definition kVersionPos :: nat where "kVersionPos = 14"
definition kVariantPos :: nat where "kVariantPos = 19"

definition id_shape :: "string \<Rightarrow> bool" where
  "id_shape s \<longleftrightarrow>
     list_all (\<lambda>i. if is_dash_pos i then s ! i = CHR ''-'' else is_lower_hex (s ! i)) [0..<length s]"

definition id_parse :: "string \<Rightarrow> transaction_id result" where
  "id_parse s =
     (let failed = fail Validation ''malformed transaction id''
      in if length s \<noteq> kUuidTextLen then failed
         else if \<not> id_shape s then failed
         else let variant = s ! kVariantPos
              in if s ! kVersionPos \<noteq> CHR ''4'' \<or>
                    variant \<noteq> CHR ''8'' \<and> variant \<noteq> CHR ''9'' \<and>
                    variant \<noteq> CHR ''a'' \<and> variant \<noteq> CHR ''b''
                 then failed else Inr s)"

text \<open>What \<open>parse\<close> accepts.\<close>

definition valid_id :: "string \<Rightarrow> bool" where
  "valid_id s \<longleftrightarrow> id_parse s = Inr s"

lemma id_parse_Inr: "id_parse s = Inr i \<longleftrightarrow> i = s \<and> valid_id s"
  by (auto simp: id_parse_def valid_id_def Let_def split: if_splits)

interpretation tid: canonical_codec "\<lambda>i. i" id_parse valid_id
  by unfold_locales (auto simp: id_parse_Inr)

text \<open>
  An id is used as a folder name and inside URLs: it has no separator, no dot and no byte
  that needs escaping.
\<close>

lemma valid_id_chars:
  assumes "valid_id s" "c \<in> set s"
  shows "c = CHR ''-'' \<or> is_lower_hex c"
proof -
  from assms(1) have "id_shape s"
    by (auto simp: valid_id_def id_parse_def Let_def split: if_splits)
  then show ?thesis
    using assms(2) by (auto simp: id_shape_def list_all_iff in_set_conv_nth split: if_splits)
qed

lemma valid_id_length: "valid_id s \<Longrightarrow> length s = 36"
  by (auto simp: valid_id_def id_parse_def kUuidTextLen_def Let_def split: if_splits)

lemma valid_id_no_slash: "valid_id s \<Longrightarrow> CHR ''/'' \<notin> set s"
  by (auto dest: valid_id_chars simp: is_lower_hex_def char_in_def ord_def)

lemma valid_id_no_dot: "valid_id s \<Longrightarrow> CHR ''.'' \<notin> set s"
  by (auto dest: valid_id_chars simp: is_lower_hex_def char_in_def ord_def)

text \<open>An id for the witnesses.\<close>

definition sample_id :: transaction_id where
  "sample_id = ''00000000-0000-4000-8000-000000000000''"

lemma valid_sample_id: "valid_id sample_id"
  by code_simp

end
