(* ===== verification/Common_Path.thy ===== *)
theory Common_Path
  imports Codec_Interface
begin

section \<open>Relative paths\<close>

text \<open>
  \<^verbatim>\<open>src/src/lib/common/path_sanitizer.cpp\<close>: \<open>RelativePath::parse\<close>, \<open>from_local\<close> and
  \<open>under\<close>. A \<open>RelativePath\<close> is its text. A \<^verbatim>\<open>std::filesystem::path\<close> is the list of the
  elements its iterator visits: a first \<open>''/''\<close> for the root directory, the names, and a
  last empty name for a trailing separator.
\<close>

type_synonym relative_path = string
type_synonym fs_path = "string list"

subsection \<open>Model: parsing\<close>

definition kMaxPathBytes :: nat where "kMaxPathBytes = 4096"
definition kMaxComponentBytes :: nat where "kMaxComponentBytes = 255"

definition path_invalid :: "string \<Rightarrow> 'a result" where
  "path_invalid why = fail Validation (''invalid path: '' @ why)"

definition is_forbidden_char :: "char \<Rightarrow> bool" where
  "is_forbidden_char c \<longleftrightarrow>
     ord c < 0x20 \<or> ord c = 0x7f \<or> ord c = 0x5c \<or> c = CHR '':''"

text \<open>The loop over the parts between the separators.\<close>

fun check_parts :: "string list \<Rightarrow> unit result" where
  "check_parts [] = Inr ()"
| "check_parts (part # parts) =
     (if part = [] then path_invalid ''empty component''
      else if part = ''.'' \<or> part = ''..'' then path_invalid ''dot component''
      else if kMaxComponentBytes < length part then path_invalid ''component too long''
      else check_parts parts)"

definition path_parse :: "string \<Rightarrow> relative_path result" where
  "path_parse raw =
     (if raw = [] then path_invalid ''empty''
      else if kMaxPathBytes < length raw then path_invalid ''too long''
      else if hd raw = CHR ''/'' then path_invalid ''absolute''
      else if list_ex is_forbidden_char raw then path_invalid ''forbidden character''
      else cfd_try (check_parts (split_on CHR ''/'' raw)) (\<lambda>_. Inr raw))"

subsection \<open>Model: \<^verbatim>\<open>std::filesystem::path\<close>\<close>

definition path_elems :: "string \<Rightarrow> fs_path" where
  "path_elems s =
     (let parts = split_on CHR ''/'' s; names = filter (\<lambda>p. p \<noteq> []) parts
      in if s = [] then []
         else (if hd s = CHR ''/'' then [''/''] else []) @ names @
              (if last parts = [] \<and> names \<noteq> [] then [[]] else []))"

definition is_absolute :: "fs_path \<Rightarrow> bool" where
  "is_absolute p \<longleftrightarrow> p \<noteq> [] \<and> hd p = ''/''"

text \<open>
  One element of \<open>lexically_normal\<close>: the names kept so far (the last one first) and whether
  the text so far ends in a separator.
\<close>

fun norm_step :: "bool \<Rightarrow> string list \<times> bool \<Rightarrow> string \<Rightarrow> string list \<times> bool" where
  "norm_step ab (st, tr) e =
     (if e = [] \<or> e = ''.'' then (st, True)
      else if e = ''..'' then
        (case st of
           [] \<Rightarrow> if ab then ([], True) else ([e], False)
         | n # st' \<Rightarrow> if n = ''..'' then (e # st, False) else (st', True))
      else (e # st, False))"

definition lexically_normal :: "fs_path \<Rightarrow> fs_path" where
  "lexically_normal p =
     (if p = [] then []
      else
        (let ab = is_absolute p;
             (st, tr) = foldl (norm_step ab) ([], False) (if ab then tl p else p);
             root = (if ab then [''/''] else [])
         in if st = [] then (if ab then root else [''.''])
            else root @ rev st @ (if tr \<and> hd st \<noteq> ''..'' then [[]] else [])))"

fun strip_common :: "'a list \<Rightarrow> 'a list \<Rightarrow> 'a list \<times> 'a list" where
  "strip_common (x # xs) (y # ys) = (if x = y then strip_common xs ys else (x # xs, y # ys))"
| "strip_common xs ys = (xs, ys)"

definition dir_depth :: "fs_path \<Rightarrow> int" where
  "dir_depth b =
     sum_list (map (\<lambda>e. if e = ''..'' then -1 else if e = [] \<or> e = ''.'' then 0 else 1) b)"

definition lexically_relative :: "fs_path \<Rightarrow> fs_path \<Rightarrow> fs_path" where
  "lexically_relative p base =
     (if is_absolute p \<noteq> is_absolute base then []
      else
        (let (a, b) = strip_common p base; n = dir_depth b
         in if a = [] \<and> b = [] then [''.'']
            else if n < 0 then []
            else if n = 0 \<and> (a = [] \<or> hd a = []) then [''.'']
            else replicate (nat n) ''..'' @ a))"

definition from_local :: "fs_path \<Rightarrow> fs_path \<Rightarrow> relative_path result" where
  "from_local base file =
     (let rel = lexically_relative (lexically_normal file) (lexically_normal base)
      in if rel = [] \<or> is_absolute rel \<or> hd rel = ''..'' then path_invalid ''outside base directory''
         else path_parse (join_with CHR ''/'' rel))"

definition under :: "relative_path \<Rightarrow> fs_path \<Rightarrow> fs_path" where
  "under p root =
     (if root \<noteq> [] \<and> last root = [] then butlast root else root) @ path_elems p"

lemmas path_eval =
  path_parse_def kMaxPathBytes_def kMaxComponentBytes_def is_forbidden_char_def ord_def

subsection \<open>What \<open>parse\<close> accepts\<close>

definition plain_name :: "string \<Rightarrow> bool" where
  "plain_name q \<longleftrightarrow> q \<noteq> [] \<and> q \<noteq> ''.'' \<and> q \<noteq> ''..''"

definition valid_path :: "string \<Rightarrow> bool" where
  "valid_path p \<longleftrightarrow>
     length p \<le> 4096 \<and> list_all (\<lambda>c. \<not> is_forbidden_char c) p \<and>
     list_all (\<lambda>q. plain_name q \<and> length q \<le> 255) (split_on CHR ''/'' p)"

lemma check_parts_Inr:
  "check_parts ps = Inr () \<longleftrightarrow> list_all (\<lambda>q. plain_name q \<and> length q \<le> 255) ps"
  by (induction ps) (auto simp: path_invalid_def plain_name_def kMaxComponentBytes_def)

lemma valid_path_parts: "valid_path p \<Longrightarrow> q \<in> set (split_on CHR ''/'' p) \<Longrightarrow> plain_name q"
  by (simp add: valid_path_def list_all_iff)

lemma valid_path_neq_Nil [simp]: "valid_path p \<Longrightarrow> p \<noteq> []"
  by (auto simp: valid_path_def plain_name_def)

lemma valid_path_hd: "valid_path p \<Longrightarrow> hd p \<noteq> CHR ''/''"
  by (cases p) (auto simp: valid_path_def plain_name_def)

lemma path_parse_Inr: "path_parse raw = Inr p \<longleftrightarrow> p = raw \<and> valid_path raw"
proof
  assume "path_parse raw = Inr p"
  then show "p = raw \<and> valid_path raw"
    by (auto simp: path_parse_def path_invalid_def valid_path_def check_parts_Inr list_ex_iff
        list_all_iff kMaxPathBytes_def try_simps split: if_splits)
next
  assume v: "p = raw \<and> valid_path raw"
  then have "raw \<noteq> []" "hd raw \<noteq> CHR ''/''"
    using valid_path_hd by auto
  with v show "path_parse raw = Inr p"
    by (auto simp: path_parse_def valid_path_def check_parts_Inr list_ex_iff
        list_all_iff kMaxPathBytes_def try_simps)
qed

interpretation rel_path: canonical_codec "\<lambda>p. p" path_parse valid_path
  by unfold_locales (auto simp: path_parse_Inr)

lemma path_parse_error: "path_parse raw = Inl e \<Longrightarrow> code e = Validation"
proof -
  have "check_parts ps = Inl e \<Longrightarrow> code e = Validation" for ps
    by (induction ps) (auto simp: path_invalid_def split: if_splits)
  then show "path_parse raw = Inl e \<Longrightarrow> code e = Validation"
    by (auto simp: path_parse_def path_invalid_def try_simps split: if_splits)
qed

subsection \<open>Joining under a root\<close>

lemma path_elems_valid: "valid_path p \<Longrightarrow> path_elems p = split_on CHR ''/'' p"
proof -
  assume v: "valid_path p"
  then have ne: "q \<noteq> []" if "q \<in> set (split_on CHR ''/'' p)" for q
    using valid_path_parts [OF v that] by (simp add: plain_name_def)
  then have "filter (\<lambda>q. q \<noteq> []) (split_on CHR ''/'' p) = split_on CHR ''/'' p"
    by (simp add: filter_id_conv)
  moreover have "last (split_on CHR ''/'' p) \<noteq> []"
    by (simp add: ne)
  ultimately show ?thesis
    using v valid_path_hd [OF v] by (simp add: path_elems_def)
qed

lemma foldl_norm_plain:
  "ps \<noteq> [] \<Longrightarrow> (\<And>q. q \<in> set ps \<Longrightarrow> plain_name q) \<Longrightarrow>
   foldl (norm_step ab) (st, tr) ps = (rev ps @ st, False)"
proof (induction ps arbitrary: st tr)
  case (Cons q ps)
  then have "norm_step ab (st, tr) q = (q # st, False)"
    by (simp add: plain_name_def)
  with Cons show ?case
    by (cases "ps = []") auto
qed simp

text \<open>The names a root directory stands for once dots are resolved.\<close>

definition norm_root :: "fs_path \<Rightarrow> fs_path" where
  "norm_root root =
     (let ab = is_absolute root
      in (if ab then [''/''] else []) @
         rev (fst (foldl (norm_step ab) ([], False) (if ab then tl root else root))))"

lemma norm_step_Nil: "fst (norm_step ab x []) = fst x"
  by (cases x) simp

lemma norm_root_butlast:
  assumes "root \<noteq> []" "last root = []"
  shows "norm_root (butlast root) = norm_root root"
proof -
  obtain r where r: "root = r @ [[]]"
    using assms by (metis append_butlast_last_id)
  have "is_absolute (r @ [[]]) = is_absolute r"
    by (cases r) (auto simp: is_absolute_def)
  then show ?thesis
    by (cases r) (auto simp: r norm_root_def Let_def norm_step_Nil is_absolute_def)
qed

lemma lexically_normal_append:
  assumes ps: "ps \<noteq> []" "\<And>q. q \<in> set ps \<Longrightarrow> plain_name q" and hd: "hd ps \<noteq> ''/''"
  shows "lexically_normal (r @ ps) = norm_root r @ ps"
proof -
  define ab where "ab = is_absolute r"
  define r' where "r' = (if ab then tl r else r)"
  obtain st tr where f: "foldl (norm_step ab) ([], False) r' = (st, tr)"
    by fastforce
  have ab: "is_absolute (r @ ps) = ab"
    using ps(1) hd by (cases r) (auto simp: ab_def is_absolute_def)
  have tl: "(if ab then tl (r @ ps) else r @ ps) = r' @ ps"
    by (cases r) (auto simp: r'_def ab_def is_absolute_def)
  have "foldl (norm_step ab) ([], False) (r' @ ps) = (rev ps @ st, False)"
    by (simp add: f foldl_norm_plain [OF ps])
  moreover have "norm_root r = (if ab then [''/''] else []) @ rev st"
    using f by (simp add: norm_root_def ab_def [symmetric] r'_def [symmetric])
  ultimately show ?thesis
    using ps(1) by (simp add: lexically_normal_def ab tl Let_def del: foldl_append)
qed

lemma norm_root_append:
  assumes ps: "ps \<noteq> []" "\<And>q. q \<in> set ps \<Longrightarrow> plain_name q" and hd: "hd ps \<noteq> ''/''"
  shows "norm_root (r @ ps) = norm_root r @ ps"
proof -
  define ab where "ab = is_absolute r"
  define r' where "r' = (if ab then tl r else r)"
  obtain st tr where f: "foldl (norm_step ab) ([], False) r' = (st, tr)"
    by fastforce
  have ab: "is_absolute (r @ ps) = ab"
    using ps(1) hd by (cases r) (auto simp: ab_def is_absolute_def)
  have tl: "(if ab then tl (r @ ps) else r @ ps) = r' @ ps"
    by (cases r) (auto simp: r'_def ab_def is_absolute_def)
  have "foldl (norm_step ab) ([], False) (r' @ ps) = (rev ps @ st, False)"
    by (simp add: f foldl_norm_plain [OF ps])
  then have "norm_root (r @ ps) = (if ab then [''/''] else []) @ rev st @ ps"
    by (simp add: norm_root_def ab tl Let_def del: foldl_append)
  moreover have "norm_root r = (if ab then [''/''] else []) @ rev st"
    using f by (simp add: norm_root_def ab_def [symmetric] r'_def [symmetric])
  ultimately show ?thesis by simp
qed

lemma under_normal:
  assumes "valid_path p"
  shows "lexically_normal (under p root) = norm_root root @ split_on CHR ''/'' p"
proof -
  let ?ps = "split_on CHR ''/'' p"
  have h: "hd ?ps \<noteq> ''/''"
    using split_on_notin [of "hd ?ps" "CHR ''/''" p] by auto
  show ?thesis
    using lexically_normal_append [OF _ valid_path_parts [OF assms] h] norm_root_butlast [of root]
    by (simp add: under_def path_elems_valid assms)
qed

subsection \<open>Files found below a local directory\<close>

text \<open>A file below a directory whose last name is plain gets its own path back.\<close>

lemma from_local_under:
  assumes v: "valid_path p" and n: "plain_name n" "n \<noteq> ''/''"
  shows "from_local (r @ [n]) (under p (r @ [n])) = Inr p"
proof -
  let ?ps = "split_on CHR ''/'' p"
  have h: "hd ?ps \<noteq> ''/''"
    using split_on_notin [of "hd ?ps" "CHR ''/''" p] by auto
  have f: "lexically_normal (under p (r @ [n])) = (norm_root r @ [n]) @ ?ps"
    using under_normal [OF v, of "r @ [n]"] norm_root_append [of "[n]" r] n by simp
  have b: "lexically_normal (r @ [n]) = norm_root r @ [n]"
    using lexically_normal_append [of "[n]" r] n by simp
  have s: "strip_common (xs @ ys) xs = (ys, [])" for xs ys :: fs_path
    by (induction xs) (cases ys, auto)
  have a: "is_absolute ((norm_root r @ [n]) @ ?ps) = is_absolute (norm_root r @ [n])"
    by (cases "norm_root r") (auto simp: is_absolute_def)
  have q: "hd ?ps \<noteq> []" "hd ?ps \<noteq> ''..''"
    using valid_path_parts [OF v, of "hd ?ps"] by (auto simp: plain_name_def)
  have "lexically_relative ((norm_root r @ [n]) @ ?ps) (norm_root r @ [n]) = ?ps"
    unfolding lexically_relative_def s a using q by (simp add: dir_depth_def)
  then show ?thesis
    using h q v unfolding from_local_def f b by (simp add: is_absolute_def path_parse_Inr)
qed

lemma strip_common_append:
  "strip_common xs ys = (a, b) \<Longrightarrow> \<exists>c. xs = c @ a \<and> ys = c @ b"
proof (induction xs ys rule: strip_common.induct)
  case (1 x xs y ys)
  show ?case
  proof (cases "x = y")
    case True
    with 1 obtain c where "xs = c @ a" "ys = c @ b" by auto
    then show ?thesis using True by (intro exI [of _ "x # c"]) simp
  qed (use 1 in simp)
qed auto

lemma dir_depth_Cons [simp]:
  "dir_depth (e # b) = (if e = ''..'' then -1 else if e = [] \<or> e = ''.'' then 0 else 1) + dir_depth b"
  by (simp add: dir_depth_def)

lemma dir_depth_ge0: "''..'' \<notin> set b \<Longrightarrow> 0 \<le> dir_depth b"
  by (induction b) (auto simp: dir_depth_def)

lemma dir_depth_0: "''..'' \<notin> set b \<Longrightarrow> dir_depth b = 0 \<Longrightarrow> set b \<subseteq> {[], ''.''}"
proof (induction b)
  case (Cons e b)
  then show ?case
    using dir_depth_ge0 [of b] by (auto split: if_splits)
qed simp

lemma not_valid_dot: "path_parse ''.'' \<noteq> Inr p"
  by (simp add: path_parse_Inr valid_path_def plain_name_def)

lemma from_local_parts:
  assumes "from_local base file = Inr p" "''..'' \<notin> set (lexically_normal base)"
  shows "\<exists>c a b. lexically_normal base = c @ b \<and> set b \<subseteq> {[], ''.''} \<and>
           lexically_normal file = c @ a \<and> p = join_with CHR ''/'' a"
proof -
  let ?f = "lexically_normal file" and ?b = "lexically_normal base"
  let ?rel = "lexically_relative ?f ?b"
  have rel: "?rel \<noteq> []" "hd ?rel \<noteq> ''..''"
    and p: "path_parse (join_with CHR ''/'' ?rel) = Inr p"
    using assms(1) by (auto simp: from_local_def path_invalid_def Let_def split: if_splits)
  obtain a b where ab: "strip_common ?f ?b = (a, b)" by fastforce
  obtain c where c: "?f = c @ a" "?b = c @ b"
    using strip_common_append [OF ab] by blast
  have nodot: "?rel \<noteq> [''.'']"
    using p not_valid_dot by auto
  then have eq: "?rel = replicate (nat (dir_depth b)) ''..'' @ a" and ge: "0 \<le> dir_depth b"
    using rel ab by (auto simp: lexically_relative_def Let_def split: if_splits)
  have "nat (dir_depth b) = 0"
    using rel(2) eq by (cases "nat (dir_depth b)") auto
  then have "set b \<subseteq> {[], ''.''}" "?rel = a"
    using dir_depth_0 [of b] ge assms(2) c eq by auto
  then show ?thesis
    using c p by (auto simp: path_parse_Inr)
qed

text \<open>C8. Path safety (FR-6, NFR-7): whatever text a client sends, a path that \<open>parse\<close> accepts and
  that is joined under a root directory resolves to the directory's own names followed by the
  path's components, none of which is empty, \<open>.\<close> or \<open>..\<close>; the result never leaves the root.\<close>

theorem path_stays_under_root:
  assumes "path_parse raw = Inr p"
  shows "lexically_normal (under p root) = norm_root root @ split_on CHR ''/'' raw \<and>
         list_all plain_name (split_on CHR ''/'' raw)"
  using assms under_normal [of p root] valid_path_parts [of p]
  by (auto simp: path_parse_Inr list_all_iff)

theorem path_stays_under_root_witness:
  "path_parse ''report/img/b.png'' = Inr ''report/img/b.png'' \<and>
   lexically_normal (under ''report/img/b.png'' [''/'', ''data'']) =
     [''/'', ''data'', ''report'', ''img'', ''b.png'']"
proof -
  have v: "path_parse ''report/img/b.png'' = Inr ''report/img/b.png''"
    by (simp add: path_eval)
  show ?thesis
    using path_stays_under_root [OF v, of "[''/'', ''data'']"] v
    by (simp add: norm_root_def is_absolute_def)
qed

text \<open>No two accepted texts name the same file: two accepted paths resolve to the same place under
  a root exactly when the texts are equal.\<close>

theorem path_names_one_file:
  assumes "path_parse s = Inr p" "path_parse t = Inr q"
  shows "lexically_normal (under p root) = lexically_normal (under q root) \<longleftrightarrow> s = t"
proof -
  have "split_on CHR ''/'' s = split_on CHR ''/'' t \<Longrightarrow> s = t"
    by (metis join_split_on)
  then show ?thesis
    using assms under_normal [of p root] under_normal [of q root] by (auto simp: path_parse_Inr)
qed

theorem path_names_one_file_witness:
  "path_parse ''a/b'' = Inr ''a/b'' \<and> path_parse ''a/c'' = Inr ''a/c'' \<and>
   lexically_normal (under ''a/b'' [''/'', ''d'']) \<noteq> lexically_normal (under ''a/c'' [''/'', ''d''])"
proof -
  have v: "path_parse ''a/b'' = Inr ''a/b''" "path_parse ''a/c'' = Inr ''a/c''"
    by (simp_all add: path_eval)
  show ?thesis
    using path_names_one_file [OF v, of "[''/'', ''d'']"] v by simp
qed

text \<open>C33. \<open>from_local\<close> accepts a file only with its path below the base: when the base directory has no
  leading \<open>..\<close>, the normal form of the file is the base's names followed by the accepted path.\<close>

theorem from_local_inside_base:
  assumes "from_local base file = Inr p" "''..'' \<notin> set (lexically_normal base)"
  shows "valid_path p \<and>
    (\<exists>c b. lexically_normal base = c @ b \<and> set b \<subseteq> {[], ''.''} \<and>
       (\<exists>a. lexically_normal file = c @ a \<and> p = join_with CHR ''/'' a))"
proof -
  have "valid_path p"
    using assms(1) by (auto simp: from_local_def path_invalid_def path_parse_Inr Let_def split: if_splits)
  then show ?thesis
    using from_local_parts [OF assms] by blast
qed

theorem from_local_inside_base_witness:
  "from_local (path_elems ''/out/'') (path_elems ''/out/x/../f.txt'') = Inr ''f.txt'' \<and>
   valid_path ''f.txt''"
proof -
  have f: "from_local (path_elems ''/out/'') (path_elems ''/out/x/../f.txt'') = Inr ''f.txt''"
    by (simp add: from_local_def path_elems_def lexically_normal_def lexically_relative_def
        is_absolute_def dir_depth_def path_eval)
  have b: "''..'' \<notin> set (lexically_normal (path_elems ''/out/''))"
    by (simp add: path_elems_def lexically_normal_def is_absolute_def)
  show ?thesis
    using f from_local_inside_base [OF f b] by simp
qed

text \<open>
  Without that condition the answer can be wrong: the relative path of \<open>a\<close> to \<open>../x\<close> has as many
  names as dots, so the standard's \<open>lexically_relative\<close> answers \<open>a\<close> although \<open>a\<close> is not inside.
\<close>

lemma from_local_outside_accepted: "from_local [''..'', ''x''] [''a''] = Inr ''a''"
  by (simp add: from_local_def lexically_normal_def lexically_relative_def is_absolute_def
      dir_depth_def path_eval)

end
