(* ===== verification/Common_Sha256.thy ===== *)
theory Common_Sha256
  imports Codec_Interface
begin

section \<open>SHA-256 digests\<close>

text \<open>
  \<^verbatim>\<open>src/src/lib/common/sha256.cpp\<close>: the hex form of a digest and the class \<open>Sha256\<close> over
  OpenSSL's EVP interface. OpenSSL is not part of the repository: the record \<open>evp\<close> holds
  what each call answers. A context is the list of chunks fed to it since it was
  initialised, which is all an opaque context can depend on. \<open>evp_sound\<close> names what the
  program relies on: a digest is a function of the bytes fed, not of the chunks.
\<close>

type_synonym sha256_digest = "byte list"

subsection \<open>Model: the hex form\<close>

definition kSize :: nat where "kSize = 32"

definition kHexDigits :: string where "kHexDigits = ''0123456789abcdef''"

definition hex_nibble :: "char \<Rightarrow> int" where
  "hex_nibble c =
     (if char_in 48 57 c then int (ord c) - 48
      else if char_in 97 102 c then int (ord c) - 97 + 10
      else if char_in 65 70 c then int (ord c) - 65 + 10
      else -1)"

text \<open>The loop over the pairs of characters; the text has an even length there.\<close>

fun hex_pairs :: "string \<Rightarrow> byte list result" where
  "hex_pairs (a # b # cs) =
     (let hi = hex_nibble a; lo = hex_nibble b
      in if hi < 0 \<or> lo < 0 then fail Validation ''sha256 has non-hex character''
         else cfd_try (hex_pairs cs) (\<lambda>out. Inr (word_of_int (push_bit 4 hi OR lo) # out)))"
| "hex_pairs _ = Inr []"

definition from_hex :: "string \<Rightarrow> sha256_digest result" where
  "from_hex hex =
     (if length hex \<noteq> kSize * 2 then fail Validation ''sha256 must be 64 hex digits''
      else hex_pairs hex)"

definition to_hex :: "sha256_digest \<Rightarrow> string" where
  "to_hex d = concat (map (\<lambda>b. [kHexDigits ! unat (drop_bit 4 b), kHexDigits ! unat (b AND 0x0F)]) d)"

subsection \<open>Model: the hash object\<close>

record evp =
  evp_md_ctx_new :: bool
  evp_digest_init :: bool
  evp_digest_update :: "byte list list \<Rightarrow> byte list \<Rightarrow> bool"
  evp_digest_final :: "byte list list \<Rightarrow> byte list option"

text \<open>\<open>ctx_\<close>: null once the object was moved from.\<close>

type_synonym sha256 = "byte list list option"

definition openssl_failed :: "string \<Rightarrow> 'a result" where
  "openssl_failed what = fail Internal (''sha256: '' @ what)"

definition sha_create :: "evp \<Rightarrow> sha256 result" where
  "sha_create E =
     (if \<not> evp_md_ctx_new E then openssl_failed ''EVP_MD_CTX_new''
      else if \<not> evp_digest_init E then openssl_failed ''EVP_DigestInit_ex''
      else Inr (Some []))"

definition sha_update :: "evp \<Rightarrow> sha256 \<Rightarrow> byte list \<Rightarrow> unit result \<times> sha256" where
  "sha_update E ctx data =
     (case ctx of
        None \<Rightarrow> (openssl_failed ''use after move'', ctx)
      | Some h \<Rightarrow>
          if \<not> evp_digest_update E h data then (openssl_failed ''EVP_DigestUpdate'', ctx)
          else (Inr (), Some (h @ [data])))"

definition sha_finish :: "evp \<Rightarrow> sha256 \<Rightarrow> sha256_digest result \<times> sha256" where
  "sha_finish E ctx =
     (case ctx of
        None \<Rightarrow> (openssl_failed ''use after move'', ctx)
      | Some h \<Rightarrow>
          (case evp_digest_final E h of
             None \<Rightarrow> (openssl_failed ''EVP_DigestFinal_ex'', ctx)
           | Some out \<Rightarrow>
               if length out \<noteq> kSize then (openssl_failed ''EVP_DigestFinal_ex'', ctx)
               else if \<not> evp_digest_init E then (openssl_failed ''EVP_DigestInit_ex'', ctx)
               else (Inr out, Some [])))"

definition sha_of :: "evp \<Rightarrow> byte list \<Rightarrow> sha256_digest result" where
  "sha_of E data =
     cfd_try (sha_create E) (\<lambda>h.
       fst (cfd_tryS (sha_update E h data) (\<lambda>_ h. sha_finish E h)))"

definition sha_of_text :: "evp \<Rightarrow> string \<Rightarrow> sha256_digest result" where
  "sha_of_text E s = sha_of E (as_bytes s)"

text \<open>What the program relies on, for a digest function \<open>sha\<close> on byte lists.\<close>

definition evp_sound :: "evp \<Rightarrow> (byte list \<Rightarrow> byte list) \<Rightarrow> bool" where
  "evp_sound E sha \<longleftrightarrow> (\<forall>h out. evp_digest_final E h = Some out \<longrightarrow> out = sha (concat h))"

definition evp_total :: "evp \<Rightarrow> bool" where
  "evp_total E \<longleftrightarrow> evp_md_ctx_new E \<and> evp_digest_init E \<and> (\<forall>h d. evp_digest_update E h d) \<and>
     (\<forall>h. \<exists>out. evp_digest_final E h = Some out \<and> length out = 32)"

subsection \<open>The hex form\<close>

lemma kHexDigits_table: "map hex_nibble kHexDigits = map int [0..<16]"
  by (simp add: kHexDigits_def hex_nibble_def char_in_def ord_def upt_rec)

lemma kHexDigits_length: "length kHexDigits = 16"
  by (simp add: kHexDigits_def)

lemma hex_nibble_digit: "n < 16 \<Longrightarrow> hex_nibble (kHexDigits ! n) = int n"
proof -
  assume n: "n < 16"
  have "map hex_nibble kHexDigits ! n = map int [0..<16] ! n"
    by (simp only: kHexDigits_table)
  then show ?thesis
    using n by (simp add: kHexDigits_length)
qed

lemma hi_nibble_less: "unat (drop_bit 4 (b :: byte)) < 16"
  using unat_byte_less [of b]
  by (simp add: unat_drop_bit_eq drop_bit_eq_div [where ?'a = nat] del: unat_byte_less)

lemma lo_nibble_less: "unat (b AND 0x0F :: byte) < 16"
proof -
  have "b AND 0x0F \<le> (0x0F :: byte)" by (rule word_and_le1)
  then show ?thesis by (simp add: word_le_nat_alt)
qed

lemma nibbles_join:
  "word_of_int (push_bit 4 (uint (drop_bit 4 b)) OR uint (b AND 0x0F)) = (b :: byte)"
proof -
  have m: "0x0F = (mask 4 :: byte)" by (simp add: mask_eq_exp_minus_1)
  show ?thesis
    unfolding m by (rule bit_word_eqI) (auto simp: bit_simps)
qed

lemma hex_pairs_to_hex: "hex_pairs (to_hex d) = Inr d"
proof (induction d)
  case (Cons b d)
  then show ?case
    by (simp add: to_hex_def hex_nibble_digit hi_nibble_less lo_nibble_less nibbles_join)
qed (simp add: to_hex_def)

lemma length_to_hex: "length (to_hex d) = 2 * length d"
  by (induction d) (simp_all add: to_hex_def)

lemma hex_pairs_length: "hex_pairs s = Inr d \<Longrightarrow> length d = length s div 2"
  by (induction s arbitrary: d rule: hex_pairs.induct)
    (auto simp: Let_def try_simps split: if_splits)

interpretation sha_hex: checked_codec to_hex from_hex "\<lambda>d. length d = 32"
  by unfold_locales
    (auto simp: from_hex_def kSize_def length_to_hex hex_pairs_to_hex split: if_splits
      dest: hex_pairs_length)

lemma hex_nibble_lower: "hex_nibble (to_lower c) = hex_nibble c"
  by (auto simp: hex_nibble_def to_lower_def char_in_def)

lemma hex_pairs_lower: "hex_pairs (map to_lower s) = hex_pairs s"
  by (induction s rule: hex_pairs.induct) (auto simp: hex_nibble_lower Let_def)

lemma hex_nibble_range: "hex_nibble c < 16"
  by (auto simp: hex_nibble_def char_in_def)

lemma hex_digit_nibble:
  assumes "0 \<le> hex_nibble c"
  shows "kHexDigits ! nat (hex_nibble c) = to_lower c"
proof -
  have "list_all (\<lambda>n. ord (kHexDigits ! n) = (if n < 10 then 48 + n else 87 + n)) [0..<16]"
    by (simp add: kHexDigits_def ord_def upt_rec)
  then have k: "ord (kHexDigits ! n) = (if n < 10 then 48 + n else 87 + n)" if "n < 16" for n
    using that by (auto simp: list_all_iff)
  have "nat (hex_nibble c) < 16"
    using hex_nibble_range [of c] by simp
  note k [OF this]
  then have "ord (kHexDigits ! nat (hex_nibble c)) = ord (to_lower c)"
    using assms by (auto simp: hex_nibble_def to_lower_def char_in_def split: if_splits)
  then show ?thesis by simp
qed

lemma nibbles_split:
  assumes "0 \<le> hi" "hi < 16" "0 \<le> lo" "lo < 16"
  shows "unat (drop_bit 4 (word_of_int (push_bit 4 hi OR lo) :: byte)) = nat hi"
    and "unat (word_of_int (push_bit 4 hi OR lo) AND 0x0F :: byte) = nat lo"
proof -
  have m: "0x0F = (mask 4 :: byte)" by (simp add: mask_eq_exp_minus_1)
  have tb: "take_bit 4 hi = hi" "take_bit 4 lo = lo"
    using assms by (simp_all add: take_bit_int_eq_self)
  have b: "bit hi n \<Longrightarrow> n < 4" "bit lo n \<Longrightarrow> n < 4" for n
    using tb by (metis bit_take_bit_iff)+
  have "drop_bit 4 (word_of_int (push_bit 4 hi OR lo) :: byte) = word_of_int hi"
    by (rule bit_word_eqI) (auto simp: bit_simps dest: b)
  moreover have "(word_of_int (push_bit 4 hi OR lo) AND 0x0F :: byte) = word_of_int lo"
    unfolding m by (rule bit_word_eqI) (auto simp: bit_simps dest: b)
  ultimately show "unat (drop_bit 4 (word_of_int (push_bit 4 hi OR lo) :: byte)) = nat hi"
    and "unat (word_of_int (push_bit 4 hi OR lo) AND 0x0F :: byte) = nat lo"
    using assms by (simp_all add: unat_eq_nat_uint uint_word_of_int_eq take_bit_int_eq_self)
qed

lemma to_hex_hex_pairs:
  "hex_pairs s = Inr d \<Longrightarrow> even (length s) \<Longrightarrow> to_hex d = map to_lower s"
proof (induction s arbitrary: d rule: hex_pairs.induct)
  case (1 a b cs)
  then obtain out where nn: "0 \<le> hex_nibble a" "0 \<le> hex_nibble b"
    and o: "hex_pairs cs = Inr out"
    and d: "d = word_of_int (push_bit 4 (hex_nibble a) OR hex_nibble b) # out"
    by (auto simp: Let_def try_simps not_less split: if_splits)
  have "to_hex out = map to_lower cs"
    using 1 o nn by (simp add: not_less)
  then show ?case
    by (simp add: d to_hex_def nibbles_split nn hex_nibble_range hex_digit_nibble)
qed (auto simp: to_hex_def)

text \<open>A digest survives its text form, and two accepted texts name the same digest exactly when they
  differ only in the case of the hex digits.\<close>

theorem sha256_hex_form:
  "(length d = 32 \<longrightarrow> from_hex (to_hex d) = Inr d) \<and>
   (from_hex s = Inr d \<and> from_hex t = Inr e \<longrightarrow> (d = e \<longleftrightarrow> map to_lower s = map to_lower t))"
proof -
  have lower: "to_hex d = map to_lower s" "length d = 32" if "from_hex s = Inr d" for s d
    using that to_hex_hex_pairs [of s d] sha_hex.dec_valid [of s d]
    by (auto simp: from_hex_def kSize_def split: if_splits)
  have "d = e \<longleftrightarrow> to_hex d = to_hex e" if "from_hex s = Inr d" "from_hex t = Inr e" for s t d e
    using sha_hex.enc_inject lower(2) that by blast
  then show ?thesis
    using sha_hex.dec_enc lower(1) by metis
qed

theorem sha256_hex_form_witness:
  "from_hex (to_hex (replicate 32 0xAB)) = Inr (replicate 32 0xAB)"
  using sha256_hex_form [of "replicate 32 0xAB"] by simp

subsection \<open>Streams\<close>

text \<open>Feeding a sequence of chunks.\<close>

fun sha_feed :: "evp \<Rightarrow> byte list list \<Rightarrow> sha256 \<Rightarrow> unit result \<times> sha256" where
  "sha_feed E [] ctx = (Inr (), ctx)"
| "sha_feed E (c # cs) ctx = cfd_tryS (sha_update E ctx c) (\<lambda>_ ctx. sha_feed E cs ctx)"

lemma sha_create_Inr: "sha_create E = Inr ctx \<longleftrightarrow> ctx = Some [] \<and> evp_md_ctx_new E \<and> evp_digest_init E"
  by (auto simp: sha_create_def openssl_failed_def)

lemma sha_update_Inr:
  "sha_update E ctx d = (Inr u, ctx') \<longleftrightarrow>
     (\<exists>h. ctx = Some h \<and> evp_digest_update E h d \<and> ctx' = Some (h @ [d]))"
  by (auto simp: sha_update_def openssl_failed_def split: option.splits)

lemma sha_finish_Inr:
  "sha_finish E ctx = (Inr d, ctx') \<longleftrightarrow>
     (\<exists>h. ctx = Some h \<and> evp_digest_final E h = Some d \<and> length d = 32 \<and> evp_digest_init E \<and>
        ctx' = Some [])"
  by (auto simp: sha_finish_def openssl_failed_def kSize_def split: option.splits)

lemma sha_feed_Inr:
  "sha_feed E cs (Some h) = (Inr u, ctx') \<Longrightarrow> ctx' = Some (h @ cs)"
  by (induction cs arbitrary: h) (fastforce simp: try_simps sha_update_Inr)+

lemma sha_of_Inr:
  "sha_of E data = Inr d \<longleftrightarrow>
     evp_md_ctx_new E \<and> evp_digest_init E \<and> evp_digest_update E [] data \<and>
     evp_digest_final E [data] = Some d \<and> length d = 32"
proof -
  have "fst p = Inr d \<longleftrightarrow> (\<exists>s. p = (Inr d, s))" for p :: "sha256_digest result \<times> sha256"
    by (cases p) auto
  then show ?thesis
    by (auto simp: sha_of_def try_simps sha_create_Inr sha_update_Inr sha_finish_Inr)
qed

lemma sha_of_total: "evp_total E \<Longrightarrow> \<exists>d. sha_of E data = Inr d"
  by (simp add: evp_total_def sha_of_Inr)

lemma sha_of_sound: "evp_sound E sha \<Longrightarrow> sha_of E data = Inr d \<Longrightarrow> d = sha data"
  by (force simp: sha_of_Inr evp_sound_def)




text \<open>An instance of the OpenSSL parameter, on which the facts about it are shown to be satisfiable.\<close>

definition sample_sha :: "byte list \<Rightarrow> byte list" where
  "sample_sha bs = take 32 (bs @ replicate 32 0)"

lemma length_sample_sha [simp]: "length (sample_sha bs) = 32"
  by (simp add: sample_sha_def min_def)

definition sample_evp :: evp where
  "sample_evp = \<lparr>evp_md_ctx_new = True, evp_digest_init = True,
     evp_digest_update = (\<lambda>_ _. True), evp_digest_final = (\<lambda>h. Some (sample_sha (concat h)))\<rparr>"

lemma sample_evp_sound: "evp_sound sample_evp sample_sha"
  by (simp add: evp_sound_def sample_evp_def)

lemma sample_evp_total: "evp_total sample_evp"
  by (simp add: evp_total_def sample_evp_def)

lemma sha_of_sample [simp]: "sha_of sample_evp d = Inr (sample_sha d)"
  by (simp add: sha_of_Inr sample_evp_def)


end
