(* ===== verification/Common_Time.thy ===== *)
theory Common_Time
  imports Codec_Interface
begin

section \<open>Timestamps\<close>

text \<open>
  \<^verbatim>\<open>src/src/lib/common/time.cpp\<close>. A \<open>Timestamp\<close> is the number of seconds since the epoch, as
  \<^verbatim>\<open>sys_seconds\<close>. The conversions of \<^verbatim>\<open>std::chrono\<close> between days and dates are modelled by
  the rules of the Gregorian calendar; \<open>civil\<close> finds the year by an estimate that is off by
  at most one. \<open>now\<close> of the clock is an argument of the operations that read it.
\<close>

type_synonym timestamp = int

subsection \<open>Model: the calendar of \<^verbatim>\<open>std::chrono\<close>\<close>

definition is_leap :: "int \<Rightarrow> bool" where
  "is_leap y \<longleftrightarrow> y mod 4 = 0 \<and> (y mod 100 \<noteq> 0 \<or> y mod 400 = 0)"

definition last_day :: "int \<Rightarrow> nat \<Rightarrow> int" where
  "last_day y m =
     (if m = 2 then (if is_leap y then 29 else 28)
      else if m = 4 \<or> m = 6 \<or> m = 9 \<or> m = 11 then 30 else 31)"

fun ymd_ok :: "int \<times> nat \<times> int \<Rightarrow> bool" where
  "ymd_ok (y, m, d) \<longleftrightarrow>
     -32767 \<le> y \<and> y \<le> 32767 \<and> 1 \<le> m \<and> m \<le> 12 \<and> 1 \<le> d \<and> d \<le> last_day y m"

text \<open>Days before the first of January of a year, counted from year 1.\<close>

definition year_start :: "int \<Rightarrow> int" where
  "year_start y = 365 * (y - 1) + (y - 1) div 4 - (y - 1) div 100 + (y - 1) div 400"

definition month_start :: "int \<Rightarrow> nat \<Rightarrow> int" where
  "month_start y m = sum_list (map (last_day y) [1..<m])"

definition epoch_days :: int where "epoch_days = 719162"

fun sys_days :: "int \<times> nat \<times> int \<Rightarrow> int" where
  "sys_days (y, m, d) = year_start y + month_start y m + (d - 1) - epoch_days"

definition year_of :: "int \<Rightarrow> int" where
  "year_of n =
     (let y = 400 * n div 146097 + 1
      in if year_start (y + 1) \<le> n then y + 1 else if n < year_start y then y - 1 else y)"

fun find_month :: "nat \<Rightarrow> int \<Rightarrow> nat \<Rightarrow> int \<Rightarrow> nat \<times> int" where
  "find_month 0 y m doy = (m, doy + 1)"
| "find_month (Suc k) y m doy =
     (if doy < last_day y m then (m, doy + 1) else find_month k y (Suc m) (doy - last_day y m))"

definition civil :: "int \<Rightarrow> int \<times> nat \<times> int" where
  "civil days =
     (let n = days + epoch_days; y = year_of n; (m, d) = find_month 11 y 1 (n - year_start y)
      in (y, m, d))"

subsection \<open>Model: text form\<close>

text \<open>The fields of \<^verbatim>\<open>std::format\<close> that are padded with zeros to a width.\<close>

definition pad :: "nat \<Rightarrow> nat \<Rightarrow> string" where
  "pad w n = replicate (w - length (dec n)) CHR ''0'' @ dec n"

definition format_year :: "int \<Rightarrow> string" where
  "format_year y = (if y < 0 then CHR ''-'' # pad 4 (nat (- y)) else pad 4 (nat y))"

definition format_iso8601 :: "timestamp \<Rightarrow> string" where
  "format_iso8601 t =
     (let (y, m, d) = civil (t div 86400); s = t mod 86400
      in format_year y @ ''-'' @ pad 2 m @ ''-'' @ pad 2 (nat d) @ ''T'' @
         pad 2 (nat (s div 3600)) @ '':'' @ pad 2 (nat (s mod 3600 div 60)) @ '':'' @
         pad 2 (nat (s mod 60)) @ ''Z'')"

definition kIsoPattern :: string where "kIsoPattern = ''dddd-dd-ddTdd:dd:ddZ''"

definition has_iso_shape :: "string \<Rightarrow> bool" where
  "has_iso_shape text \<longleftrightarrow>
     length text = length kIsoPattern \<and>
     list_all2 (\<lambda>want c. if want = CHR ''d'' then is_digit c else c = want) kIsoPattern text"

definition digits :: "string \<Rightarrow> nat \<Rightarrow> nat \<Rightarrow> int" where
  "digits text pos len = int (dec_value 0 (take len (drop pos text)))"

definition parse_iso8601 :: "string \<Rightarrow> timestamp result" where
  "parse_iso8601 text =
     (let failed = fail Validation ''malformed timestamp''
      in if \<not> has_iso_shape text then failed
         else
           (let date = (digits text 0 4, nat (digits text 5 2), digits text 8 2);
                hour = digits text 11 2; minute = digits text 14 2; second = digits text 17 2
            in if \<not> ymd_ok date \<or> 23 < hour \<or> 59 < minute \<or> 59 < second then failed
               else Inr (sys_days date * 86400 + hour * 3600 + minute * 60 + second)))"

definition parse_time_arg :: "string \<Rightarrow> timestamp \<Rightarrow> timestamp result" where
  "parse_time_arg text now =
     (let exact =
        (case parse_iso8601 text of
           Inl _ \<Rightarrow> fail Validation ([CHR 0x27] @ text @ [CHR 0x27] @
                    '': expected YYYY-MM-DD[THH:MM:SSZ], now, or an age like 2h, 7d'')
         | Inr t \<Rightarrow> Inr t);
        age =
        (if 1 < length text \<and> length text \<le> 8 then
           (case from_chars_int64 (butlast text) of
              Some (n, []) \<Rightarrow>
                if 0 \<le> n then
                  (if last text = CHR ''s'' then Inr (now - n)
                   else if last text = CHR ''m'' then Inr (now - 60 * n)
                   else if last text = CHR ''h'' then Inr (now - 3600 * n)
                   else if last text = CHR ''d'' then Inr (now - 86400 * n)
                   else if last text = CHR ''w'' then Inr (now - 7 * 86400 * n)
                   else exact)
                else exact
            | _ \<Rightarrow> exact)
         else exact)
      in if text = ''now'' then Inr now
         else if length text = 10 then
           (case parse_iso8601 (text @ ''T00:00:00Z'') of Inr day \<Rightarrow> Inr day | Inl _ \<Rightarrow> age)
         else age)"

definition kMaxRetentionDays :: int where "kMaxRetentionDays = 3650"

definition expires_at :: "timestamp \<Rightarrow> int \<Rightarrow> timestamp result" where
  "expires_at created retention_days =
     (if retention_days < 1 \<or> kMaxRetentionDays < retention_days
      then fail Validation (''retention_days must be 1..3650, got '' @ dec_int retention_days)
      else Inr (created + 86400 * retention_days))"

definition is_expired :: "timestamp \<Rightarrow> timestamp \<Rightarrow> bool" where
  "is_expired expiry now \<longleftrightarrow> expiry \<le> now"

text \<open>\<open>SystemClock::now\<close>: the system clock's nanoseconds, rounded down to seconds.\<close>

definition clock_now :: "int \<Rightarrow> timestamp" where
  "clock_now ns = ns div 1000000000"

subsection \<open>Dates and days\<close>

lemma div_pred: "0 < k \<Longrightarrow> (y :: int) div k = (y - 1) div k + (if y mod k = 0 then 1 else 0)"
proof -
  assume k: "0 < k"
  have y: "y = k * (y div k) + y mod k" by simp
  have m: "0 \<le> y mod k" "y mod k < k" using k by simp_all
  show ?thesis
  proof (cases "y mod k = 0")
    case True
    then have "y - 1 = k * (y div k - 1) + (k - 1)" using y by (simp add: algebra_simps)
    then have "(y - 1) div k = y div k - 1"
      using k by (intro int_div_pos_eq [where r = "k - 1"]) auto
    then show ?thesis using True by simp
  next
    case False
    then have "(y - 1) div k = y div k"
      using y m k by (intro int_div_pos_eq [where r = "y mod k - 1"]) linarith+
    then show ?thesis using False by simp
  qed
qed

lemma year_start_Suc: "year_start (y + 1) = year_start y + (if is_leap y then 366 else 365)"
proof -
  have c: "y mod 100 = 0 \<Longrightarrow> y mod 4 = 0" "y mod 400 = 0 \<Longrightarrow> y mod 100 = 0"
    using dvd_trans [of 4 100 y] dvd_trans [of 100 400 y] by (simp_all add: mod_eq_0_iff_dvd)
  let ?l = "\<lambda>k. if y mod k = 0 then 1 else 0 :: int"
  have "year_start (y + 1) = 365 * y + y div 4 - y div 100 + y div 400"
    by (simp add: year_start_def)
  also have "\<dots> = year_start y + 365 + (?l 4 - ?l 100 + ?l 400)"
  proof -
    have add: "365 * y + (a + l) - (b + m) + (c + n) = (365 * (y - 1) + a - b + c) + 365 + (l - m + n)"
      for a b c l m n :: int
      by simp
    have "y div 4 = (y - 1) div 4 + ?l 4" "y div 100 = (y - 1) div 100 + ?l 100"
      "y div 400 = (y - 1) div 400 + ?l 400"
      by (rule div_pred, simp)+
    then show ?thesis
      unfolding year_start_def by (simp only: add)
  qed
  also have "?l 4 - ?l 100 + ?l 400 = (if is_leap y then 1 else 0)"
    using c unfolding is_leap_def by (cases "y mod 4 = 0"; cases "y mod 100 = 0"; cases "y mod 400 = 0") simp_all
  finally show ?thesis by (simp split: if_splits)
qed

lemma year_start_mono: "y \<le> z \<Longrightarrow> year_start y \<le> year_start z"
proof (induction z rule: int_ge_induct)
  case (step z)
  then show ?case using year_start_Suc [of z] by (auto split: if_splits)
qed simp

text \<open>The estimate of \<open>year_of\<close> is at most one year off.\<close>

lemma div_bounds: "0 < k \<Longrightarrow> k * (x div k) \<le> (x :: int) \<and> x < k * (x div k) + k"
  using pos_mod_sign [of k x] pos_mod_bound [of k x] mult_div_mod_eq [of k x] by linarith

lemma le_div_iff: "0 < k \<Longrightarrow> c \<le> (x :: int) div k \<longleftrightarrow> c * k \<le> x"
proof
  assume k: "0 < k" and "c \<le> x div k"
  then have "c * k \<le> x div k * k" by (simp add: mult_right_mono)
  also have "\<dots> \<le> x" using div_bounds [OF k, of x] by (simp add: mult.commute)
  finally show "c * k \<le> x" .
next
  assume k: "0 < k" and "c * k \<le> x"
  then have "c * k < (x div k + 1) * k" using div_bounds [OF k, of x] by (simp add: algebra_simps)
  then show "c \<le> x div k" using k by simp
qed

lemma div_less_iff: "0 < k \<Longrightarrow> (x :: int) div k < c \<longleftrightarrow> x < c * k"
  using le_div_iff [of k c x] by linarith

lemma year_start_bounds:
  "146097 * (y - 1) < 400 * year_start y + 800 \<and> 400 * year_start y < 146097 * (y - 1) + 400"
  using div_bounds [of 4 "y - 1"] div_bounds [of 100 "y - 1"] div_bounds [of 400 "y - 1"]
  unfolding year_start_def by simp

lemma year_of_bounds: "year_start (year_of n) \<le> n \<and> n < year_start (year_of n + 1)"
proof -
  define q where "q = 400 * n div 146097"
  have q: "146097 * q \<le> 400 * n" "400 * n < 146097 * q + 146097"
    using div_bounds [of 146097 "400 * n"] unfolding q_def by simp_all
  have lo: "year_start q \<le> n"
    using q year_start_bounds [of q] by simp
  have hi: "n < year_start (q + 3)"
    using q year_start_bounds [of "q + 3"] by simp
  have y: "year_of n = (if year_start (2 + q) \<le> n then 2 + q else if n < year_start (q + 1) then q else q + 1)"
    by (simp add: year_of_def q_def [symmetric] Let_def)
  show ?thesis
    using lo hi unfolding y by (simp add: ac_simps)
qed

lemma year_of_unique: "year_start y \<le> n \<Longrightarrow> n < year_start (y + 1) \<Longrightarrow> year_of n = y"
proof -
  assume y: "year_start y \<le> n" "n < year_start (y + 1)"
  have "\<not> year_of n < y" using year_of_bounds [of n] y year_start_mono [of "year_of n + 1" y] by auto
  moreover have "\<not> y < year_of n" using year_of_bounds [of n] y year_start_mono [of "y + 1" "year_of n"] by auto
  ultimately show ?thesis by simp
qed

lemma last_day_pos: "28 \<le> last_day y m" "last_day y m \<le> 31"
  by (auto simp: last_day_def)

lemma month_start_Suc: "1 \<le> m \<Longrightarrow> month_start y (Suc m) = month_start y m + last_day y m"
  by (simp add: month_start_def)

lemma month_start_1 [simp]: "month_start y (Suc 0) = 0" "month_start y 1 = 0"
  by (simp_all add: month_start_def)

lemma month_start_13: "month_start y 13 = (if is_leap y then 366 else 365)"
  by (simp add: month_start_def last_day_def upt_rec)

lemma find_month_bounds:
  assumes "0 \<le> doy" "doy < month_start y 13 - month_start y m" "1 \<le> m" "m + k = 12"
    and "find_month k y m doy = (m', d)"
  shows "m \<le> m' \<and> m' \<le> 12 \<and> 1 \<le> d \<and> d \<le> last_day y m' \<and>
         month_start y m' + (d - 1) = month_start y m + doy"
  using assms
proof (induction k arbitrary: m doy)
  case 0
  then have "m = 12" by simp
  moreover have "month_start y 13 = month_start y 12 + last_day y 12"
    using month_start_Suc [of 12 y] by simp
  ultimately show ?case using 0 by auto
next
  case (Suc k)
  show ?case
  proof (cases "doy < last_day y m")
    case True
    with Suc.prems show ?thesis by auto
  next
    case False
    with Suc.prems Suc.IH [of "doy - last_day y m" "Suc m"] show ?thesis
      by (auto simp: month_start_Suc)
  qed
qed

lemma find_month_unique:
  assumes "m \<le> m'" "1 \<le> m" "m' \<le> m + k" "1 \<le> d" "d \<le> last_day y m'"
    and "doy = month_start y m' + (d - 1) - month_start y m"
  shows "find_month k y m doy = (m', d)"
  using assms
proof (induction k arbitrary: m doy)
  case 0
  then show ?case by simp
next
  case (Suc k)
  show ?case
  proof (cases "m = m'")
    case True
    with Suc.prems show ?thesis by simp
  next
    case False
    have mono: "month_start y (Suc m) \<le> month_start y m'"
    proof -
      have "Suc m \<le> m'" using False Suc.prems(1) by simp
      then show ?thesis
      proof (induction m' rule: dec_induct)
        case (step n)
        then show ?case using last_day_pos(1) [of y n] Suc.prems(2) by (simp add: month_start_Suc)
      qed simp
    qed
    have "last_day y m \<le> doy"
      using mono Suc.prems by (simp add: month_start_Suc)
    moreover have "find_month k y (Suc m) (doy - last_day y m) = (m', d)"
      using Suc.prems False by (intro Suc.IH) (auto simp: month_start_Suc)
    ultimately show ?thesis by simp
  qed
qed

lemma month_start_le:
  assumes "1 \<le> m" "m \<le> n"
  shows "month_start y m \<le> month_start y n"
  using assms(2)
proof (induction n rule: dec_induct)
  case (step k)
  then show ?case using last_day_pos(1) [of y k] assms(1) by (simp add: month_start_Suc)
qed simp

lemma month_start_bounds:
  assumes "1 \<le> m" "m \<le> 12" "1 \<le> d" "d \<le> last_day y m"
  shows "0 \<le> month_start y m + (d - 1)" "month_start y m + (d - 1) < month_start y 13"
  using month_start_le [of 1 m y] month_start_le [of "Suc m" 13 y] assms
  by (auto simp: month_start_Suc)

lemma civil_sys_days:
  assumes "ymd_ok (y, m, d)"
  shows "civil (sys_days (y, m, d)) = (y, m, d)"
proof -
  let ?n = "sys_days (y, m, d) + epoch_days"
  note b = month_start_bounds [of m d y]
  have n: "?n = year_start y + (month_start y m + (d - 1))" by simp
  have "year_of ?n = y"
    unfolding n using assms b year_start_Suc [of y] month_start_13 [of y]
    by (intro year_of_unique) (auto split: if_splits)
  moreover have "find_month 11 y 1 (month_start y m + (d - 1)) = (m, d)"
    using assms by (intro find_month_unique) auto
  ultimately show ?thesis
    unfolding civil_def Let_def n by simp
qed

lemma sys_days_civil:
  assumes "civil n = (y, m, d)"
  shows "sys_days (y, m, d) = n" "1 \<le> m" "m \<le> 12" "1 \<le> d" "d \<le> last_day y m"
    and "year_start y \<le> n + epoch_days" "n + epoch_days < year_start (y + 1)"
proof -
  let ?n = "n + epoch_days"
  have y: "y = year_of ?n" and f: "find_month 11 y 1 (?n - year_start y) = (m, d)"
    using assms by (auto simp: civil_def Let_def split: prod.splits)
  have b: "year_start y \<le> ?n" "?n < year_start (y + 1)"
    using year_of_bounds [of ?n] y by auto
  have "0 \<le> ?n - year_start y" "?n - year_start y < month_start y 13 - month_start y 1"
    using b year_start_Suc [of y] month_start_13 [of y] by (auto split: if_splits)
  note find_month_bounds [OF this _ _ f]
  then show "sys_days (y, m, d) = n" "1 \<le> m" "m \<le> 12" "1 \<le> d" "d \<le> last_day y m"
    by auto
  show "year_start y \<le> n + epoch_days" "n + epoch_days < year_start (y + 1)"
    using b .
qed

subsection \<open>Text and fields\<close>

fun fixed_dec :: "nat \<Rightarrow> nat \<Rightarrow> string" where
  "fixed_dec 0 n = []"
| "fixed_dec (Suc w) n = fixed_dec w (n div 10) @ [digit_char (n mod 10)]"

lemma fixed_dec_0: "fixed_dec w 0 = replicate w (digit_char 0)"
  by (induction w) (simp_all add: replicate_append_same)

lemma pad_fixed: "0 < w \<Longrightarrow> n < 10 ^ w \<Longrightarrow> pad w n = fixed_dec w n"
proof (induction w arbitrary: n)
  case (Suc w)
  have z: "digit_char 0 = CHR ''0''"
    by (rule iffD1 [OF ord_inject]) (simp add: ord_def digit_char_def)
  show ?case
  proof (cases "n < 10")
    case True
    then show ?thesis by (simp add: pad_def dec.simps [of n] fixed_dec_0 z)
  next
    case False
    then have "0 < w" using Suc.prems by (cases w) auto
    moreover have "n div 10 < 10 ^ w" using Suc.prems(2) by (simp add: less_mult_imp_div_less mult.commute)
    ultimately have "pad w (n div 10) = fixed_dec w (n div 10)" by (rule Suc.IH)
    then show ?thesis using False by (simp add: pad_def dec.simps [of n])
  qed
qed simp

lemma length_fixed_dec [simp]: "length (fixed_dec w n) = w"
  by (induction w arbitrary: n) simp_all

lemma fixed_dec_digits: "list_all is_digit (fixed_dec w n)"
  by (induction w arbitrary: n) simp_all

lemma dec_value_fixed: "n < 10 ^ w \<Longrightarrow> dec_value 0 (fixed_dec w n) = n"
proof (induction w arbitrary: n)
  case (Suc w)
  then have "n div 10 < 10 ^ w" by (simp add: less_mult_imp_div_less mult.commute)
  with Suc.IH show ?case by (simp add: dec_value_append)
qed simp

lemma fixed_dec_value: "list_all is_digit s \<Longrightarrow> fixed_dec (length s) (dec_value 0 s) = s"
proof (induction s rule: rev_induct)
  case (snoc c s)
  then have "digit_value c < 10" by (simp add: digit_value_less)
  with snoc show ?case by (simp add: dec_value_append digit_char_value)
qed simp

lemma dec_value_less: "list_all is_digit s \<Longrightarrow> dec_value 0 s < 10 ^ length s"
proof (induction s rule: rev_induct)
  case (snoc c s)
  then have "digit_value c < 10" "dec_value 0 s < 10 ^ length s" by (simp_all add: digit_value_less)
  then show ?case by (simp add: dec_value_append)
qed simp

definition iso_text :: "string \<Rightarrow> string \<Rightarrow> string \<Rightarrow> string \<Rightarrow> string \<Rightarrow> string \<Rightarrow> string" where
  "iso_text y m d h mi s =
     y @ ''-'' @ m @ ''-'' @ d @ ''T'' @ h @ '':'' @ mi @ '':'' @ s @ ''Z''"

definition fields_ok :: "string \<Rightarrow> string \<Rightarrow> string \<Rightarrow> string \<Rightarrow> string \<Rightarrow> string \<Rightarrow> bool" where
  "fields_ok y m d h mi s \<longleftrightarrow>
     length y = 4 \<and> list_all (\<lambda>f. length f = 2) [m, d, h, mi, s] \<and>
     list_all (list_all is_digit) [y, m, d, h, mi, s]"

lemma length_two: "length f = 2 \<Longrightarrow> \<exists>a b. f = [a, b]"
  by (auto simp: numeral_2_eq_2 length_Suc_conv)

lemma length_four: "length f = 4 \<Longrightarrow> \<exists>a b c d. f = [a, b, c, d]"
  by (auto simp: eval_nat_numeral length_Suc_conv)

lemma has_iso_shape_fields: "fields_ok y m d h mi s \<Longrightarrow> has_iso_shape (iso_text y m d h mi s)"
  by (auto simp: fields_ok_def has_iso_shape_def kIsoPattern_def iso_text_def
      dest!: length_two length_four)

lemma has_iso_shapeD:
  assumes "has_iso_shape text"
  shows "\<exists>y m d h mi s. fields_ok y m d h mi s \<and> text = iso_text y m d h mi s"
proof -
  obtain a b c d e f g h i j k l m n where
    t: "text = [a, b, c, d, CHR ''-'', e, f, CHR ''-'', g, h, CHR ''T'', i, j, CHR '':'', k, l,
          CHR '':'', m, n, CHR ''Z'']"
    and dg: "list_all is_digit [a, b, c, d, e, f, g, h, i, j, k, l, m, n]"
    using assms by (auto simp: has_iso_shape_def kIsoPattern_def list_all2_Cons1)
  have "fields_ok [a, b, c, d] [e, f] [g, h] [i, j] [k, l] [m, n] \<and>
      text = iso_text [a, b, c, d] [e, f] [g, h] [i, j] [k, l] [m, n]"
    using dg by (simp add: t fields_ok_def iso_text_def)
  then show ?thesis by (intro exI)
qed

lemma digits_iso_text:
  assumes "fields_ok y m d h mi s"
  shows "digits (iso_text y m d h mi s) 0 4 = int (dec_value 0 y)"
    "digits (iso_text y m d h mi s) 5 2 = int (dec_value 0 m)"
    "digits (iso_text y m d h mi s) 8 2 = int (dec_value 0 d)"
    "digits (iso_text y m d h mi s) 11 2 = int (dec_value 0 h)"
    "digits (iso_text y m d h mi s) 14 2 = int (dec_value 0 mi)"
    "digits (iso_text y m d h mi s) 17 2 = int (dec_value 0 s)"
  using assms by (simp_all add: fields_ok_def digits_def iso_text_def drop_Cons')

text \<open>The timestamps of the years 0 to 9999, which the four-digit form can hold.\<close>

definition iso_range :: "timestamp \<Rightarrow> bool" where
  "iso_range t \<longleftrightarrow> (year_start 0 - epoch_days) * 86400 \<le> t \<and> t < (year_start 10000 - epoch_days) * 86400"

lemma day_fields:
  fixes s :: int
  assumes "0 \<le> s" "s < 86400"
  shows "0 \<le> s div 3600" "s div 3600 < 24" "0 \<le> s mod 3600 div 60" "s mod 3600 div 60 < 60"
    "0 \<le> s mod 60" "s mod 60 < 60"
proof -
  show "0 \<le> s div 3600" using assms by (simp add: pos_imp_zdiv_nonneg_iff)
  show "s div 3600 < 24" using assms by (simp add: div_less_iff)
  have "s mod 3600 < 3600" "0 \<le> s mod 3600" by simp_all
  then show "0 \<le> s mod 3600 div 60" "s mod 3600 div 60 < 60"
    by (simp only: pos_imp_zdiv_nonneg_iff, simp only: div_less_iff)
  show "0 \<le> s mod 60" "s mod 60 < 60" by simp_all
qed

lemma format_civil:
  assumes "civil (t div 86400) = (y, m, d)" "0 \<le> y" "y < 10000"
  shows "format_iso8601 t =
    iso_text (fixed_dec 4 (nat y)) (fixed_dec 2 m) (fixed_dec 2 (nat d))
      (fixed_dec 2 (nat (t mod 86400 div 3600))) (fixed_dec 2 (nat (t mod 86400 mod 3600 div 60)))
      (fixed_dec 2 (nat (t mod 86400 mod 60)))"
proof -
  define s where "s = t mod 86400"
  have "0 \<le> s" "s < 86400" by (simp_all add: s_def)
  note h = day_fields [OF this]
  note b = sys_days_civil [OF assms(1)]
  have "pad 4 (nat y) = fixed_dec 4 (nat y)" "pad 2 m = fixed_dec 2 m"
    "pad 2 (nat d) = fixed_dec 2 (nat d)"
    using assms b last_day_pos(2) [of y m] by (auto intro!: pad_fixed simp: nat_less_iff)
  moreover have p2: "pad 2 (nat x) = fixed_dec 2 (nat x)" if "x < 60" for x
    using that by (intro pad_fixed) auto
  have "pad 2 (nat (s div 3600)) = fixed_dec 2 (nat (s div 3600))"
    "pad 2 (nat (s mod 3600 div 60)) = fixed_dec 2 (nat (s mod 3600 div 60))"
    "pad 2 (nat (s mod 60)) = fixed_dec 2 (nat (s mod 60))"
    using p2 [OF less_trans [OF h(2)]] p2 [OF h(4)] p2 [OF h(6)] by simp_all
  ultimately show ?thesis
    using assms(2) unfolding s_def [symmetric]
    by (simp add: format_iso8601_def assms(1) iso_text_def format_year_def Let_def s_def [symmetric])
qed

lemma fields_ok_fixed:
  "fields_ok (fixed_dec 4 y) (fixed_dec 2 m) (fixed_dec 2 d) (fixed_dec 2 h) (fixed_dec 2 mi) (fixed_dec 2 s)"
  by (simp add: fields_ok_def fixed_dec_digits)

text \<open>Hours, minutes and seconds of a day, and back.\<close>

lemma day_split:
  fixes s :: int
  shows "s div 3600 * 3600 + s mod 3600 div 60 * 60 + s mod 60 = s"
proof -
  have "s mod 3600 mod 60 = s mod 60" by (simp add: mod_mod_cancel)
  then show ?thesis
    using div_mult_mod_eq [of s 3600] div_mult_mod_eq [of "s mod 3600" 60] by linarith
qed

lemma day_join:
  fixes h mi s :: int
  assumes "0 \<le> h" "h \<le> 23" "0 \<le> mi" "mi \<le> 59" "0 \<le> s" "s \<le> 59"
  defines "t \<equiv> h * 3600 + mi * 60 + s"
  shows "t div 3600 = h" "t mod 3600 div 60 = mi" "t mod 60 = s" "0 \<le> t" "t < 86400"
proof -
  have r: "0 \<le> mi * 60 + s" "mi * 60 + s < 3600" and t: "t = 3600 * h + (mi * 60 + s)"
    using assms by (simp_all add: t_def)
  have m: "t mod 3600 = mi * 60 + s"
    by (rule int_mod_pos_eq [OF t r])
  show "t div 3600 = h"
    by (rule int_div_pos_eq [OF t r])
  show "t mod 3600 div 60 = mi"
    unfolding m by (rule int_div_pos_eq [where r = s]) (use assms in simp_all)
  show "t mod 60 = s"
    by (rule int_mod_pos_eq [where q = "h * 60 + mi"]) (use assms in \<open>simp_all add: t_def\<close>)
  show "0 \<le> t" "t < 86400"
    using assms by (simp_all add: t_def)
qed

lemma iso_range_year:
  assumes "civil (t div 86400) = (y, m, d)"
  shows "iso_range t \<longleftrightarrow> 0 \<le> y \<and> y < 10000"
proof -
  let ?n = "t div 86400 + epoch_days"
  note b = sys_days_civil(6,7) [OF assms]
  have "iso_range t \<longleftrightarrow> year_start 0 - epoch_days \<le> t div 86400 \<and> t div 86400 < year_start 10000 - epoch_days"
    by (simp only: iso_range_def le_div_iff div_less_iff zero_less_numeral)
  also have "\<dots> \<longleftrightarrow> year_start 0 \<le> ?n \<and> ?n < year_start 10000"
    by (simp only: diff_le_eq less_diff_eq)
  also have "\<dots> \<longleftrightarrow> 0 \<le> y \<and> y < 10000"
    using b year_start_mono [of "y + 1" 0] year_start_mono [of 0 y]
      year_start_mono [of 10000 y] year_start_mono [of "y + 1" 10000]
    by (meson add1_zle_eq less_le_trans le_less_trans not_less order_trans)
  finally show ?thesis .
qed

lemma parse_fields:
  assumes "fields_ok Y M D H MI S" "ymd_ok (y, m, d)" "dec_value 0 M = m"
    and "int (dec_value 0 Y) = y" "int (dec_value 0 D) = d"
    and "int (dec_value 0 H) = h" "int (dec_value 0 MI) = mi" "int (dec_value 0 S) = s"
    and "h < 24" "mi < 60" "s < 60"
  shows "parse_iso8601 (iso_text Y M D H MI S) =
    Inr (sys_days (y, m, d) * 86400 + h * 3600 + mi * 60 + s)"
  using assms
  by (simp add: parse_iso8601_def Let_def has_iso_shape_fields digits_iso_text del: ymd_ok.simps sys_days.simps)

lemma parse_format_iso8601:
  assumes "iso_range t"
  shows "parse_iso8601 (format_iso8601 t) = Inr t"
proof -
  obtain y m d where c: "civil (t div 86400) = (y, m, d)" by (metis prod_cases3)
  note b = sys_days_civil [OF c]
  have y: "0 \<le> y" "y < 10000" using iso_range_year [OF c] assms by auto
  define s where "s = t mod 86400"
  have "0 \<le> s" "s < 86400" by (simp_all add: s_def)
  note h = day_fields [OF this]
  have ok: "ymd_ok (y, m, d)" using y b by auto
  have d: "d < 100" "m < 100" using b last_day_pos(2) [of y m] by auto
  have two: "int (dec_value 0 (fixed_dec 2 (nat x))) = x" if "0 \<le> x" "x < 100" for x
    using that by (subst dec_value_fixed) auto
  have "parse_iso8601 (format_iso8601 t) = Inr (sys_days (y, m, d) * 86400 + s div 3600 * 3600 + s mod 3600 div 60 * 60 + s mod 60)"
    unfolding format_civil [OF c y] s_def [symmetric]
  proof (rule parse_fields [OF fields_ok_fixed ok])
    show "dec_value 0 (fixed_dec 2 m) = m" using d by (simp add: dec_value_fixed)
    show "int (dec_value 0 (fixed_dec 4 (nat y))) = y" using y by (subst dec_value_fixed) auto
    show "int (dec_value 0 (fixed_dec 2 (nat d))) = d" using b d by (intro two) auto
    show "int (dec_value 0 (fixed_dec 2 (nat (s div 3600)))) = s div 3600"
      by (rule two [OF h(1) less_trans [OF h(2)]]) simp
    show "int (dec_value 0 (fixed_dec 2 (nat (s mod 3600 div 60)))) = s mod 3600 div 60"
      by (rule two [OF h(3) less_trans [OF h(4)]]) simp
    show "int (dec_value 0 (fixed_dec 2 (nat (s mod 60)))) = s mod 60"
      by (rule two [OF h(5) less_trans [OF h(6)]]) simp
  qed (rule h)+
  moreover have "t = sys_days (y, m, d) * 86400 + s"
    unfolding b(1) s_def by (simp only: div_mult_mod_eq)
  ultimately show ?thesis
    using day_split [of s] by (simp only: add.assoc)
qed

lemma format_parse_iso8601:
  assumes "parse_iso8601 text = Inr t"
  shows "iso_range t \<and> format_iso8601 t = text"
proof -
  obtain Y M D H MI S where f: "fields_ok Y M D H MI S" and tx: "text = iso_text Y M D H MI S"
    using assms has_iso_shapeD [of "text"] by (auto simp: parse_iso8601_def Let_def split: if_splits)
  define y where "y = int (dec_value 0 Y)" 
  define m where "m = dec_value 0 M"
  define d where "d = int (dec_value 0 D)"
  define h where "h = int (dec_value 0 H)"
  define mi where "mi = int (dec_value 0 MI)"
  define s where "s = int (dec_value 0 S)"
  note defs = y_def m_def d_def h_def mi_def s_def
  have ok: "ymd_ok (y, m, d)" and hms: "h \<le> 23" "mi \<le> 59" "s \<le> 59"
    and t: "t = sys_days (y, m, d) * 86400 + (h * 3600 + mi * 60 + s)"
    using assms f
    by (auto simp: parse_iso8601_def Let_def tx digits_iso_text defs not_less
        simp del: sys_days.simps ymd_ok.simps split: if_splits)
  have nn: "0 \<le> h" "0 \<le> mi" "0 \<le> s" by (simp_all add: defs)
  have y: "0 \<le> y" "y < 10000"
    using f dec_value_less [of Y] by (simp_all add: y_def fields_ok_def)
  note j = day_join [OF nn(1) hms(1) nn(2) hms(2) nn(3) hms(3)]
  have q: "t div 86400 = sys_days (y, m, d)"
    by (rule int_div_pos_eq [OF _ j(4,5)]) (simp only: t mult.commute)
  have r: "t mod 86400 = h * 3600 + mi * 60 + s"
    by (rule int_mod_pos_eq [OF _ j(4,5), where q = "sys_days (y, m, d)"]) (simp only: t mult.commute)
  have c: "civil (t div 86400) = (y, m, d)"
    unfolding q by (rule civil_sys_days [OF ok])
  have fd: "fixed_dec (length z) (dec_value 0 z) = z" if "list_all is_digit z" for z
    by (rule fixed_dec_value [OF that])
  have "format_iso8601 t = text"
    unfolding format_civil [OF c y] tx r j using f fd
    by (simp add: defs fields_ok_def) metis
  then show ?thesis
    using iso_range_year [OF c] y by simp
qed

interpretation iso8601: canonical_codec format_iso8601 parse_iso8601 iso_range
  by unfold_locales (auto simp: parse_format_iso8601 dest: format_parse_iso8601)

text \<open>C35. The text form of a timestamp is canonical: every timestamp of the years 0 to 9999 is read back
  exactly, and \<open>parse_iso8601\<close> accepts only the text that \<open>format_iso8601\<close> writes.\<close>

theorem iso8601_canonical:
  "parse_iso8601 s = Inr t \<longleftrightarrow> iso_range t \<and> s = format_iso8601 t"
  by (rule iso8601.accepted_iff)

subsection \<open>Time arguments and expiry\<close>

lemma format_iso8601_length: "iso_range t \<Longrightarrow> length (format_iso8601 t) = 20"
  using parse_format_iso8601 [of t]
  by (auto simp: parse_iso8601_def has_iso_shape_def kIsoPattern_def Let_def split: if_splits)

lemma parse_time_arg_exact: "iso_range t \<Longrightarrow> parse_time_arg (format_iso8601 t) now = Inr t"
  using format_iso8601_length [of t] by (auto simp: parse_time_arg_def parse_format_iso8601 Let_def)

lemma length_dec_le: "n < 10 ^ w \<Longrightarrow> 0 < w \<Longrightarrow> length (dec n) \<le> w"
proof -
  assume "n < 10 ^ w" "0 < w"
  then have "length (pad w n) = w" by (simp add: pad_fixed)
  then show ?thesis by (simp add: pad_def)
qed

definition unit_seconds :: "char \<Rightarrow> int option" where
  "unit_seconds u = map_of [(CHR ''s'', 1), (CHR ''m'', 60), (CHR ''h'', 3600), (CHR ''d'', 86400),
     (CHR ''w'', 604800)] u"

lemma from_chars_int64_dec: "n < 2 ^ 63 \<Longrightarrow> from_chars_int64 (dec n) = Some (int n, [])"
proof -
  assume n: "n < 2 ^ 63"
  have "hd (dec n) \<noteq> CHR ''-''"
    using dec_digits [of "hd (dec n)" n] by (auto simp: char_in_def ord_def)
  then obtain c cs where c: "dec n = c # cs" "c \<noteq> CHR ''-''"
    by (cases "dec n") auto
  have "from_chars_int64 (dec n) = map_option (\<lambda>(v, r). (int v, r)) (from_chars (2 ^ 63 - 1) (dec n))"
    unfolding from_chars_int64_def c(1) using c(2) by (auto split: char.splits bool.splits)
  then show ?thesis using n by simp
qed

lemma parse_time_arg_age:
  assumes "n < 10 ^ 7" "unit_seconds u = Some k"
  shows "parse_time_arg (dec n @ [u]) now = Inr (now - k * int n)"
proof -
  have "length (dec n) \<le> 7" "0 < length (dec n)"
    using assms(1) by (auto intro: length_dec_le)
  moreover have "from_chars_int64 (dec n) = Some (int n, [])"
    using assms(1) by (intro from_chars_int64_dec) simp
  moreover have "dec n @ [u] \<noteq> ''now''"
  proof
    assume e: "dec n @ [u] = ''now''"
    then have "CHR ''n'' \<in> set (dec n)" by (cases "dec n") auto
    then show False by (auto dest: dec_digits simp: char_in_def ord_def)
  qed
  ultimately show ?thesis
    using assms(2) by (auto simp: parse_time_arg_def unit_seconds_def Let_def split: if_splits)
qed

lemma expires_at_Inr:
  "expires_at created n = Inr e \<longleftrightarrow> 1 \<le> n \<and> n \<le> 3650 \<and> e = created + 86400 * n"
  by (auto simp: expires_at_def kMaxRetentionDays_def)

end
