(* ===== verification/Storage_Disk.thy ===== *)
theory Storage_Disk
  imports Common_Path Common_Id Common_Sha256
begin

section \<open>The file system\<close>

text \<open>
  What \<^verbatim>\<open>src/src/lib/storage\<close> uses of \<^verbatim>\<open>std::filesystem\<close> and of C streams, on an explicit
  disk: a tree of directories and files, and a schedule of faults. Every call that changes
  the tree or moves data takes the next entry of the schedule; \<open>Some (ec, n)\<close> makes it fail
  with the error \<open>ec\<close>, after \<open>n\<close> bytes where it writes. An exhausted schedule means no
  more faults, so a statement about all disks covers every pattern of failures. Status
  queries answer from the tree.
\<close>

datatype errno = ENOENT | EEXIST | ENOTDIR | EISDIR | ENOTEMPTY | ENAMETOOLONG | EACCES | ENOSPC | EIO

fun message :: "errno \<Rightarrow> string" where
  "message ENOENT = ''No such file or directory''"
| "message EEXIST = ''File exists''"
| "message ENOTDIR = ''Not a directory''"
| "message EISDIR = ''Is a directory''"
| "message ENOTEMPTY = ''Directory not empty''"
| "message ENAMETOOLONG = ''File name too long''"
| "message EACCES = ''Permission denied''"
| "message ENOSPC = ''No space left on device''"
| "message EIO = ''Input/output error''"

datatype node = Dir | File "byte list"

record disk =
  tree :: "(fs_path \<times> node) list"
  faults :: "(errno \<times> nat) option list"
  tmp_counter :: nat

abbreviation node_at :: "disk \<Rightarrow> fs_path \<Rightarrow> node option" where
  "node_at d p \<equiv> map_of (tree d) p"

definition is_directory :: "disk \<Rightarrow> fs_path \<Rightarrow> bool" where
  "is_directory d p \<longleftrightarrow> p = [] \<or> node_at d p = Some Dir"

definition is_regular_file :: "disk \<Rightarrow> fs_path \<Rightarrow> bool" where
  "is_regular_file d p \<longleftrightarrow> (case node_at d p of Some (File _) \<Rightarrow> True | _ \<Rightarrow> False)"

definition file_bytes :: "disk \<Rightarrow> fs_path \<Rightarrow> byte list option" where
  "file_bytes d p = (case node_at d p of Some (File bs) \<Rightarrow> Some bs | _ \<Rightarrow> None)"

text \<open>\<open>q\<close> is strictly below \<open>p\<close>.\<close>

definition below :: "fs_path \<Rightarrow> fs_path \<Rightarrow> bool" where
  "below q p \<longleftrightarrow> length p < length q \<and> take (length p) q = p"

definition is_empty_dir :: "disk \<Rightarrow> fs_path \<Rightarrow> bool" where
  "is_empty_dir d p \<longleftrightarrow> list_all (\<lambda>e. \<not> below (fst e) p) (tree d)"

definition set_node :: "fs_path \<Rightarrow> node \<Rightarrow> disk \<Rightarrow> disk" where
  "set_node p n d = d\<lparr>tree := AList.update p n (tree d)\<rparr>"

definition drop_node :: "fs_path \<Rightarrow> disk \<Rightarrow> disk" where
  "drop_node p d = d\<lparr>tree := AList.delete p (tree d)\<rparr>"

text \<open>The next entry of the schedule.\<close>

definition next_fault :: "disk \<Rightarrow> (errno \<times> nat) option \<times> disk" where
  "next_fault d = (case faults d of [] \<Rightarrow> (None, d) | f # fs \<Rightarrow> (f, d\<lparr>faults := fs\<rparr>))"

text \<open>A call that fails when the schedule says so and runs \<open>k\<close> otherwise.\<close>

definition syscall :: "disk \<Rightarrow> (disk \<Rightarrow> errno option \<times> disk) \<Rightarrow> errno option \<times> disk" where
  "syscall d k =
     (case next_fault d of (Some (ec, _), d') \<Rightarrow> (Some ec, d') | (None, d') \<Rightarrow> k d')"

subsection \<open>Directories\<close>

text \<open>\<open>create_directory\<close>: the error, and whether a directory was created.\<close>

definition create_directory :: "fs_path \<Rightarrow> disk \<Rightarrow> (errno option \<times> bool) \<times> disk" where
  "create_directory p d =
     (case next_fault d of
        (Some (ec, _), d') \<Rightarrow> ((Some ec, False), d')
      | (None, d') \<Rightarrow>
          (case node_at d' p of
             Some Dir \<Rightarrow> ((None, False), d')
           | Some (File _) \<Rightarrow> ((Some EEXIST, False), d')
           | None \<Rightarrow>
               if is_directory d' (butlast p) then ((None, True), set_node p Dir d')
               else if is_regular_file d' (butlast p) then ((Some ENOTDIR, False), d')
               else ((Some ENOENT, False), d')))"

fun create_all :: "fs_path list \<Rightarrow> disk \<Rightarrow> errno option \<times> disk" where
  "create_all [] d = (None, d)"
| "create_all (p # ps) d =
     (case create_directory p d of
        ((Some ec, _), d') \<Rightarrow> (Some ec, d')
      | ((None, _), d') \<Rightarrow> create_all ps d')"

text \<open>The ancestors of \<open>p\<close> that are missing, the outermost first, and the deepest one that exists.\<close>

fun missing_dirs :: "disk \<Rightarrow> nat \<Rightarrow> fs_path \<Rightarrow> fs_path list \<times> fs_path" where
  "missing_dirs d 0 p = ([], [])"
| "missing_dirs d (Suc k) p =
     (if p = [] \<or> node_at d p \<noteq> None then ([], p)
      else (let (ms, base) = missing_dirs d k (butlast p) in (ms @ [p], base)))"

definition create_directories :: "fs_path \<Rightarrow> disk \<Rightarrow> errno option \<times> disk" where
  "create_directories p d =
     (let (ms, base) = missing_dirs d (Suc (length p)) p
      in if is_regular_file d base then (Some ENOTDIR, d)
         else if 1000 < length ms then (Some ENAMETOOLONG, d)
         else create_all ms d)"

text \<open>
  \<open>remove_all\<close>: the entries below a directory go before the directory. It stops at the first
  failure and leaves the rest, so the paths already removed stay removed.
\<close>

fun remove_each :: "fs_path list \<Rightarrow> disk \<Rightarrow> errno option \<times> disk" where
  "remove_each [] d = (None, d)"
| "remove_each (p # ps) d =
     (case next_fault d of
        (Some (ec, _), d') \<Rightarrow> (Some ec, d')
      | (None, d') \<Rightarrow> remove_each ps (drop_node p d'))"

definition entries_of :: "fs_path \<Rightarrow> disk \<Rightarrow> fs_path list" where
  "entries_of p d = rev (sort (filter (\<lambda>q. q = p \<or> below q p) (remdups (map fst (tree d)))))"

definition remove_all :: "fs_path \<Rightarrow> disk \<Rightarrow> (errno option \<times> nat) \<times> disk" where
  "remove_all p d =
     (let es = entries_of p d; (ec, d') = remove_each es d in ((ec, length es), d'))"

subsection \<open>Files\<close>

text \<open>\<open>fs::remove\<close>: no error when there is nothing to remove.\<close>

definition fs_remove :: "fs_path \<Rightarrow> disk \<Rightarrow> errno option \<times> disk" where
  "fs_remove p d =
     syscall d (\<lambda>d. case node_at d p of
        None \<Rightarrow> (None, d)
      | Some Dir \<Rightarrow> if is_empty_dir d p then (None, drop_node p d) else (Some ENOTEMPTY, d)
      | Some (File _) \<Rightarrow> (None, drop_node p d))"

definition rename :: "fs_path \<Rightarrow> fs_path \<Rightarrow> disk \<Rightarrow> errno option \<times> disk" where
  "rename old new d =
     syscall d (\<lambda>d. case node_at d old of
        None \<Rightarrow> (Some ENOENT, d)
      | Some n \<Rightarrow>
          if is_directory d new then (Some EISDIR, d)
          else if \<not> is_directory d (butlast new) then
            (Some (if is_regular_file d (butlast new) then ENOTDIR else ENOENT), d)
          else (None, set_node new n (drop_node old d)))"

text \<open>\<open>fopen\<close> for writing creates or empties the file.\<close>

definition fopen_wb :: "fs_path \<Rightarrow> disk \<Rightarrow> errno option \<times> disk" where
  "fopen_wb p d =
     syscall d (\<lambda>d.
        if is_directory d p then (Some EISDIR, d)
        else if \<not> is_directory d (butlast p) then
          (Some (if is_regular_file d (butlast p) then ENOTDIR else ENOENT), d)
        else (None, set_node p (File []) d))"

text \<open>
  \<open>fopen\<close> for reading gives the node itself: files are replaced by renames, never changed in
  place, so an open handle keeps reading what it was opened on.
\<close>

definition fopen_rb :: "fs_path \<Rightarrow> disk \<Rightarrow> (errno + node) \<times> disk" where
  "fopen_rb p d =
     (case next_fault d of
        (Some (ec, _), d') \<Rightarrow> (Inl ec, d')
      | (None, d') \<Rightarrow> (case node_at d' p of None \<Rightarrow> (Inl ENOENT, d') | Some n \<Rightarrow> (Inr n, d')))"

text \<open>\<open>fwrite\<close> at the end of an open file: all of the bytes, or fewer and an error.\<close>

definition append_file :: "fs_path \<Rightarrow> byte list \<Rightarrow> disk \<Rightarrow> disk" where
  "append_file p bs d =
     (case node_at d p of Some (File old) \<Rightarrow> set_node p (File (old @ bs)) d | _ \<Rightarrow> d)"

definition fwrite :: "fs_path \<Rightarrow> byte list \<Rightarrow> disk \<Rightarrow> errno option \<times> disk" where
  "fwrite p bs d =
     (case next_fault d of
        (Some (ec, n), d') \<Rightarrow> (Some ec, append_file p (take n bs) d')
      | (None, d') \<Rightarrow> (None, append_file p bs d'))"

text \<open>\<open>fflush\<close>, \<open>fsync\<close> and \<open>fclose\<close> change nothing the tree shows.\<close>

definition fs_sync :: "disk \<Rightarrow> errno option \<times> disk" where
  "fs_sync d = syscall d (\<lambda>d. (None, d))"

text \<open>\<open>fread\<close> of at most \<open>n\<close> bytes: what was read and what is left; reading a directory fails.\<close>

definition fread :: "nat \<Rightarrow> node \<Rightarrow> disk \<Rightarrow> (errno + (byte list \<times> node)) \<times> disk" where
  "fread n h d =
     (case next_fault d of
        (Some (ec, _), d') \<Rightarrow> (Inl ec, d')
      | (None, d') \<Rightarrow>
          (case h of
             Dir \<Rightarrow> (Inl EISDIR, d')
           | File bs \<Rightarrow> (Inr (take n bs, File (drop n bs)), d')))"

subsection \<open>What each call can change\<close>

lemma next_faultD: "next_fault d = (f, d') \<Longrightarrow> tree d' = tree d \<and> tmp_counter d' = tmp_counter d"
  by (auto simp: next_fault_def split: list.splits)

lemma set_node_simps [simp]:
  "node_at (set_node p n d) q = (if q = p then Some n else node_at d q)" "faults (set_node p n d) = faults d"
  "tmp_counter (set_node p n d) = tmp_counter d"
  by (simp_all add: set_node_def)

lemma drop_node_simps [simp]:
  "node_at (drop_node p d) q = (if q = p then None else node_at d q)" "faults (drop_node p d) = faults d"
  "tmp_counter (drop_node p d) = tmp_counter d"
  by (simp_all add: drop_node_def)

text \<open>\<open>agree A d d'\<close>: outside the paths \<open>A\<close> the two disks hold the same.\<close>

definition agree :: "(fs_path \<Rightarrow> bool) \<Rightarrow> disk \<Rightarrow> disk \<Rightarrow> bool" where
  "agree A d d' \<longleftrightarrow> (\<forall>q. \<not> A q \<longrightarrow> node_at d' q = node_at d q)"

text \<open>\<open>grown d d'\<close>: directories were added where there was nothing, and nothing else.\<close>

definition grown :: "disk \<Rightarrow> disk \<Rightarrow> bool" where
  "grown d d' \<longleftrightarrow> (\<forall>q. node_at d' q = node_at d q \<or> node_at d q = None \<and> node_at d' q = Some Dir)"

lemma agree_refl [simp, intro]: "agree A d d"
  by (simp add: agree_def)

lemma agree_trans: "agree A d d' \<Longrightarrow> agree A d' d'' \<Longrightarrow> agree A d d''"
  by (simp add: agree_def)

lemma agree_mono: "agree A d d' \<Longrightarrow> (\<And>q. A q \<Longrightarrow> B q) \<Longrightarrow> agree B d d'"
  by (auto simp: agree_def)

lemma agree_node: "agree A d d' \<Longrightarrow> \<not> A q \<Longrightarrow> node_at d' q = node_at d q"
  by (simp add: agree_def)

lemma agree_file: "agree A d d' \<Longrightarrow> \<not> A q \<Longrightarrow> file_bytes d' q = file_bytes d q"
  by (simp add: agree_def file_bytes_def)

lemma agree_dir: "agree A d d' \<Longrightarrow> \<not> A q \<Longrightarrow> is_directory d' q = is_directory d q"
  by (simp add: agree_def is_directory_def)

lemma agree_tree: "tree d' = tree d \<Longrightarrow> agree A d d'"
  by (simp add: agree_def)

lemma grown_refl [simp, intro]: "grown d d"
  by (simp add: grown_def)

lemma grown_trans: "grown d d' \<Longrightarrow> grown d' d'' \<Longrightarrow> grown d d''"
  unfolding grown_def by (intro allI) (metis option.distinct(1))

lemma grown_tree: "tree d' = tree d \<Longrightarrow> grown d d'"
  by (simp add: grown_def)

lemma grown_file: "grown d d' \<Longrightarrow> file_bytes d' q = file_bytes d q"
  unfolding grown_def by (drule spec [of _ q]) (auto simp: file_bytes_def)

lemma grown_dir: "grown d d' \<Longrightarrow> is_directory d q \<Longrightarrow> is_directory d' q"
  unfolding grown_def by (drule spec [of _ q]) (auto simp: is_directory_def)

lemma file_bytes_simps [simp]:
  "file_bytes (set_node p n d) q =
     (if q = p then (case n of File bs \<Rightarrow> Some bs | Dir \<Rightarrow> None) else file_bytes d q)"
  "file_bytes (drop_node p d) q = (if q = p then None else file_bytes d q)"
  by (auto simp: file_bytes_def split: node.splits)

lemma file_bytes_Some: "file_bytes d p = Some bs \<longleftrightarrow> node_at d p = Some (File bs)"
  by (auto simp: file_bytes_def split: option.splits node.splits)

lemma is_regular_file_iff: "is_regular_file d p \<longleftrightarrow> (\<exists>bs. file_bytes d p = Some bs)"
  by (auto simp: is_regular_file_def file_bytes_def split: option.splits node.splits)

lemma is_directory_not_file: "is_directory d p \<Longrightarrow> p \<noteq> [] \<Longrightarrow> file_bytes d p = None"
  by (simp add: is_directory_def file_bytes_def)

lemma syscall_cases:
  assumes "syscall d k = (r, d')"
  obtains (fault) ec where "r = Some ec" "tree d' = tree d" "tmp_counter d' = tmp_counter d"
  | (run) d0 where "tree d0 = tree d" "tmp_counter d0 = tmp_counter d" "k d0 = (r, d')"
proof -
  obtain f d0 where nf: "next_fault d = (f, d0)" by fastforce
  then show thesis
    using assms that next_faultD [OF nf] by (cases f) (auto simp: syscall_def)
qed

lemma create_directory_grown:
  assumes "create_directory p d = (r, d')"
  shows "grown d d'" "agree (\<lambda>q. q = p) d d'" "tmp_counter d' = tmp_counter d"
  using assms
  by (auto simp: create_directory_def grown_def agree_def dest!: next_faultD
      split: prod.splits option.splits node.splits if_splits)

lemma create_directory_ok:
  assumes "create_directory p d = ((None, c), d')"
  shows "is_directory d' p" "c \<longleftrightarrow> node_at d p = None"
  using assms
  by (auto simp: create_directory_def is_directory_def dest!: next_faultD
      split: prod.splits option.splits node.splits if_splits)

lemma create_all_grown:
  "create_all ps d = (r, d') \<Longrightarrow>
     grown d d' \<and> agree (\<lambda>q. q \<in> set ps) d d' \<and> tmp_counter d' = tmp_counter d"
proof (induction ps arbitrary: d)
  case (Cons p ps)
  obtain e c d1 where c: "create_directory p d = ((e, c), d1)"
    by (metis prod.collapse)
  note g = create_directory_grown [OF c]
  have a: "agree (\<lambda>q. q \<in> set (p # ps)) d d1"
    by (rule agree_mono [OF g(2)]) simp
  show ?case
  proof (cases e)
    case None
    with Cons.prems c have "create_all ps d1 = (r, d')" by simp
    from Cons.IH [OF this] have g': "grown d1 d'" "agree (\<lambda>q. q \<in> set ps) d1 d'" "tmp_counter d' = tmp_counter d1"
      by simp_all
    have "agree (\<lambda>q. q \<in> set (p # ps)) d1 d'"
      by (rule agree_mono [OF g'(2)]) simp
    then show ?thesis
      using g g' agree_trans [OF a] grown_trans [OF g(1)] by simp
  next
    case (Some ec)
    with Cons.prems c g a show ?thesis by auto
  qed
qed auto

lemma create_all_ok:
  "create_all ps d = (None, d') \<Longrightarrow> p \<in> set ps \<Longrightarrow> is_directory d' p"
proof (induction ps arbitrary: d)
  case (Cons q ps)
  obtain e c d1 where c: "create_directory q d = ((e, c), d1)"
    by (metis prod.collapse)
  with Cons.prems have e: "e = None" and r: "create_all ps d1 = (None, d')"
    by (auto split: option.splits)
  show ?case
    using Cons.IH [OF r] Cons.prems(2) create_directory_ok(1) [OF c [unfolded e]]
      grown_dir create_all_grown [OF r] by auto
qed simp

lemma missing_dirs_prefix:
  "missing_dirs d k p = (ms, base) \<Longrightarrow> q \<in> set ms \<Longrightarrow> q \<noteq> [] \<and> take (length q) p = q"
proof (induction k arbitrary: p ms base)
  case (Suc k)
  show ?case
  proof (cases "p = [] \<or> node_at d p \<noteq> None")
    case False
    then obtain ms' where m: "missing_dirs d k (butlast p) = (ms', base)" "ms = ms' @ [p]"
      using Suc.prems(1) by (auto simp: Let_def split: prod.splits)
    have "take (length q) p = q" if b: "take (length q) (butlast p) = q"
    proof -
      have "length q \<le> length p - 1" using arg_cong [OF b, of length] by simp
      then show ?thesis using b by (simp add: butlast_conv_take min_absorb1)
    qed
    then show ?thesis
      using Suc.IH [OF m(1)] Suc.prems(2) m(2) False by auto
  qed (use Suc in auto)
qed auto

definition prefix_dir :: "fs_path \<Rightarrow> fs_path \<Rightarrow> bool" where
  "prefix_dir q p \<longleftrightarrow> q \<noteq> [] \<and> take (length q) p = q"

lemma create_directories_grown:
  assumes "create_directories p d = (r, d')"
  shows "grown d d'" "agree (\<lambda>q. prefix_dir q p) d d'" "tmp_counter d' = tmp_counter d"
proof -
  obtain ms base where m: "missing_dirs d (Suc (length p)) p = (ms, base)" by fastforce
  have "d' = d \<or> create_all ms d = (r, d')"
    using assms m by (auto simp: create_directories_def split: if_splits)
  then have "grown d d' \<and> agree (\<lambda>q. q \<in> set ms) d d' \<and> tmp_counter d' = tmp_counter d"
    using create_all_grown [of ms d r d'] by auto
  moreover have "prefix_dir q p" if "q \<in> set ms" for q
    using missing_dirs_prefix [OF m that] by (simp add: prefix_dir_def)
  ultimately show "grown d d'" "agree (\<lambda>q. prefix_dir q p) d d'" "tmp_counter d' = tmp_counter d"
    using agree_mono [of "\<lambda>q. q \<in> set ms" d d' "\<lambda>q. prefix_dir q p"] by auto
qed

lemma create_directories_ok:
  assumes "create_directories p d = (None, d')"
  shows "is_directory d' p"
proof -
  obtain ms base where m: "missing_dirs d (Suc (length p)) p = (ms, base)" by fastforce
  have c: "create_all ms d = (None, d')" and b: "\<not> is_regular_file d base"
    using assms m by (auto simp: create_directories_def split: if_splits)
  show ?thesis
  proof (cases "p = [] \<or> node_at d p \<noteq> None")
    case True
    with m have "base = p" by auto
    with True b have "is_directory d p"
      by (auto simp: is_regular_file_def is_directory_def split: option.splits node.splits)
    then show ?thesis using create_all_grown [OF c] grown_dir by blast
  next
    case False
    with m have "p \<in> set ms" by (auto simp: Let_def split: prod.splits)
    then show ?thesis by (rule create_all_ok [OF c])
  qed
qed

text \<open>\<open>shrunk A d d'\<close>: some nodes of \<open>A\<close> are gone and nothing else changed.\<close>

definition shrunk :: "(fs_path \<Rightarrow> bool) \<Rightarrow> disk \<Rightarrow> disk \<Rightarrow> bool" where
  "shrunk A d d' \<longleftrightarrow> (\<forall>q. node_at d' q = node_at d q \<or> A q \<and> node_at d' q = None)"

lemma shrunk_agree: "shrunk A d d' \<Longrightarrow> agree A d d'"
  by (auto simp: shrunk_def agree_def)

lemma shrunk_refl [simp, intro]: "shrunk A d d"
  by (simp add: shrunk_def)

lemma shrunk_trans: "shrunk A d d' \<Longrightarrow> shrunk A d' d'' \<Longrightarrow> shrunk A d d''"
  unfolding shrunk_def by metis

lemma shrunk_mono: "shrunk A d d' \<Longrightarrow> (\<And>q. A q \<Longrightarrow> B q) \<Longrightarrow> shrunk B d d'"
  unfolding shrunk_def by blast

lemma shrunk_file: "shrunk A d d' \<Longrightarrow> file_bytes d' q = Some bs \<Longrightarrow> file_bytes d q = Some bs"
  unfolding shrunk_def file_bytes_Some by (metis option.distinct(1))

lemma shrunk_None: "shrunk A d d' \<Longrightarrow> node_at d q = None \<Longrightarrow> node_at d' q = None"
  unfolding shrunk_def by (drule spec [of _ q]) (elim disjE conjE, simp_all only:)

lemma remove_each_shrunk:
  "remove_each ps d = (r, d') \<Longrightarrow>
     shrunk (\<lambda>q. q \<in> set ps) d d' \<and> tmp_counter d' = tmp_counter d \<and>
     (r = None \<longrightarrow> (\<forall>q \<in> set ps. node_at d' q = None))"
proof (induction ps arbitrary: d)
  case (Cons p ps)
  obtain f d1 where f: "next_fault d = (f, d1)" by fastforce
  note t = next_faultD [OF f]
  show ?case
  proof (cases f)
    case (Some e)
    with Cons.prems f t show ?thesis by (auto simp: shrunk_def split: prod.splits)
  next
    case None
    with Cons.prems f have r: "remove_each ps (drop_node p d1) = (r, d')" by simp
    note ih = Cons.IH [OF r]
    have s1: "shrunk (\<lambda>q. q \<in> set (p # ps)) d (drop_node p d1)"
      using t by (simp add: shrunk_def)
    have s2: "shrunk (\<lambda>q. q \<in> set (p # ps)) (drop_node p d1) d'"
      using ih by (auto intro: shrunk_mono)
    have "node_at d' p = None"
      by (rule shrunk_None [OF s2]) simp
    then show ?thesis
      using shrunk_trans [OF s1 s2] ih t by auto
  qed
qed auto

lemma entries_of_set: "q \<in> set (entries_of p d) \<longleftrightarrow> (q = p \<or> below q p) \<and> node_at d q \<noteq> None"
  by (auto simp: entries_of_def map_of_eq_None_iff)

lemma remove_all_shrunk:
  assumes "remove_all p d = ((r, n), d')"
  shows "shrunk (\<lambda>q. q = p \<or> below q p) d d'" "tmp_counter d' = tmp_counter d"
    and "r = None \<Longrightarrow> q = p \<or> below q p \<Longrightarrow> node_at d' q = None"
    and "n = 0 \<longleftrightarrow> (\<forall>q. q = p \<or> below q p \<longrightarrow> node_at d q = None)"
proof -
  have e: "remove_each (entries_of p d) d = (r, d')" and n: "n = length (entries_of p d)"
    using assms by (auto simp: remove_all_def Let_def split: prod.splits)
  from remove_each_shrunk [OF e] have s: "shrunk (\<lambda>q. q \<in> set (entries_of p d)) d d'"
    and c: "tmp_counter d' = tmp_counter d"
    and g: "r = None \<Longrightarrow> \<forall>q \<in> set (entries_of p d). node_at d' q = None"
    by blast+
  show "shrunk (\<lambda>q. q = p \<or> below q p) d d'"
    by (rule shrunk_mono [OF s]) (simp only: entries_of_set)
  show "tmp_counter d' = tmp_counter d"
    by (rule c)
  show "node_at d' q = None" if "r = None" "q = p \<or> below q p"
  proof (cases "q \<in> set (entries_of p d)")
    case True
    then show ?thesis using g [OF that(1)] by blast
  next
    case False
    then have "node_at d q = None" using that by (simp add: entries_of_set)
    then show ?thesis by (rule shrunk_None [OF s])
  qed
  show "n = 0 \<longleftrightarrow> (\<forall>q. q = p \<or> below q p \<longrightarrow> node_at d q = None)"
  proof
    assume "n = 0"
    then have e: "entries_of p d = []" by (simp add: n)
    show "\<forall>q. q = p \<or> below q p \<longrightarrow> node_at d q = None"
    proof (intro allI impI)
      fix q assume "q = p \<or> below q p"
      then show "node_at d q = None" using entries_of_set [of q p d] e by simp
    qed
  next
    assume a: "\<forall>q. q = p \<or> below q p \<longrightarrow> node_at d q = None"
    have "q \<notin> set (entries_of p d)" for q
      using spec [OF a, of q] unfolding entries_of_set by argo
    then have "set (entries_of p d) = {}" by (simp add: set_eq_iff)
    then show "n = 0" by (simp add: n)
  qed
qed

text \<open>A directory goes last: while something below it is left, it is there.\<close>

lemma remove_each_failed:
  "remove_each ps d = (Some e, d') \<Longrightarrow> distinct ps \<Longrightarrow> ps \<noteq> [] \<Longrightarrow> node_at d' (last ps) = node_at d (last ps)"
proof (induction ps arbitrary: d)
  case (Cons p ps)
  obtain f d1 where f: "next_fault d = (f, d1)" by fastforce
  note t = next_faultD [OF f]
  show ?case
  proof (cases f)
    case (Some e)
    with Cons.prems f t show ?thesis by (auto split: prod.splits)
  next
    case None
    with Cons.prems f have r: "remove_each ps (drop_node p d1) = (Some e, d')" by simp
    then have "ps \<noteq> []" by auto
    moreover have "last ps \<noteq> p" using Cons.prems(2) \<open>ps \<noteq> []\<close> by auto
    ultimately show ?thesis using Cons.IH [OF r] Cons.prems(2) t by simp
  qed
qed simp

lemma sorted_hd_least: "sorted xs \<Longrightarrow> x \<in> set xs \<Longrightarrow> (\<And>y. y \<in> set xs \<Longrightarrow> x \<le> y) \<Longrightarrow> hd xs = (x :: 'a :: linorder)"
  by (cases xs) (auto intro: antisym)

lemma prefix_le: "p \<le> p @ (r :: 'a :: order list)"
  by (induction p) auto

lemma entries_of_last:
  assumes "node_at d p \<noteq> None"
  shows "entries_of p d \<noteq> []" "last (entries_of p d) = p" "distinct (entries_of p d)"
proof -
  have "p \<in> set (entries_of p d)" using assms unfolding entries_of_set by simp
  then show n: "entries_of p d \<noteq> []" by force
  have "hd (rev (entries_of p d)) = p"
  proof (rule sorted_hd_least)
    show "sorted (rev (entries_of p d))" by (simp add: entries_of_def)
    show "p \<in> set (rev (entries_of p d))" using \<open>p \<in> set (entries_of p d)\<close> by simp
    show "p \<le> q" if "q \<in> set (rev (entries_of p d))" for q
      using that entries_of_set [of q p d] prefix_le [of p "drop (length p) q"]
      by (metis append_take_drop_id below_def order_refl set_rev)
  qed
  then show "last (entries_of p d) = p" using n by (simp add: hd_rev)
  show "distinct (entries_of p d)" by (simp add: entries_of_def)
qed

lemma remove_all_failed:
  assumes "remove_all p d = ((Some e, n), d')"
  shows "node_at d' p = node_at d p"
proof (cases "node_at d p = None")
  case True
  then show ?thesis using shrunk_None [OF remove_all_shrunk(1) [OF assms]] by simp
next
  case False
  have "remove_each (entries_of p d) d = (Some e, d')"
    using assms by (auto simp: remove_all_def Let_def split: prod.splits)
  from remove_each_failed [OF this] entries_of_last [OF False] show ?thesis by simp
qed

lemma fs_remove_shrunk:
  assumes "fs_remove p d = (r, d')"
  shows "shrunk (\<lambda>q. q = p) d d'" "tmp_counter d' = tmp_counter d"
    and "r = None \<Longrightarrow> node_at d' p = None" and "r \<noteq> None \<Longrightarrow> tree d' = tree d"
  using assms unfolding fs_remove_def
  by (auto elim!: syscall_cases simp: shrunk_def split: option.splits node.splits if_splits)

lemma rename_effect:
  assumes "rename old new d = (r, d')"
  shows "tmp_counter d' = tmp_counter d" "r \<noteq> None \<Longrightarrow> tree d' = tree d"
    and "r = None \<Longrightarrow> \<exists>n. node_at d old = Some n \<and>
           (\<forall>q. node_at d' q = (if q = new then Some n else if q = old then None else node_at d q))"
  using assms unfolding rename_def
  by (auto elim!: syscall_cases split: option.splits if_splits)

lemma fopen_wb_effect:
  assumes "fopen_wb p d = (r, d')"
  shows "tmp_counter d' = tmp_counter d" "r \<noteq> None \<Longrightarrow> tree d' = tree d"
    and "r = None \<Longrightarrow> node_at d' q = (if q = p then Some (File []) else node_at d q)"
    and "r = None \<Longrightarrow> \<not> is_directory d p"
  using assms unfolding fopen_wb_def
  by (auto elim!: syscall_cases simp: is_directory_def split: if_splits)

lemma append_file_effect:
  "tmp_counter (append_file p bs d) = tmp_counter d"
  "agree (\<lambda>q. q = p) d (append_file p bs d)"
  "file_bytes d p = Some old \<Longrightarrow> file_bytes (append_file p bs d) p = Some (old @ bs)"
  by (auto simp: append_file_def agree_def file_bytes_Some split: option.splits node.splits)

lemma fwrite_effect:
  assumes "fwrite p bs d = (r, d')"
  shows "tmp_counter d' = tmp_counter d" "agree (\<lambda>q. q = p) d d'"
    and "r = None \<Longrightarrow> file_bytes d p = Some old \<Longrightarrow> file_bytes d' p = Some (old @ bs)"
proof -
  obtain f d1 where f: "next_fault d = (f, d1)" by fastforce
  note t = next_faultD [OF f]
  have a: "\<exists>cs. d' = append_file p cs d1 \<and> (r = None \<longrightarrow> cs = bs)"
    using assms f by (auto simp: fwrite_def split: option.splits)
  then obtain cs where cs: "d' = append_file p cs d1" "r = None \<longrightarrow> cs = bs" by blast
  have eq: "file_bytes d1 = file_bytes d" using t by (simp add: file_bytes_def fun_eq_iff)
  show "tmp_counter d' = tmp_counter d" using t by (simp add: cs(1) append_file_effect)
  show "agree (\<lambda>q. q = p) d d'"
    using append_file_effect(2) [of p d1 cs] t by (simp add: cs(1) agree_def)
  show "file_bytes d' p = Some (old @ bs)" if "r = None" "file_bytes d p = Some old"
    using append_file_effect(3) [of d1 p old cs] that cs eq by simp
qed

lemma fs_sync_effect:
  "fs_sync d = (r, d') \<Longrightarrow> tree d' = tree d \<and> tmp_counter d' = tmp_counter d"
  unfolding fs_sync_def by (auto elim!: syscall_cases)

lemma fopen_rb_effect:
  assumes "fopen_rb p d = (r, d')"
  shows "tree d' = tree d" "tmp_counter d' = tmp_counter d" "r = Inr n \<Longrightarrow> node_at d p = Some n"
  using assms by (auto simp: fopen_rb_def dest!: next_faultD split: prod.splits option.splits)

lemma fread_effect:
  assumes "fread n h d = (r, d')"
  shows "tree d' = tree d" "tmp_counter d' = tmp_counter d"
    and "r = Inr (bs, h') \<Longrightarrow> \<exists>all. h = File all \<and> bs = take n all \<and> h' = File (drop n all)"
  using assms by (auto simp: fread_def dest!: next_faultD split: prod.splits option.splits node.splits)

end
