(* ===== verification/Storage_Store.thy ===== *)
theory Storage_Store
  imports Storage_Disk
begin

section \<open>The file store\<close>

text \<open>
  \<^verbatim>\<open>src/src/lib/storage\<close>: the classes \<open>FileStore\<close> (\<^verbatim>\<open>storage.cpp\<close>, \<^verbatim>\<open>impl/documents.cpp\<close>),
  \<open>Upload\<close> (\<^verbatim>\<open>impl/upload.cpp\<close>) and \<open>Download\<close> (\<^verbatim>\<open>impl/io.cpp\<close>) over the disk of
  \<open>Storage_Disk\<close>. A record \<open>store\<close> holds what does not change: the root directory and
  the OpenSSL parameter. Every operation takes the disk and returns it changed.
\<close>

record store =
  root :: fs_path
  evp_of :: evp

record file_info =
  fi_path :: relative_path
  fi_size :: nat

record stored_file =
  sf_path :: relative_path
  sf_size :: nat
  sf_sha256 :: sha256_digest

datatype document = Meta | Manifest

fun file_name :: "document \<Rightarrow> string" where
  "file_name Meta = ''meta.json''"
| "file_name Manifest = ''manifest.json''"

definition kChunkBytes :: nat where "kChunkBytes = 1048576"

subsection \<open>Model: error helpers and streams\<close>

definition io_error :: "string \<Rightarrow> string \<Rightarrow> errno \<Rightarrow> 'a result" where
  "io_error what subject ec =
     fail Io (''storage: '' @ what @ '' '' @ quoted subject @ '': '' @ message ec)"

definition no_such_file :: "string \<Rightarrow> 'a result" where
  "no_such_file subject = fail NotFound (''storage: no such file '' @ quoted subject)"

definition no_transaction :: "transaction_id \<Rightarrow> 'a result" where
  "no_transaction i = fail NotFound (''storage: no transaction '' @ i)"

definition open_failed :: "string \<Rightarrow> errno \<Rightarrow> 'a result" where
  "open_failed subject ec =
     (if ec = ENOENT then no_such_file subject else io_error ''open'' subject ec)"

definition open_file_wb :: "fs_path \<Rightarrow> string \<Rightarrow> disk \<Rightarrow> unit result \<times> disk" where
  "open_file_wb p subject d =
     (case fopen_wb p d of
        (Some ec, d') \<Rightarrow> (open_failed subject ec, d')
      | (None, d') \<Rightarrow> (Inr (), d'))"

definition open_file_rb :: "fs_path \<Rightarrow> string \<Rightarrow> disk \<Rightarrow> node result \<times> disk" where
  "open_file_rb p subject d =
     (case fopen_rb p d of
        (Inl ec, d') \<Rightarrow> (open_failed subject ec, d')
      | (Inr n, d') \<Rightarrow> (Inr n, d'))"

definition sync_file :: "string \<Rightarrow> disk \<Rightarrow> unit result \<times> disk" where
  "sync_file subject d =
     (case fs_sync d of
        (Some ec, d') \<Rightarrow> (io_error ''flush'' subject ec, d')
      | (None, d') \<Rightarrow>
          (case fs_sync d' of
             (Some ec, d'') \<Rightarrow> (io_error ''fsync'' subject ec, d'')
           | (None, d'') \<Rightarrow> (Inr (), d'')))"

subsection \<open>Model: uploads\<close>

record upload =
  hasher :: sha256
  tmp_path :: fs_path
  final_path :: fs_path
  up_path :: relative_path
  up_size :: nat
  up_done :: bool

definition upload_finished :: "'a result" where
  "upload_finished = fail Internal ''storage: upload already finished''"

definition upload_discard :: "upload \<Rightarrow> disk \<Rightarrow> upload \<times> disk" where
  "upload_discard u d = (u\<lparr>up_done := True\<rparr>, snd (fs_remove (tmp_path u) d))"

text \<open>The destructor.\<close>

definition upload_drop :: "upload \<Rightarrow> disk \<Rightarrow> disk" where
  "upload_drop u d = (if up_done u then d else snd (upload_discard u d))"

definition upload_write :: "store \<Rightarrow> upload \<Rightarrow> byte list \<Rightarrow> disk \<Rightarrow> unit result \<times> upload \<times> disk" where
  "upload_write S u chunk d =
     (if up_done u then (upload_finished, u, d)
      else if chunk = [] then (Inr (), u, d)
      else
        (case fwrite (tmp_path u) chunk d of
           (Some ec, d') \<Rightarrow> (io_error ''write'' (up_path u) ec, upload_discard u d')
         | (None, d') \<Rightarrow>
             (case sha_update (evp_of S) (hasher u) chunk of
                (Inl e, h) \<Rightarrow> (Inl e, upload_discard (u\<lparr>hasher := h\<rparr>) d')
              | (Inr _, h) \<Rightarrow>
                  (Inr (), u\<lparr>hasher := h, up_size := up_size u + length chunk\<rparr>, d'))))"

definition checksum_mismatch :: "relative_path \<Rightarrow> sha256_digest \<Rightarrow> sha256_digest \<Rightarrow> 'a result" where
  "checksum_mismatch p want got =
     fail Integrity (''storage: checksum mismatch for '' @ quoted p @ '': expected '' @ to_hex want @
       '', got '' @ to_hex got)"

text \<open>The last part of \<open>finish\<close>: the directories, the clash with a directory, the rename.\<close>

definition upload_publish :: "upload \<Rightarrow> sha256_digest \<Rightarrow> disk \<Rightarrow> stored_file result \<times> upload \<times> disk" where
  "upload_publish u digest d =
     (case create_directories (butlast (final_path u)) d of
        (Some ec, d') \<Rightarrow>
          (if ec = EEXIST \<or> ec = ENOTDIR
           then (fail Conflict (''storage: a parent of '' @ quoted (up_path u) @ '' is a file''), u, d')
           else (io_error ''create directories for'' (up_path u) ec, u, d'))
      | (None, d') \<Rightarrow>
          if is_directory d' (final_path u)
          then (fail Conflict (''storage: '' @ quoted (up_path u) @ '' is a directory''), u, d')
          else
            (case rename (tmp_path u) (final_path u) d' of
               (Some ec, d'') \<Rightarrow> (io_error ''rename'' (up_path u) ec, u, d'')
             | (None, d'') \<Rightarrow>
                 (Inr \<lparr>sf_path = up_path u, sf_size = up_size u, sf_sha256 = digest\<rparr>,
                  u\<lparr>up_done := True\<rparr>, d'')))"

definition upload_finish ::
  "store \<Rightarrow> upload \<Rightarrow> sha256_digest option \<Rightarrow> disk \<Rightarrow> stored_file result \<times> upload \<times> disk" where
  "upload_finish S u expected d =
     (case sync_file (up_path u) d of
        (Inl e, d') \<Rightarrow> (Inl e, u, d')
      | (Inr _, d') \<Rightarrow>
          (case fs_sync d' of
             (Some ec, d'') \<Rightarrow> (io_error ''close'' (up_path u) ec, u, d'')
           | (None, d'') \<Rightarrow>
               (case sha_finish (evp_of S) (hasher u) of
                  (Inl e, h) \<Rightarrow> (Inl e, u\<lparr>hasher := h\<rparr>, d'')
                | (Inr digest, h) \<Rightarrow>
                    (case expected of
                       Some want \<Rightarrow>
                         if want \<noteq> digest
                         then (checksum_mismatch (up_path u) want digest, u\<lparr>hasher := h\<rparr>, d'')
                         else upload_publish (u\<lparr>hasher := h\<rparr>) digest d''
                     | None \<Rightarrow> upload_publish (u\<lparr>hasher := h\<rparr>) digest d''))))"

definition upload_commit ::
  "store \<Rightarrow> upload \<Rightarrow> sha256_digest option \<Rightarrow> disk \<Rightarrow> stored_file result \<times> upload \<times> disk" where
  "upload_commit S u expected d =
     (if up_done u then (upload_finished, u, d)
      else
        (case upload_finish S u expected d of
           (Inl e, u', d') \<Rightarrow> (Inl e, upload_discard u' d')
         | (Inr r, u', d') \<Rightarrow> (Inr r, u', d')))"

subsection \<open>Model: downloads\<close>

record download =
  dl_file :: "node option"
  dl_size :: nat

definition download_read :: "download \<Rightarrow> nat \<Rightarrow> disk \<Rightarrow> (byte list \<times> download) result \<times> disk" where
  "download_read dl n d =
     (case dl_file dl of
        None \<Rightarrow> (fail Internal ''storage: read after move'', d)
      | Some h \<Rightarrow>
          (case fread n h d of
             (Inl ec, d') \<Rightarrow> (io_error ''read'' ''download'' ec, d')
           | (Inr (bs, h'), d') \<Rightarrow> (Inr (bs, dl\<lparr>dl_file := Some h'\<rparr>), d')))"

subsection \<open>Model: the store\<close>

definition kTmpDir :: string where "kTmpDir = ''tmp''"
definition kTransactionsDir :: string where "kTransactionsDir = ''transactions''"
definition kFilesDir :: string where "kFilesDir = ''files''"

definition tmp_dir :: "store \<Rightarrow> fs_path" where
  "tmp_dir S = root S @ [kTmpDir]"

definition transactions_dir :: "store \<Rightarrow> fs_path" where
  "transactions_dir S = root S @ [kTransactionsDir]"

definition transaction_dir :: "store \<Rightarrow> transaction_id \<Rightarrow> fs_path" where
  "transaction_dir S i = transactions_dir S @ [i]"

definition files_dir :: "store \<Rightarrow> transaction_id \<Rightarrow> fs_path" where
  "files_dir S i = transaction_dir S i @ [kFilesDir]"

definition tmp_name :: "transaction_id \<Rightarrow> nat \<Rightarrow> string" where
  "tmp_name i n = i @ ''-'' @ dec n @ ''.part''"

text \<open>The counter is process-wide; \<open>fetch_add\<close> returns the value before the addition.\<close>

definition next_tmp_name :: "transaction_id \<Rightarrow> disk \<Rightarrow> string \<times> disk" where
  "next_tmp_name i d = (tmp_name i (tmp_counter d), d\<lparr>tmp_counter := Suc (tmp_counter d)\<rparr>)"

definition store_open :: "store \<Rightarrow> disk \<Rightarrow> unit result \<times> disk" where
  "store_open S d =
     (case create_directories (transactions_dir S) d of
        (Some ec, d) \<Rightarrow> (io_error ''create'' kTransactionsDir ec, d)
      | (None, d) \<Rightarrow>
          (case remove_all (tmp_dir S) d of
             ((Some ec, _), d) \<Rightarrow> (io_error ''clean'' kTmpDir ec, d)
           | ((None, _), d) \<Rightarrow>
               (case create_directories (tmp_dir S) d of
                  (Some ec, d) \<Rightarrow> (io_error ''create'' kTmpDir ec, d)
                | (None, d) \<Rightarrow> (Inr (), d))))"

definition create_transaction :: "store \<Rightarrow> transaction_id \<Rightarrow> disk \<Rightarrow> unit result \<times> disk" where
  "create_transaction S i d =
     (case create_directory (transaction_dir S i) d of
        ((Some ec, _), d) \<Rightarrow> (io_error ''create transaction'' i ec, d)
      | ((None, created), d) \<Rightarrow>
          if \<not> created then (fail Conflict (''storage: transaction '' @ i @ '' exists''), d)
          else
            (case create_directory (files_dir S i) d of
               ((Some ec, _), d) \<Rightarrow> (io_error ''create transaction'' i ec, d)
             | ((None, _), d) \<Rightarrow> (Inr (), d)))"

definition remove_transaction :: "store \<Rightarrow> transaction_id \<Rightarrow> disk \<Rightarrow> unit result \<times> disk" where
  "remove_transaction S i d =
     (case remove_all (transaction_dir S i) d of
        ((Some ec, _), d) \<Rightarrow> (io_error ''remove transaction'' i ec, d)
      | ((None, removed), d) \<Rightarrow> if removed = 0 then (no_transaction i, d) else (Inr (), d))"

definition has_transaction :: "store \<Rightarrow> transaction_id \<Rightarrow> disk \<Rightarrow> bool" where
  "has_transaction S i d \<longleftrightarrow> is_directory d (files_dir S i)"

text \<open>The names in a directory. A directory iterator makes one call to open and one per entry.\<close>

definition children :: "fs_path \<Rightarrow> disk \<Rightarrow> string list" where
  "children p d =
     map last (filter (\<lambda>q. q \<noteq> [] \<and> butlast q = p) (remdups (map fst (tree d))))"

fun walk :: "nat \<Rightarrow> disk \<Rightarrow> errno option \<times> disk" where
  "walk 0 d = (None, d)"
| "walk (Suc n) d =
     (case fs_sync d of (Some ec, d') \<Rightarrow> (Some ec, d') | (None, d') \<Rightarrow> walk n d')"

definition list_transactions :: "store \<Rightarrow> disk \<Rightarrow> transaction_id list result \<times> disk" where
  "list_transactions S d =
     (if \<not> is_directory d (transactions_dir S) then (io_error ''list'' kTransactionsDir ENOENT, d)
      else
        (let names = children (transactions_dir S) d
         in case walk (Suc (length names)) d of
              (Some ec, d') \<Rightarrow> (io_error ''list'' kTransactionsDir ec, d')
            | (None, d') \<Rightarrow>
                (Inr (sort (filter (\<lambda>n. is_directory d (transactions_dir S @ [n]) \<and> is_ok (id_parse n)) names)),
                 d')))"

definition begin_write ::
  "store \<Rightarrow> transaction_id \<Rightarrow> fs_path \<Rightarrow> relative_path \<Rightarrow> disk \<Rightarrow> upload result \<times> disk" where
  "begin_write S i final p d =
     (if \<not> has_transaction S i d then (no_transaction i, d)
      else
        (let (name, d) = next_tmp_name i d; tmp = tmp_dir S @ [name]
         in cfd_tryS (open_file_wb tmp p d) (\<lambda>_ d.
              (cfd_try (sha_create (evp_of S)) (\<lambda>h.
                 Inr \<lparr>hasher = h, tmp_path = tmp, final_path = final, up_path = p, up_size = 0,
                      up_done = False\<rparr>), d))))"

definition begin_upload :: "store \<Rightarrow> transaction_id \<Rightarrow> relative_path \<Rightarrow> disk \<Rightarrow> upload result \<times> disk" where
  "begin_upload S i p d = begin_write S i (under p (files_dir S i)) p d"

definition stat :: "store \<Rightarrow> transaction_id \<Rightarrow> relative_path \<Rightarrow> disk \<Rightarrow> file_info result" where
  "stat S i p d =
     (case node_at d (under p (files_dir S i)) of
        Some (File bs) \<Rightarrow> Inr \<lparr>fi_path = p, fi_size = length bs\<rparr>
      | _ \<Rightarrow> no_such_file p)"

definition open_read :: "store \<Rightarrow> transaction_id \<Rightarrow> relative_path \<Rightarrow> disk \<Rightarrow> download result \<times> disk" where
  "open_read S i p d =
     (case stat S i p d of
        Inl e \<Rightarrow> (Inl e, d)
      | Inr info \<Rightarrow>
          cfd_tryS (open_file_rb (under p (files_dir S i)) p d) (\<lambda>file d.
            (Inr \<lparr>dl_file = Some file, dl_size = fi_size info\<rparr>, d)))"

text \<open>The read loop of \<open>hash_file\<close>: one chunk at a time until a read returns nothing.\<close>

definition dl_left :: "download \<Rightarrow> nat" where
  "dl_left dl = (case dl_file dl of Some (File bs) \<Rightarrow> length bs | _ \<Rightarrow> 0)"

lemma download_read_left:
  "download_read dl n d = (Inr (bs, dl'), d') \<Longrightarrow> dl_left dl = length bs + dl_left dl'"
  by (auto simp: download_read_def fread_def io_error_def dl_left_def split: option.splits prod.splits
      sum.splits node.splits)

function hash_loop ::
  "store \<Rightarrow> download \<Rightarrow> sha256 \<Rightarrow> nat \<Rightarrow> disk \<Rightarrow> (nat \<times> sha256) result \<times> disk" where
  "hash_loop S dl h sz d =
     (case download_read dl kChunkBytes d of
        (Inl e, d') \<Rightarrow> (Inl e, d')
      | (Inr (bs, dl'), d') \<Rightarrow>
          if bs = [] then (Inr (sz, h), d')
          else
            (case sha_update (evp_of S) h bs of
               (Inl e, _) \<Rightarrow> (Inl e, d')
             | (Inr _, h') \<Rightarrow> hash_loop S dl' h' (sz + length bs) d'))"
  by pat_completeness auto
termination
  by (relation "measure (\<lambda>(S, dl, h, n, d). dl_left dl)") (auto dest!: download_read_left [OF sym])

declare hash_loop.simps [simp del]

definition hash_file :: "store \<Rightarrow> transaction_id \<Rightarrow> relative_path \<Rightarrow> disk \<Rightarrow> stored_file result \<times> disk" where
  "hash_file S i p d =
     cfd_tryS (open_read S i p d) (\<lambda>dl d.
       case sha_create (evp_of S) of
         Inl e \<Rightarrow> (Inl e, d)
       | Inr h \<Rightarrow>
           cfd_tryS (hash_loop S dl h 0 d) (\<lambda>(sz, h) d.
             (cfd_try (fst (sha_finish (evp_of S) h)) (\<lambda>digest.
                Inr \<lparr>sf_path = p, sf_size = sz, sf_sha256 = digest\<rparr>), d)))"

text \<open>The folders a removal left empty, up to the files directory.\<close>

function drop_empty_dirs :: "fs_path \<Rightarrow> fs_path \<Rightarrow> disk \<Rightarrow> disk" where
  "drop_empty_dirs files dir d =
     (if \<not> below dir files \<or> node_at d dir \<noteq> Some Dir \<or> \<not> is_empty_dir d dir then d
      else
        (case fs_remove dir d of
           (Some _, d') \<Rightarrow> d'
         | (None, d') \<Rightarrow> drop_empty_dirs files (butlast dir) d'))"
  by pat_completeness auto
termination
  by (relation "measure (\<lambda>(files, dir, d). length dir)") (auto simp: below_def)

declare drop_empty_dirs.simps [simp del]

definition remove_file :: "store \<Rightarrow> transaction_id \<Rightarrow> relative_path \<Rightarrow> disk \<Rightarrow> unit result \<times> disk" where
  "remove_file S i p d =
     (let files = files_dir S i; q = under p files
      in if \<not> is_regular_file d q then (no_such_file p, d)
         else
           (case fs_remove q d of
              (Some ec, d') \<Rightarrow> (io_error ''remove'' p ec, d')
            | (None, d') \<Rightarrow> (Inr (), drop_empty_dirs files (butlast q) d')))"

text \<open>The loop of \<open>list_files\<close> over what the recursive iterator visits.\<close>

fun list_loop ::
  "fs_path \<Rightarrow> transaction_id \<Rightarrow> fs_path list \<Rightarrow> file_info list \<Rightarrow> disk \<Rightarrow> file_info list result \<times> disk" where
  "list_loop files i [] out d = (Inr (sort_key fi_path out), d)"
| "list_loop files i (q # qs) out d =
     (let step = (\<lambda>out. case fs_sync d of
                    (Some ec, d') \<Rightarrow> (io_error ''list files of'' i ec, d')
                  | (None, d') \<Rightarrow> list_loop files i qs out d')
      in case node_at d q of
           Some (File bs) \<Rightarrow>
             (case from_local files q of
                Inl e \<Rightarrow> (Inl e, d)
              | Inr rel \<Rightarrow> step (out @ [\<lparr>fi_path = rel, fi_size = length bs\<rparr>]))
         | _ \<Rightarrow> step out)"

definition list_files :: "store \<Rightarrow> transaction_id \<Rightarrow> disk \<Rightarrow> file_info list result \<times> disk" where
  "list_files S i d =
     (let files = files_dir S i
      in if \<not> has_transaction S i d then (no_transaction i, d)
         else
           (case fs_sync d of
              (Some ec, d') \<Rightarrow> (io_error ''list files of'' i ec, d')
            | (None, d') \<Rightarrow>
                list_loop files i (filter (\<lambda>q. below q files) (remdups (map fst (tree d)))) [] d'))"

definition write_document :: "store \<Rightarrow> transaction_id \<Rightarrow> document \<Rightarrow> string \<Rightarrow> disk \<Rightarrow> unit result \<times> disk" where
  "write_document S i doc content d =
     (let name = file_name doc
      in case path_parse name of
           Inl e \<Rightarrow> (Inl e, d)
         | Inr rel \<Rightarrow>
             cfd_tryS (begin_write S i (transaction_dir S i @ [name]) rel d) (\<lambda>u d.
               case upload_write S u (as_bytes content) d of
                 (Inl e, u, d) \<Rightarrow> (Inl e, upload_drop u d)
               | (Inr _, u, d) \<Rightarrow>
                   (case upload_commit S u None d of
                      (Inl e, u, d) \<Rightarrow> (Inl e, upload_drop u d)
                    | (Inr _, u, d) \<Rightarrow> (Inr (), upload_drop u d))))"

text \<open>The loop of \<open>read_document\<close> ends at the first short read.\<close>

definition kDocBuf :: nat where "kDocBuf = 4096"

function doc_loop :: "string \<Rightarrow> node \<Rightarrow> byte list \<Rightarrow> disk \<Rightarrow> string result \<times> disk" where
  "doc_loop name h out d =
     (case fread kDocBuf h d of
        (Inl ec, d') \<Rightarrow> (io_error ''read'' name ec, d')
      | (Inr (bs, h'), d') \<Rightarrow>
          if length bs < kDocBuf then (Inr (of_bytes (out @ bs)), d')
          else doc_loop name h' (out @ bs) d')"
  by pat_completeness auto
termination
  by (relation "measure (\<lambda>(name, h, out, d). case h of File bs \<Rightarrow> length bs | Dir \<Rightarrow> 0)")
    (auto simp: fread_def kDocBuf_def split: option.splits prod.splits node.splits)

declare doc_loop.simps [simp del]

definition read_document :: "store \<Rightarrow> transaction_id \<Rightarrow> document \<Rightarrow> disk \<Rightarrow> string result \<times> disk" where
  "read_document S i doc d =
     (let name = file_name doc
      in cfd_tryS (open_file_rb (transaction_dir S i @ [name]) name d) (\<lambda>h d. doc_loop name h [] d))"

end
