(* ===== verification/Storage_Proofs.thy ===== *)
theory Storage_Proofs
  imports Storage_Store
begin

section \<open>The file store keeps its promises\<close>

text \<open>
  Facts about \<open>Storage_Store\<close> that hold for every disk and every schedule of faults: what an
  upload holds while it is open, that a file appears in a transaction only whole and only by
  a successful \<open>commit\<close>, that documents are replaced atomically, that reading returns what
  is stored, and which paths an operation can touch at all.
\<close>

subsection \<open>Places on the disk\<close>

definition in_tx :: "store \<Rightarrow> transaction_id \<Rightarrow> fs_path \<Rightarrow> bool" where
  "in_tx S i q \<longleftrightarrow> q = transaction_dir S i \<or> below q (transaction_dir S i)"

definition in_tmp :: "store \<Rightarrow> fs_path \<Rightarrow> bool" where
  "in_tmp S q \<longleftrightarrow> below q (tmp_dir S)"

lemma below_append [simp]: "below (p @ q) p \<longleftrightarrow> q \<noteq> []"
  by (simp add: below_def)

lemma below_iff: "below q p \<longleftrightarrow> (\<exists>r. r \<noteq> [] \<and> q = p @ r)"
proof
  assume b: "below q p"
  then have "q = p @ drop (length p) q" by (metis append_take_drop_id below_def)
  moreover have "drop (length p) q \<noteq> []" using b by (simp add: below_def)
  ultimately show "\<exists>r. r \<noteq> [] \<and> q = p @ r" by blast
qed auto

lemma in_tx_iff: "in_tx S i q \<longleftrightarrow> (\<exists>r. q = root S @ kTransactionsDir # i # r)"
proof
  assume "in_tx S i q"
  then have "\<exists>r. q = transaction_dir S i @ r"
    unfolding in_tx_def below_iff by (metis append_Nil2)
  then show "\<exists>r. q = root S @ kTransactionsDir # i # r"
    by (simp add: transaction_dir_def transactions_dir_def)
next
  assume "\<exists>r. q = root S @ kTransactionsDir # i # r"
  then obtain r where r: "q = transaction_dir S i @ r"
    by (auto simp: transaction_dir_def transactions_dir_def)
  then show "in_tx S i q" by (cases r) (auto simp: in_tx_def)
qed

lemma in_tmp_iff: "in_tmp S q \<longleftrightarrow> (\<exists>n r. q = root S @ kTmpDir # n # r)"
  unfolding in_tmp_def below_iff tmp_dir_def by (auto simp: neq_Nil_conv)

lemma in_tx_unique: "in_tx S i q \<Longrightarrow> in_tx S j q \<Longrightarrow> i = j"
  by (auto simp: in_tx_iff)

lemma in_tx_not_tmp: "in_tx S i q \<Longrightarrow> \<not> in_tmp S q"
  by (auto simp: in_tx_iff in_tmp_iff kTransactionsDir_def kTmpDir_def)

lemma files_dir_simps: "files_dir S i = root S @ [kTransactionsDir, i, kFilesDir]"
  by (simp add: files_dir_def transaction_dir_def transactions_dir_def)

lemma under_files: "under p (files_dir S i) = files_dir S i @ path_elems p"
  by (simp add: under_def files_dir_simps kFilesDir_def)

lemma in_tx_under [simp]: "in_tx S i (under p (files_dir S i))"
  unfolding in_tx_iff under_files by (simp add: files_dir_simps)

lemma in_tx_document [simp]: "in_tx S i (transaction_dir S i @ [n])"
  by (simp add: in_tx_iff transaction_dir_def transactions_dir_def)

lemma in_tmp_name [simp]: "in_tmp S (tmp_dir S @ [n])"
  by (simp add: in_tmp_def)

lemma document_not_under: "transaction_dir S i @ [file_name dc] \<noteq> under p (files_dir S i)"
  unfolding under_files by (cases dc) (auto simp: files_dir_def kFilesDir_def)

lemma tmp_name_inject: "tmp_name i n = tmp_name j m \<Longrightarrow> n = m"
proof -
  assume "tmp_name i n = tmp_name j m"
  then have "rev (i @ ''-'' @ dec n) = rev (j @ ''-'' @ dec m)"
    by (simp add: tmp_name_def)
  then have "takeWhile is_digit (rev (dec n) @ CHR ''-'' # rev i) =
      takeWhile is_digit (rev (dec m) @ CHR ''-'' # rev j)"
    by simp
  moreover have "takeWhile is_digit (rev (dec k) @ CHR ''-'' # r) = rev (dec k)" for k r
    using dec_digits [of _ k] by (subst takeWhile_append2) (auto simp: char_in_def ord_def)
  ultimately have "dec n = dec m" by simp
  then show "n = m" by (metis dec_value_dec)
qed

subsection \<open>Uploads\<close>

text \<open>An open upload holds the chunks \<open>cs\<close>: in its temporary file, in its hasher and in its size.\<close>

definition up_holds :: "upload \<Rightarrow> disk \<Rightarrow> byte list list \<Rightarrow> bool" where
  "up_holds u d cs \<longleftrightarrow> \<not> up_done u \<and> hasher u = Some cs \<and>
     file_bytes d (tmp_path u) = Some (concat cs) \<and> up_size u = length (concat cs)"

lemma begin_write_cases:
  assumes "begin_write S i f p d = (r, d')"
  defines "tmp \<equiv> tmp_dir S @ [tmp_name i (tmp_counter d)]"
  obtains (none) "r = no_transaction i" "d' = d" "\<not> has_transaction S i d"
  | (refused) ec where "r = open_failed p ec"
      "fopen_wb tmp (d\<lparr>tmp_counter := Suc (tmp_counter d)\<rparr>) = (Some ec, d')"
  | (opened) "has_transaction S i d"
      "fopen_wb tmp (d\<lparr>tmp_counter := Suc (tmp_counter d)\<rparr>) = (None, d')"
      "r = cfd_try (sha_create (evp_of S)) (\<lambda>h. Inr \<lparr>hasher = h, tmp_path = tmp, final_path = f,
         up_path = p, up_size = 0, up_done = False\<rparr>)"
proof (cases "has_transaction S i d")
  case False
  then show thesis using assms none by (simp add: begin_write_def)
next
  case True
  obtain e d1 where o: "fopen_wb tmp (d\<lparr>tmp_counter := Suc (tmp_counter d)\<rparr>) = (e, d1)"
    by fastforce
  show thesis
  proof (cases e)
    case None
    then show thesis
      using assms True o opened by (simp add: begin_write_def next_tmp_name_def open_file_wb_def)
  next
    case (Some ec)
    then show thesis
      using assms True o refused
      by (auto simp: begin_write_def next_tmp_name_def open_file_wb_def open_failed_def no_such_file_def
          io_error_def fail_def split: if_splits)
  qed
qed

lemma open_failed_Inl [simp]: "open_failed p ec \<noteq> Inr x" "no_transaction i \<noteq> Inr x"
    "no_such_file p \<noteq> Inr x" "io_error w p ec \<noteq> Inr x" "upload_finished \<noteq> Inr x"
    "checksum_mismatch p a b \<noteq> Inr x"
  by (auto simp: open_failed_def no_such_file_def io_error_def no_transaction_def upload_finished_def
      checksum_mismatch_def)

lemma begin_write_ok:
  assumes "begin_write S i f p d = (Inr u, d')"
  shows "up_holds u d' []" "tmp_path u = tmp_dir S @ [tmp_name i (tmp_counter d)]"
    "final_path u = f" "up_path u = p" "has_transaction S i d"
    "tmp_counter d' = Suc (tmp_counter d)" "agree (\<lambda>q. q = tmp_path u) d d'"
proof -
  let ?tmp = "tmp_dir S @ [tmp_name i (tmp_counter d)]"
  obtain h where h: "sha_create (evp_of S) = Inr h" "has_transaction S i d"
    and u: "u = \<lparr>hasher = h, tmp_path = ?tmp, final_path = f, up_path = p, up_size = 0, up_done = False\<rparr>"
    and o: "fopen_wb ?tmp (d\<lparr>tmp_counter := Suc (tmp_counter d)\<rparr>) = (None, d')"
    using assms by (cases rule: begin_write_cases) (auto simp: try_simps dest!: sym [of "Inr u"])
  have n: "node_at d' q = (if q = ?tmp then Some (File []) else node_at d q)" for q
    using fopen_wb_effect(3) [OF o refl, of q] by simp
  show "up_holds u d' []"
    using h by (simp add: up_holds_def u n file_bytes_Some sha_create_Inr)
  show "tmp_path u = ?tmp" "final_path u = f" "up_path u = p" "has_transaction S i d"
    using h by (simp_all add: u)
  show "tmp_counter d' = Suc (tmp_counter d)"
    using fopen_wb_effect(1) [OF o] by simp
  show "agree (\<lambda>q. q = tmp_path u) d d'"
    by (simp add: agree_def n u)
qed

lemma begin_write_agree:
  assumes "begin_write S i f p d = (r, d')"
  shows "agree (\<lambda>q. q = tmp_dir S @ [tmp_name i (tmp_counter d)]) d d' \<and> tmp_counter d \<le> tmp_counter d'"
  using assms
proof (cases rule: begin_write_cases)
  case (refused ec)
  then show ?thesis
    using fopen_wb_effect(1,2) [OF refused(2)] by (simp add: agree_def)
next
  case opened
  then show ?thesis
    using fopen_wb_effect(1) [OF opened(2)] fopen_wb_effect(3) [OF opened(2) refl] by (auto simp: agree_def)
qed simp

lemma begin_write_frame:
  assumes "begin_write S i f p d = (r, d')"
  shows "agree (in_tmp S) d d'" "tmp_counter d \<le> tmp_counter d'"
  using begin_write_agree [OF assms] by (auto elim: agree_mono)

text \<open>Writing: only the temporary file changes, and the upload then holds the chunk as well.\<close>

lemma upload_discard_effect:
  assumes "upload_discard u d = (u', d')"
  shows "u' = u\<lparr>up_done := True\<rparr>" "shrunk (\<lambda>q. q = tmp_path u) d d'" "tmp_counter d' = tmp_counter d"
proof -
  obtain e d1 where f: "fs_remove (tmp_path u) d = (e, d1)" by fastforce
  then have "u' = u\<lparr>up_done := True\<rparr>" "d' = d1" using assms by (simp_all add: upload_discard_def)
  then show "u' = u\<lparr>up_done := True\<rparr>" "shrunk (\<lambda>q. q = tmp_path u) d d'" "tmp_counter d' = tmp_counter d"
    using fs_remove_shrunk(1,2) [OF f] by simp_all
qed

lemma upload_write_cases:
  assumes "upload_write S u chunk d = (r, u', d')"
  obtains (noop) "r = (if up_done u then upload_finished else Inr ())" "u' = u" "d' = d"
      "up_done u \<or> chunk = []"
  | (failed) e d1 ec h where "r = Inl e" "\<not> up_done u" "fwrite (tmp_path u) chunk d = (ec, d1)"
      "upload_discard (u\<lparr>hasher := h\<rparr>) d1 = (u', d')"
  | (written) h where "r = Inr ()" "\<not> up_done u" "fwrite (tmp_path u) chunk d = (None, d')"
      "sha_update (evp_of S) (hasher u) chunk = (Inr (), h)"
      "u' = u\<lparr>hasher := h, up_size := up_size u + length chunk\<rparr>"
proof (cases "up_done u \<or> chunk = []")
  case True
  then show thesis using assms noop by (auto simp: upload_write_def split: if_splits)
next
  case False
  obtain ec d1 where w: "fwrite (tmp_path u) chunk d = (ec, d1)" by fastforce
  obtain v h where s: "sha_update (evp_of S) (hasher u) chunk = (v, h)" by fastforce
  show thesis
  proof (cases ec)
    case (Some c)
    have "u = u\<lparr>hasher := hasher u\<rparr>" by simp
    with Some show thesis
      using assms False w failed [of _ ec d1 "hasher u"]
      by (auto simp: upload_write_def io_error_def fail_def)
  next
    case None
    then show thesis
      using assms False w s failed [of _ None d1 h] written [of h]
      by (cases v) (auto simp: upload_write_def)
  qed
qed

lemma upload_write_effect:
  assumes "upload_write S u chunk d = (r, u', d')"
  shows "tmp_path u' = tmp_path u \<and> final_path u' = final_path u \<and> up_path u' = up_path u \<and>
    tmp_counter d' = tmp_counter d \<and> agree (\<lambda>q. q = tmp_path u) d d'"
  using assms
proof (cases rule: upload_write_cases)
  case (failed e d1 ec h)
  have "agree (\<lambda>q. q = tmp_path u) d1 d'"
    using upload_discard_effect(2) [OF failed(4)] by (simp add: shrunk_agree)
  then show ?thesis
    using fwrite_effect(1,2) [OF failed(3)] upload_discard_effect(1,3) [OF failed(4)]
    by (auto intro: agree_trans)
next
  case (written h)
  then show ?thesis
    using fwrite_effect(1,2) [OF written(3)] by simp
qed simp

lemma upload_write_ok:
  assumes "upload_write S u chunk d = (Inr v, u', d')" "up_holds u d cs"
  shows "\<exists>cs'. up_holds u' d' cs' \<and> concat cs' = concat cs @ chunk"
  using assms(1)
proof (cases rule: upload_write_cases)
  case noop
  then show ?thesis using assms(2) by (auto simp: up_holds_def split: if_splits)
next
  case (written h)
  then show ?thesis
    using assms(2) fwrite_effect(3) [OF written(3) refl]
    by (intro exI [of _ "cs @ [chunk]"]) (auto simp: up_holds_def sha_update_Inr)
qed simp

lemma upload_write_fail:
  assumes "upload_write S u chunk d = (Inl e, u', d')"
  shows "up_done u'"
  using assms
proof (cases rule: upload_write_cases)
  case (failed e d1 ec h)
  then show ?thesis using upload_discard_effect(1) [OF failed(4)] by simp
qed (auto split: if_splits)

text \<open>Publishing: nothing visible changes unless the rename succeeds.\<close>

definition dirs_kept :: "disk \<Rightarrow> disk \<Rightarrow> bool" where
  "dirs_kept d d' \<longleftrightarrow> (\<forall>q. is_directory d q \<longrightarrow> is_directory d' q)"

lemma dirs_kept_refl [simp, intro]: "dirs_kept d d"
  by (simp add: dirs_kept_def)

lemma dirs_kept_trans: "dirs_kept d d' \<Longrightarrow> dirs_kept d' d'' \<Longrightarrow> dirs_kept d d''"
  by (simp add: dirs_kept_def)

lemma dirs_kept_tree: "tree d' = tree d \<Longrightarrow> dirs_kept d d'"
  by (simp add: dirs_kept_def is_directory_def)

lemma dirs_kept_grown: "grown d d' \<Longrightarrow> dirs_kept d d'"
  by (auto simp: dirs_kept_def intro: grown_dir)

lemma dirs_kept_file:
  assumes "agree (\<lambda>q. q = p) d d'" "file_bytes d p = Some bs"
  shows "dirs_kept d d'"
  unfolding dirs_kept_def
proof (intro allI impI)
  fix q assume q: "is_directory d q"
  show "is_directory d' q"
  proof (cases "q = p")
    case True
    then show ?thesis using q assms(2) by (auto simp: is_directory_def file_bytes_Some)
  next
    case False
    then show ?thesis using q agree_dir [OF assms(1)] by simp
  qed
qed

lemma same_tree_file: "tree d' = tree d \<Longrightarrow> file_bytes d' q = file_bytes d q"
  by (simp add: file_bytes_def)

lemma upload_publish_fail:
  assumes "upload_publish u g d = (Inl e, u', d')"
  shows "u' = u \<and> grown d d' \<and> tmp_counter d' = tmp_counter d"
proof -
  obtain ec d1 where c: "create_directories (butlast (final_path u)) d = (ec, d1)" by fastforce
  note g = create_directories_grown(1,3) [OF c]
  obtain er d2 where r: "rename (tmp_path u) (final_path u) d1 = (er, d2)" by fastforce
  have "u' = u \<and> (d' = d1 \<or> er \<noteq> None \<and> d' = d2)"
    using assms c r by (auto simp: upload_publish_def split: option.splits if_splits)
  then show ?thesis
    using g rename_effect(1,2) [OF r] by (auto intro: grown_trans grown_tree)
qed

lemma upload_publish_ok:
  assumes "upload_publish u g d = (Inr sf, u', d')"
    and t: "file_bytes d (tmp_path u) = Some bs"
  shows "sf = \<lparr>sf_path = up_path u, sf_size = up_size u, sf_sha256 = g\<rparr>"
    "u' = u\<lparr>up_done := True\<rparr>" "tmp_counter d' = tmp_counter d" "dirs_kept d d'"
    "file_bytes d' q =
       (if q = final_path u then Some bs else if q = tmp_path u then None else file_bytes d q)"
proof -
  obtain d1 where c: "create_directories (butlast (final_path u)) d = (None, d1)"
    and nd: "\<not> is_directory d1 (final_path u)"
    and r: "rename (tmp_path u) (final_path u) d1 = (None, d')"
    and "sf = \<lparr>sf_path = up_path u, sf_size = up_size u, sf_sha256 = g\<rparr>"
    and "u' = u\<lparr>up_done := True\<rparr>"
    using assms(1) by (auto simp: upload_publish_def split: prod.splits option.splits if_splits)
  then show "sf = \<lparr>sf_path = up_path u, sf_size = up_size u, sf_sha256 = g\<rparr>"
    "u' = u\<lparr>up_done := True\<rparr>" by simp_all
  note g = create_directories_grown(1,3) [OF c]
  show "tmp_counter d' = tmp_counter d"
    using g rename_effect(1) [OF r] by simp
  have t1: "node_at d1 (tmp_path u) = Some (File bs)"
    using grown_file [OF g(1), of "tmp_path u"] t by (simp add: file_bytes_Some)
  have n: "node_at d' q =
      (if q = final_path u then Some (File bs) else if q = tmp_path u then None else node_at d1 q)" for q
    using rename_effect(3) [OF r refl] t1 by auto
  show "file_bytes d' q =
      (if q = final_path u then Some bs else if q = tmp_path u then None else file_bytes d q)"
    using grown_file [OF g(1), of q] by (simp add: file_bytes_def n)
  have "dirs_kept d1 d'"
    using nd t1 by (auto simp: dirs_kept_def is_directory_def n)
  then show "dirs_kept d d'"
    using dirs_kept_grown [OF g(1)] dirs_kept_trans by blast
qed

lemma sync_file_tree: "sync_file s d = (r, d') \<Longrightarrow> tree d' = tree d \<and> tmp_counter d' = tmp_counter d"
  by (auto simp: sync_file_def dest!: fs_sync_effect split: prod.splits option.splits)

lemma upload_finish_cases:
  assumes "upload_finish S u x d = (r, u', d')"
  obtains (early) e h where "r = Inl e" "u' = u\<lparr>hasher := h\<rparr>" "tree d' = tree d"
      "tmp_counter d' = tmp_counter d"
  | (publish) g h d1 where "sha_finish (evp_of S) (hasher u) = (Inr g, h)" "x = None \<or> x = Some g"
      "tree d1 = tree d" "tmp_counter d1 = tmp_counter d"
      "upload_publish (u\<lparr>hasher := h\<rparr>) g d1 = (r, u', d')"
proof -
  obtain v d1 where s: "sync_file (up_path u) d = (v, d1)" by fastforce
  obtain ec d2 where c: "fs_sync d1 = (ec, d2)" by fastforce
  obtain w h where f: "sha_finish (evp_of S) (hasher u) = (w, h)" by fastforce
  note t = sync_file_tree [OF s] fs_sync_effect [OF c]
  have u: "u = u\<lparr>hasher := hasher u\<rparr>" by simp
  show thesis
  proof (cases v)
    case (Inl e)
    then show thesis using assms s t u early [of e "hasher u"] by (simp add: upload_finish_def)
  next
    case (Inr y)
    show thesis
    proof (cases ec)
      case (Some c')
      then show thesis
        using assms s c t u Inr early [of _ "hasher u"] by (auto simp: upload_finish_def io_error_def fail_def)
    next
      case None
      show thesis
      proof (cases w)
        case (Inl e)
        then show thesis using assms s c f t Inr None early [of e h] by (simp add: upload_finish_def)
      next
        case w: (Inr g)
        show thesis
        proof (cases "x = None \<or> x = Some g")
          case True
          then show thesis
            using assms s c f t Inr None w publish [of g h d2] by (auto simp: upload_finish_def)
        next
          case False
          then obtain y where y: "x = Some y" "y \<noteq> g" by auto
          then show thesis
            using assms s c f t Inr None w early [of _ h]
            by (auto simp: upload_finish_def checksum_mismatch_def fail_def)
        qed
      qed
    qed
  qed
qed

lemma upload_commit_ok:
  assumes "upload_commit S u x d = (Inr sf, u', d')" and h: "up_holds u d cs"
  shows "\<exists>g. evp_digest_final (evp_of S) cs = Some g \<and> length g = 32 \<and> (x = None \<or> x = Some g) \<and>
      sf = \<lparr>sf_path = up_path u, sf_size = length (concat cs), sf_sha256 = g\<rparr>"
    "up_done u'" "tmp_path u' = tmp_path u" "tmp_counter d' = tmp_counter d" "dirs_kept d d'"
    "file_bytes d' q =
      (if q = final_path u then Some (concat cs) else if q = tmp_path u then None else file_bytes d q)"
proof -
  have "upload_finish S u x d = (Inr sf, u', d')"
    using assms by (auto simp: upload_commit_def up_holds_def split: prod.splits sum.splits if_splits)
  then obtain g hh d1 where f: "sha_finish (evp_of S) (hasher u) = (Inr g, hh)" "x = None \<or> x = Some g"
    and t: "tree d1 = tree d" "tmp_counter d1 = tmp_counter d"
    and p: "upload_publish (u\<lparr>hasher := hh\<rparr>) g d1 = (Inr sf, u', d')"
    by (cases rule: upload_finish_cases) auto
  have b: "file_bytes d1 (tmp_path (u\<lparr>hasher := hh\<rparr>)) = Some (concat cs)"
    using h same_tree_file [OF t(1)] by (simp add: up_holds_def)
  note e = upload_publish_ok [OF p b]
  show "\<exists>g. evp_digest_final (evp_of S) cs = Some g \<and> length g = 32 \<and> (x = None \<or> x = Some g) \<and>
      sf = \<lparr>sf_path = up_path u, sf_size = length (concat cs), sf_sha256 = g\<rparr>"
    using f e(1) h by (auto simp: sha_finish_Inr up_holds_def)
  show "up_done u'" "tmp_path u' = tmp_path u" "tmp_counter d' = tmp_counter d"
    using e(2,3) t by simp_all
  show "dirs_kept d d'"
    using e(4) dirs_kept_tree [OF t(1)] dirs_kept_trans by blast
  show "file_bytes d' q =
      (if q = final_path u then Some (concat cs) else if q = tmp_path u then None else file_bytes d q)"
    using e(5) [of q] same_tree_file [OF t(1)] by simp
qed

lemma upload_commit_fail:
  assumes "upload_commit S u x d = (Inl e, u', d')"
  shows "up_done u'" "tmp_path u' = tmp_path u" "tmp_counter d' = tmp_counter d"
    "q \<noteq> tmp_path u \<Longrightarrow> file_bytes d' q = file_bytes d q"
    "up_holds u d cs \<Longrightarrow> dirs_kept d d'"
proof -
  have "up_done u' \<and> tmp_path u' = tmp_path u \<and> tmp_counter d' = tmp_counter d \<and>
    (q \<noteq> tmp_path u \<longrightarrow> file_bytes d' q = file_bytes d q) \<and> (up_holds u d cs \<longrightarrow> dirs_kept d d')"
  proof (cases "up_done u")
    case True
    then show ?thesis using assms by (simp add: upload_commit_def)
  next
    case False
    then obtain u1 d1 where f: "upload_finish S u x d = (Inl e, u1, d1)"
      and x: "upload_discard u1 d1 = (u', d')"
      using assms by (auto simp: upload_commit_def split: prod.splits sum.splits if_splits)
    have g: "grown d d1 \<and> tmp_counter d1 = tmp_counter d \<and> tmp_path u1 = tmp_path u"
      using f
    proof (cases rule: upload_finish_cases)
      case (publish g h d0)
      then show ?thesis
        using upload_publish_fail [OF publish(5)] grown_tree [of d0 d] grown_trans by auto
    qed (simp add: grown_tree)
    note dd = upload_discard_effect [OF x]
    have fq: "file_bytes d' q = file_bytes d q" if "q \<noteq> tmp_path u"
      using agree_file [OF shrunk_agree [OF dd(2)], of q] grown_file [of d d1 q] g that by simp
    have "dirs_kept d d'" if "up_holds u d cs"
    proof (rule dirs_kept_trans [OF dirs_kept_grown])
      show "grown d d1" using g by simp
      show "dirs_kept d1 d'"
        using dirs_kept_file [OF shrunk_agree [OF dd(2)]] grown_file [of d d1] g that
        by (auto simp: up_holds_def)
    qed
    with fq dd g show ?thesis by simp
  qed
  then show "up_done u'" "tmp_path u' = tmp_path u" "tmp_counter d' = tmp_counter d"
    "q \<noteq> tmp_path u \<Longrightarrow> file_bytes d' q = file_bytes d q"
    "up_holds u d cs \<Longrightarrow> dirs_kept d d'"
    by simp_all
qed

subsection \<open>What clients see\<close>

definition payload :: "store \<Rightarrow> disk \<Rightarrow> transaction_id \<Rightarrow> relative_path \<Rightarrow> byte list option" where
  "payload S d i p = file_bytes d (under p (files_dir S i))"

definition doc_path :: "store \<Rightarrow> transaction_id \<Rightarrow> document \<Rightarrow> fs_path" where
  "doc_path S i dc = transaction_dir S i @ [file_name dc]"

definition doc_text :: "store \<Rightarrow> disk \<Rightarrow> transaction_id \<Rightarrow> document \<Rightarrow> string option" where
  "doc_text S d i dc = map_option of_bytes (file_bytes d (doc_path S i dc))"

lemma in_tx_doc_path [simp]: "in_tx S i (doc_path S i dc)"
  by (simp add: doc_path_def)

lemma doc_path_not_tmp [simp]: "\<not> in_tmp S (doc_path S i dc)"
  by (rule in_tx_not_tmp [OF in_tx_doc_path])

lemma under_not_tmp [simp]: "\<not> in_tmp S (under p (files_dir S i))"
  by (rule in_tx_not_tmp [OF in_tx_under])

lemma doc_path_inject: "doc_path S i dc = doc_path S j dc' \<longleftrightarrow> i = j \<and> dc = dc'"
  by (cases dc; cases dc') (auto simp: doc_path_def transaction_dir_def)

lemma under_neq_doc_path [simp]: "under p (files_dir S i) \<noteq> doc_path S j dc"
proof
  assume e: "under p (files_dir S i) = doc_path S j dc"
  then have "in_tx S j (under p (files_dir S i))" by simp
  then have "i = j" by (rule in_tx_unique [OF in_tx_under])
  then show False using document_not_under e by (metis doc_path_def)
qed

lemma begin_write_dirs:
  assumes "begin_write S i f p d = (r, d')"
  shows "dirs_kept d d'"
  using assms
proof (cases rule: begin_write_cases)
  case (refused ec)
  then show ?thesis
    using fopen_wb_effect(2) [OF refused(2)] by (simp add: dirs_kept_tree)
next
  case opened
  then show ?thesis
    using fopen_wb_effect(3,4) [OF opened(2) refl] by (auto simp: dirs_kept_def is_directory_def)
qed simp

lemma upload_write_dirs:
  assumes "upload_write S u chunk d = (r, u', d')" "up_holds u d cs"
  shows "dirs_kept d d'"
  using assms upload_write_effect [OF assms(1)] by (auto simp: up_holds_def intro: dirs_kept_file)

lemma upload_drop_effect:
  shows "agree (\<lambda>q. q = tmp_path u) d (upload_drop u d)" "tmp_counter (upload_drop u d) = tmp_counter d"
proof -
  obtain u' d' where "upload_discard u d = (u', d')" by fastforce
  from upload_discard_effect [OF this] this
  show "agree (\<lambda>q. q = tmp_path u) d (upload_drop u d)" "tmp_counter (upload_drop u d) = tmp_counter d"
    by (simp_all add: upload_drop_def shrunk_agree)
qed

lemma upload_drop_done [simp]: "up_done u \<Longrightarrow> upload_drop u d = d"
  by (simp add: upload_drop_def)

lemma file_name_valid: "path_parse (file_name dc) = Inr (file_name dc)"
  by (cases dc) (simp_all add: path_eval)

lemma write_document_frame:
  assumes "write_document S i dc c d = (r, d')"
  shows "dirs_kept d d'" "tmp_counter d \<le> tmp_counter d'"
    "q \<noteq> tmp_dir S @ [tmp_name i (tmp_counter d)] \<Longrightarrow> file_bytes d' q =
       (if r = Inr () \<and> q = doc_path S i dc then Some (as_bytes c) else file_bytes d q)"
proof -
  obtain v d1 where b: "begin_write S i (doc_path S i dc) (file_name dc) d = (v, d1)" by fastforce
  have main: "dirs_kept d d' \<and> tmp_counter d \<le> tmp_counter d' \<and> (q \<noteq> tmp_dir S @ [tmp_name i (tmp_counter d)] \<longrightarrow> file_bytes d' q =
       (if r = Inr () \<and> q = doc_path S i dc then Some (as_bytes c) else file_bytes d q))"
  proof (cases v)
    case (Inl e)
    then have "d' = d1 \<and> r = Inl e"
      using assms b by (simp add: write_document_def file_name_valid doc_path_def)
    then show ?thesis
      using begin_write_agree [OF b] begin_write_dirs [OF b] agree_file by auto
  next
    case (Inr u)
    note o = begin_write_ok [OF b [unfolded Inr]]
    obtain w u2 d2 where wr: "upload_write S u (as_bytes c) d1 = (w, u2, d2)" by (metis prod_cases3)
    note we = upload_write_effect [OF wr]
    have t: "q \<noteq> tmp_dir S @ [tmp_name i (tmp_counter d)] \<Longrightarrow> q \<noteq> tmp_path u" for q using o(2) by auto
    have f1: "file_bytes d1 q = file_bytes d q" and f2: "file_bytes d2 q = file_bytes d1 q" if "q \<noteq> tmp_dir S @ [tmp_name i (tmp_counter d)]" for q
      using agree_file [OF o(7), of q] agree_file [of "\<lambda>q. q = tmp_path u" d1 d2 q] t [OF that] we by auto
    have k1: "dirs_kept d d2"
      using begin_write_dirs [OF b] upload_write_dirs [OF wr o(1)] dirs_kept_trans by blast
    show ?thesis
    proof (cases w)
      case (Inl e)
      then have "d' = d2 \<and> r = Inl e"
        using assms b wr Inr upload_write_fail [OF wr [unfolded Inl]]
        by (simp add: write_document_def file_name_valid doc_path_def)
      then show ?thesis using k1 f1 f2 we o(6) by simp
    next
      case w: (Inr y)
      obtain cs where cs: "up_holds u2 d2 cs" "concat cs = as_bytes c"
        using upload_write_ok [OF wr [unfolded w] o(1)] by auto
      obtain z u3 d3 where cm: "upload_commit S u2 None d2 = (z, u3, d3)" by (metis prod_cases3)
      have fin: "final_path u2 = doc_path S i dc" "tmp_path u2 = tmp_path u" using we o by auto
      show ?thesis
      proof (cases z)
        case (Inl e)
        note ce = upload_commit_fail [OF cm [unfolded Inl]]
        have "d' = d3 \<and> r = Inl e"
          using assms b wr Inr w cm Inl ce(1) by (simp add: write_document_def file_name_valid doc_path_def)
        then show ?thesis
          using dirs_kept_trans [OF k1 ce(5) [OF cs(1)]] f1 f2 we o(6) ce(3,4) t fin by simp
      next
        case z: (Inr sf)
        note ce = upload_commit_ok [OF cm [unfolded z] cs(1)]
        have "d' = d3 \<and> r = Inr ()"
          using assms b wr Inr w cm z ce(2) by (simp add: write_document_def file_name_valid doc_path_def)
        then show ?thesis
          using dirs_kept_trans [OF k1 ce(5)] f1 f2 we o(6) ce(4,6) t fin cs(2) by simp
      qed
    qed
  qed
  then show "dirs_kept d d'" "tmp_counter d \<le> tmp_counter d'" by blast+
  show "q \<noteq> tmp_dir S @ [tmp_name i (tmp_counter d)] \<Longrightarrow> file_bytes d' q =
       (if r = Inr () \<and> q = doc_path S i dc then Some (as_bytes c) else file_bytes d q)"
    using main by blast
qed

lemma write_document_effect:
  assumes "write_document S i dc c d = (r, d')"
  shows "dirs_kept d d'" "tmp_counter d \<le> tmp_counter d'"
    "\<not> in_tmp S q \<Longrightarrow> file_bytes d' q =
       (if r = Inr () \<and> q = doc_path S i dc then Some (as_bytes c) else file_bytes d q)"
  using write_document_frame [OF assms] in_tmp_name [of S "tmp_name i (tmp_counter d)"] by metis+

subsection \<open>Reading\<close>

definition same_disk :: "disk \<Rightarrow> disk \<Rightarrow> bool" where
  "same_disk d d' \<longleftrightarrow> tree d' = tree d \<and> tmp_counter d' = tmp_counter d"

lemma same_disk_refl [simp, intro]: "same_disk d d"
  by (simp add: same_disk_def)

lemma same_disk_trans: "same_disk d d' \<Longrightarrow> same_disk d' d'' \<Longrightarrow> same_disk d d''"
  by (simp add: same_disk_def)

lemma same_disk_views:
  assumes "same_disk d d'"
  shows "file_bytes d' = file_bytes d" "payload S d' = payload S d" "doc_text S d' = doc_text S d"
    "is_directory d' = is_directory d" "has_transaction S i d' = has_transaction S i d"
  using assms
  by (auto simp: same_disk_def file_bytes_def payload_def doc_text_def is_directory_def has_transaction_def
      fun_eq_iff)

lemma open_file_rb_effect:
  assumes "open_file_rb p s d = (r, d')"
  shows "same_disk d d'" "r = Inr n \<Longrightarrow> node_at d p = Some n"
proof -
  obtain x d1 where f: "fopen_rb p d = (x, d1)" by fastforce
  have "d' = d1 \<and> (r = Inr n \<longrightarrow> x = Inr n)"
    using assms f by (auto simp: open_file_rb_def split: sum.splits)
  then show "same_disk d d'" "r = Inr n \<Longrightarrow> node_at d p = Some n"
    using fopen_rb_effect [OF f] by (auto simp: same_disk_def)
qed

lemma open_read_effect:
  assumes "open_read S i p d = (r, d')"
  shows "same_disk d d'"
    "r = Inr dl \<Longrightarrow> \<exists>bs. payload S d i p = Some bs \<and> dl = \<lparr>dl_file = Some (File bs), dl_size = length bs\<rparr>"
proof -
  let ?q = "under p (files_dir S i)"
  obtain x d1 where f: "open_file_rb ?q p d = (x, d1)" by fastforce
  have "(d' = d \<or> d' = d1) \<and> (r = Inr dl \<longrightarrow> (\<exists>info n. stat S i p d = Inr info \<and> x = Inr n \<and>
      dl = \<lparr>dl_file = Some n, dl_size = fi_size info\<rparr>))"
    using assms f by (cases x) (auto simp: open_read_def split: sum.splits)
  then show "same_disk d d'"
    "r = Inr dl \<Longrightarrow> \<exists>bs. payload S d i p = Some bs \<and> dl = \<lparr>dl_file = Some (File bs), dl_size = length bs\<rparr>"
    using open_file_rb_effect [OF f]
    by (auto simp: stat_def payload_def file_bytes_def split: option.splits node.splits)
qed

lemma download_read_effect:
  assumes "download_read dl n d = (r, d')" "dl_file dl = Some (File bs)"
  shows "same_disk d d'"
    "r = Inr (cs, dl') \<Longrightarrow> cs = take n bs \<and> dl' = dl\<lparr>dl_file := Some (File (drop n bs))\<rparr>"
proof -
  obtain x d1 where f: "fread n (File bs) d = (x, d1)" by fastforce
  have "d' = d1 \<and> (r = Inr (cs, dl') \<longrightarrow> (\<exists>h. x = Inr (cs, h) \<and> dl' = dl\<lparr>dl_file := Some h\<rparr>))"
    using assms f by (auto simp: download_read_def split: sum.splits)
  then show "same_disk d d'"
    "r = Inr (cs, dl') \<Longrightarrow> cs = take n bs \<and> dl' = dl\<lparr>dl_file := Some (File (drop n bs))\<rparr>"
    using fread_effect [OF f] by (auto simp: same_disk_def)
qed

lemma hash_loop_effect:
  assumes "hash_loop S dl (Some cs) n d = (r, d')" "dl_file dl = Some (File bs)"
  shows "same_disk d d' \<and> (\<forall>n' h. r = Inr (n', h) \<longrightarrow>
    n' = n + length bs \<and> (\<exists>cs'. h = Some (cs @ cs') \<and> concat cs' = bs))"
  using assms
proof (induction "length bs" arbitrary: bs dl cs n d rule: less_induct)
  case less
  obtain x d1 where f: "download_read dl kChunkBytes d = (x, d1)" by fastforce
  note fe = download_read_effect [OF f less.prems(2)]
  show ?case
  proof (cases x)
    case (Inl e)
    then show ?thesis using less.prems(1) f fe(1) by (auto simp: hash_loop.simps)
  next
    case (Inr y)
    obtain c dl1 where y: "y = (c, dl1)" by fastforce
    have c: "c = take kChunkBytes bs" "dl1 = dl\<lparr>dl_file := Some (File (drop kChunkBytes bs))\<rparr>"
      using fe(2) [of c dl1] Inr y by auto
    show ?thesis
    proof (cases "bs = []")
      case True
      then show ?thesis using less.prems(1) f fe(1) Inr y c by (auto simp: hash_loop.simps)
    next
      case False
      then have ne: "c \<noteq> []" "length (drop kChunkBytes bs) < length bs"
        by (auto simp: c kChunkBytes_def)
      obtain v h where s: "sha_update (evp_of S) (Some cs) c = (v, h)" by fastforce
      show ?thesis
      proof (cases v)
        case (Inl e)
        then show ?thesis using less.prems(1) f fe(1) Inr y ne s by (auto simp: hash_loop.simps [of S dl])
      next
        case v: (Inr u)
        then have h: "h = Some (cs @ [c])" using s by (auto simp: sha_update_Inr)
        have l: "hash_loop S dl1 (Some (cs @ [c])) (n + length c) d1 = (r, d')"
          using less.prems(1) f Inr y ne s v h by (simp add: hash_loop.simps [of S dl])
        have ih: "same_disk d1 d' \<and> (\<forall>n' h. r = Inr (n', h) \<longrightarrow>
            n' = n + length c + length (drop kChunkBytes bs) \<and>
            (\<exists>cs'. h = Some ((cs @ [c]) @ cs') \<and> concat cs' = drop kChunkBytes bs))"
          by (rule less.hyps [OF ne(2) l]) (simp add: c)
        have ln: "length c + length (drop kChunkBytes bs) = length bs" by (simp add: c(1))
        show ?thesis
        proof (intro conjI allI impI)
          show "same_disk d d'" using fe(1) ih same_disk_trans by blast
          fix n' h assume r: "r = Inr (n', h)"
          then show "n' = n + length bs" using ih ln by simp
          obtain cs' where "h = Some ((cs @ [c]) @ cs')" "concat cs' = drop kChunkBytes bs"
            using ih r by blast
          then show "\<exists>cs'. h = Some (cs @ cs') \<and> concat cs' = bs"
            by (intro exI [of _ "c # cs'"]) (simp add: c(1))
        qed
      qed
    qed
  qed
qed

lemma hash_file_effect:
  assumes "hash_file S i p d = (r, d')"
  shows "same_disk d d'"
    "r = Inr sf \<Longrightarrow> \<exists>bs cs. payload S d i p = Some bs \<and> concat cs = bs \<and>
       evp_digest_final (evp_of S) cs = Some (sf_sha256 sf) \<and> length (sf_sha256 sf) = 32 \<and>
       sf_size sf = length bs \<and> sf_path sf = p"
proof -
  obtain x d1 where o: "open_read S i p d = (x, d1)" by fastforce
  note oe = open_read_effect [OF o]
  have "same_disk d d' \<and> (r = Inr sf \<longrightarrow> (\<exists>bs cs. payload S d i p = Some bs \<and> concat cs = bs \<and>
       evp_digest_final (evp_of S) cs = Some (sf_sha256 sf) \<and> length (sf_sha256 sf) = 32 \<and>
       sf_size sf = length bs \<and> sf_path sf = p))"
  proof (cases x)
    case (Inl e)
    then show ?thesis using assms o oe(1) by (auto simp: hash_file_def)
  next
    case (Inr dl)
    obtain bs where bs: "payload S d i p = Some bs" "dl_file dl = Some (File bs)"
      using oe(2) [OF Inr] by auto
    show ?thesis
    proof (cases "sha_create (evp_of S)")
      case (Inl e)
      then show ?thesis using assms o oe(1) Inr by (auto simp: hash_file_def)
    next
      case c: (Inr h)
      then have h: "h = Some []" by (simp add: sha_create_Inr)
      obtain y d2 where l: "hash_loop S dl (Some []) 0 d1 = (y, d2)" by fastforce
      note le = hash_loop_effect [OF l bs(2)]
      have "d' = d2" using assms o Inr c h l by (cases y) (auto simp: hash_file_def)
      then have "same_disk d d'" using le oe(1) same_disk_trans by blast
      moreover have "\<exists>bs cs. payload S d i p = Some bs \<and> concat cs = bs \<and>
          evp_digest_final (evp_of S) cs = Some (sf_sha256 sf) \<and> length (sf_sha256 sf) = 32 \<and>
          sf_size sf = length bs \<and> sf_path sf = p" if r: "r = Inr sf"
      proof -
        obtain n h' g where y: "y = Inr (n, h')" and g: "fst (sha_finish (evp_of S) h') = Inr g"
          and sf: "sf = \<lparr>sf_path = p, sf_size = n, sf_sha256 = g\<rparr>"
          using assms o Inr c h l r by (cases y) (auto simp: hash_file_def try_simps split: prod.splits)
        obtain cs where "h' = Some cs" "concat cs = bs" "n = length bs"
          using le y by auto
        moreover obtain h2 where "sha_finish (evp_of S) h' = (Inr g, h2)"
          using g by (metis prod.collapse)
        ultimately show ?thesis using bs(1) sf by (auto simp: sha_finish_Inr)
      qed
      ultimately show ?thesis by blast
    qed
  qed
  then show "same_disk d d'"
    "r = Inr sf \<Longrightarrow> \<exists>bs cs. payload S d i p = Some bs \<and> concat cs = bs \<and>
       evp_digest_final (evp_of S) cs = Some (sf_sha256 sf) \<and> length (sf_sha256 sf) = 32 \<and>
       sf_size sf = length bs \<and> sf_path sf = p"
    by blast+
qed

lemma doc_loop_effect:
  assumes "doc_loop name h out d = (r, d')"
  shows "same_disk d d' \<and> (\<forall>s. r = Inr s \<longrightarrow> (\<exists>bs. h = File bs \<and> s = of_bytes (out @ bs)))"
  using assms
proof (induction name h out d arbitrary: d' rule: doc_loop.induct)
  case (1 name h out d)
  obtain x d1 where f: "fread kDocBuf h d = (x, d1)" by fastforce
  note fe = fread_effect [OF f]
  have sd: "same_disk d d1" using fe by (simp add: same_disk_def)
  show ?case
  proof (cases x)
    case (Inl e)
    then show ?thesis using "1.prems" f sd by (auto simp: doc_loop.simps)
  next
    case (Inr y)
    obtain c h1 where y: "y = (c, h1)" by fastforce
    then obtain bs where bs: "h = File bs" "c = take kDocBuf bs" "h1 = File (drop kDocBuf bs)"
      using fe(3) [of c h1] Inr by auto
    show ?thesis
    proof (cases "length c < kDocBuf")
      case True
      then have "c = bs" using bs by (simp add: min_def split: if_splits)
      then show ?thesis using "1.prems" f sd True Inr y bs by (auto simp: doc_loop.simps)
    next
      case False
      then have l: "doc_loop name h1 (out @ c) d1 = (r, d')"
        using "1.prems" f Inr y by (simp add: doc_loop.simps [of name h])
      have "same_disk d1 d' \<and> (\<forall>s. r = Inr s \<longrightarrow> (\<exists>bs. h1 = File bs \<and> s = of_bytes ((out @ c) @ bs)))"
        by (rule "1.IH" [OF f [symmetric] Inr y [symmetric] False l])
      then show ?thesis
        using sd same_disk_trans bs by auto
    qed
  qed
qed

lemma read_document_effect:
  assumes "read_document S i dc d = (r, d')"
  shows "same_disk d d'" "r = Inr s \<Longrightarrow> doc_text S d i dc = Some s"
proof -
  obtain x d1 where o: "open_file_rb (doc_path S i dc) (file_name dc) d = (x, d1)" by fastforce
  note oe = open_file_rb_effect [OF o]
  have "same_disk d d' \<and> (r = Inr s \<longrightarrow> doc_text S d i dc = Some s)"
  proof (cases x)
    case (Inl e)
    then show ?thesis using assms o oe by (auto simp: read_document_def doc_path_def)
  next
    case (Inr h)
    then have l: "doc_loop (file_name dc) h [] d1 = (r, d')"
      using assms o by (simp add: read_document_def doc_path_def)
    show ?thesis
      using doc_loop_effect [OF l] oe(1) oe(2) [OF Inr] same_disk_trans
      by (auto simp: doc_text_def file_bytes_def)
  qed
  then show "same_disk d d'" "r = Inr s \<Longrightarrow> doc_text S d i dc = Some s" by blast+
qed

subsection \<open>Removing files and whole transactions\<close>

lemma drop_empty_dirs_effect:
  "shrunk (\<lambda>q. below q files \<and> node_at d q = Some Dir) d (drop_empty_dirs files dir d) \<and>
   tmp_counter (drop_empty_dirs files dir d) = tmp_counter d"
proof (induction files dir d rule: drop_empty_dirs.induct)
  case (1 files dir d)
  show ?case
  proof (cases "\<not> below dir files \<or> node_at d dir \<noteq> Some Dir \<or> \<not> is_empty_dir d dir")
    case True
    then show ?thesis by (simp add: drop_empty_dirs.simps)
  next
    case False
    obtain e d1 where f: "fs_remove dir d = (e, d1)" by fastforce
    note fe = fs_remove_shrunk(1,2) [OF f]
    have s1: "shrunk (\<lambda>q. below q files \<and> node_at d q = Some Dir) d d1"
      by (rule shrunk_mono [OF fe(1)]) (use False in auto)
    show ?thesis
    proof (cases e)
      case (Some c)
      then show ?thesis using False f s1 fe by (simp add: drop_empty_dirs.simps)
    next
      case None
      let ?d = "drop_empty_dirs files (butlast dir) d1"
      have ih: "shrunk (\<lambda>q. below q files \<and> node_at d1 q = Some Dir) d1 ?d \<and> tmp_counter ?d = tmp_counter d1"
        by (rule "1.IH" [OF False f [symmetric] None])
      have "shrunk (\<lambda>q. below q files \<and> node_at d q = Some Dir) d1 ?d"
      proof (rule shrunk_mono [of "\<lambda>q. below q files \<and> node_at d1 q = Some Dir"])
        show "shrunk (\<lambda>q. below q files \<and> node_at d1 q = Some Dir) d1 ?d" using ih by simp
        fix q assume q: "below q files \<and> node_at d1 q = Some Dir"
        show "below q files \<and> node_at d q = Some Dir"
          using q s1 unfolding shrunk_def by (metis option.distinct(1))
      qed
      then have "shrunk (\<lambda>q. below q files \<and> node_at d q = Some Dir) d ?d"
        by (rule shrunk_trans [OF s1])
      then show ?thesis using False f None ih fe(2) by (simp add: drop_empty_dirs.simps [of files dir])
    qed
  qed
qed

text \<open>The directories of a transaction that are there stay there.\<close>

definition tx_dirs_kept :: "store \<Rightarrow> transaction_id \<Rightarrow> disk \<Rightarrow> disk \<Rightarrow> bool" where
  "tx_dirs_kept S j d d' \<longleftrightarrow>
     (has_transaction S j d \<longrightarrow> has_transaction S j d') \<and>
     (is_directory d (transaction_dir S j) \<longrightarrow> is_directory d' (transaction_dir S j))"

lemma tx_dirs_kept_refl [simp, intro]: "tx_dirs_kept S j d d"
  by (simp add: tx_dirs_kept_def)

lemma tx_dirs_kept_trans: "tx_dirs_kept S j d d' \<Longrightarrow> tx_dirs_kept S j d' d'' \<Longrightarrow> tx_dirs_kept S j d d''"
  by (simp add: tx_dirs_kept_def)

lemma tx_dirs_keptI: "dirs_kept d d' \<Longrightarrow> tx_dirs_kept S j d d'"
  by (simp add: tx_dirs_kept_def dirs_kept_def has_transaction_def)

lemma remove_file_effect:
  assumes "remove_file S i p d = (r, d')"
  shows "tmp_counter d' = tmp_counter d" "tx_dirs_kept S j d d'"
    "file_bytes d' q = (if r = Inr () \<and> q = under p (files_dir S i) then None else file_bytes d q)"
    "r = Inr () \<Longrightarrow> \<exists>bs. payload S d i p = Some bs"
proof -
  let ?f = "files_dir S i" and ?p = "under p (files_dir S i)"
  have "tmp_counter d' = tmp_counter d \<and> tx_dirs_kept S j d d' \<and>
    file_bytes d' q = (if r = Inr () \<and> q = ?p then None else file_bytes d q) \<and>
    (r = Inr () \<longrightarrow> (\<exists>bs. payload S d i p = Some bs))"
  proof (cases "is_regular_file d ?p")
    case False
    then show ?thesis using assms by (auto simp: remove_file_def Let_def)
  next
    case True
    then obtain bs where bs: "file_bytes d ?p = Some bs" by (auto simp: is_regular_file_iff)
    obtain e d1 where f: "fs_remove ?p d = (e, d1)" by fastforce
    note fe = fs_remove_shrunk [OF f]
    show ?thesis
    proof (cases e)
      case (Some c)
      then show ?thesis
        using assms True f fe(2) fe(4)
        by (auto simp: remove_file_def Let_def file_bytes_def tx_dirs_kept_def has_transaction_def is_directory_def)
    next
      case None
      then have r: "r = Inr ()" and d': "d' = drop_empty_dirs ?f (butlast ?p) d1"
        using assms True f by (auto simp: remove_file_def Let_def)
      have s: "shrunk (\<lambda>q. below q ?f \<and> node_at d1 q = Some Dir) d1 d'" "tmp_counter d' = tmp_counter d1"
        using drop_empty_dirs_effect [of ?f d1 "butlast ?p"] d' by auto
      have gone: "file_bytes d1 ?p = None" using fe(3) None by (simp add: file_bytes_def)
      have keep: "file_bytes d' q = file_bytes d1 q" for q
      proof (cases "node_at d1 q = Some Dir")
        case True
        then show ?thesis using s(1) [unfolded shrunk_def, rule_format, of q]
          by (auto simp: file_bytes_def)
      next
        case False
        then show ?thesis using agree_file [OF shrunk_agree [OF s(1)], of q] by simp
      qed
      have dir: "is_directory d' x" if x: "is_directory d x" "\<not> below x ?f" for x
      proof -
        have "is_directory d1 x"
          using agree_dir [OF shrunk_agree [OF fe(1)], of x] bs x
          by (cases "x = ?p") (auto simp: is_directory_def file_bytes_def)
        then show ?thesis using agree_dir [OF shrunk_agree [OF s(1)], of x] x(2) by simp
      qed
      have "\<not> below (files_dir S j) ?f" "\<not> below (transaction_dir S j) ?f"
        by (auto simp: below_iff files_dir_simps transaction_dir_def transactions_dir_def)
      then have "tx_dirs_kept S j d d'"
        using dir by (auto simp: tx_dirs_kept_def has_transaction_def)
      then show ?thesis
        using r s(2) fe(2) keep [of q] gone agree_file [OF shrunk_agree [OF fe(1)], of q] bs
        by (auto simp: payload_def)
    qed
  qed
  then show "tmp_counter d' = tmp_counter d" "tx_dirs_kept S j d d'"
    "file_bytes d' q = (if r = Inr () \<and> q = under p (files_dir S i) then None else file_bytes d q)"
    "r = Inr () \<Longrightarrow> \<exists>bs. payload S d i p = Some bs"
    by blast+
qed

lemma create_transaction_effect:
  assumes "create_transaction S i d = (r, d')"
  shows "grown d d'" "tmp_counter d' = tmp_counter d"
    "r = Inr () \<Longrightarrow> has_transaction S i d' \<and> is_directory d' (transaction_dir S i) \<and>
       node_at d (transaction_dir S i) = None"
    "agree (in_tx S i) d d'"
proof -
  obtain e c d1 where m: "create_directory (transaction_dir S i) d = ((e, c), d1)" by (metis prod.collapse)
  obtain e2 c2 d2 where m2: "create_directory (files_dir S i) d1 = ((e2, c2), d2)" by (metis prod.collapse)
  note g = create_directory_grown [OF m] and g2 = create_directory_grown [OF m2]
  have t: "in_tx S i (transaction_dir S i)" "in_tx S i (files_dir S i)"
    by (simp_all add: in_tx_def files_dir_def)
  have a: "agree (in_tx S i) d d1" "agree (in_tx S i) d1 d2"
    using t by (auto intro: agree_mono [OF g(2)] agree_mono [OF g2(2)])
  have d': "d' = d1 \<or> d' = d2" and ok: "r = Inr () \<Longrightarrow> e = None \<and> c \<and> e2 = None \<and> d' = d2"
    using assms m m2 by (auto simp: create_transaction_def split: option.splits if_splits)
  show "grown d d'" "tmp_counter d' = tmp_counter d"
    using d' g(1,3) g2(1,3) grown_trans by auto
  show "agree (in_tx S i) d d'"
    using d' a agree_trans by auto
  assume r: "r = Inr ()"
  have "is_directory d1 (transaction_dir S i)" "node_at d (transaction_dir S i) = None"
    "is_directory d2 (files_dir S i)"
    using create_directory_ok [of "transaction_dir S i" d c d1] m create_directory_ok [of "files_dir S i" d1 c2 d2] m2
      ok [OF r] by auto
  then show "has_transaction S i d' \<and> is_directory d' (transaction_dir S i) \<and>
       node_at d (transaction_dir S i) = None"
    using ok [OF r] grown_dir [OF g2(1)] by (simp add: has_transaction_def)
qed

lemma remove_transaction_effect:
  assumes "remove_transaction S i d = (r, d')"
  shows "shrunk (in_tx S i) d d'" "tmp_counter d' = tmp_counter d"
    "r = Inr () \<Longrightarrow> in_tx S i q \<Longrightarrow> node_at d' q = None"
    "r \<noteq> Inr () \<Longrightarrow> is_directory d (transaction_dir S i) \<Longrightarrow> is_directory d' (transaction_dir S i)"
proof -
  obtain e n d1 where m: "remove_all (transaction_dir S i) d = ((e, n), d1)" by (metis prod.collapse)
  note f = remove_all_shrunk [OF m]
  have d': "d' = d1" and ok: "r = Inr () \<Longrightarrow> e = None"
    using assms m by (auto simp: remove_transaction_def split: option.splits if_splits)
  show "shrunk (in_tx S i) d d'" "tmp_counter d' = tmp_counter d"
    using f(1,2) unfolding d' in_tx_def by simp_all
  show "r = Inr () \<Longrightarrow> in_tx S i q \<Longrightarrow> node_at d' q = None"
    using f(3) [of q] ok by (simp add: d' in_tx_def)
  show "is_directory d' (transaction_dir S i)" if "r \<noteq> Inr ()" "is_directory d (transaction_dir S i)"
  proof (cases e)
    case None
    then have "n = 0" using assms m that(1) by (auto simp: remove_transaction_def split: if_splits)
    then show ?thesis using f(4) that(2) by (auto simp: is_directory_def)
  next
    case (Some c)
    then show ?thesis using remove_all_failed m that(2) by (simp add: d' is_directory_def)
  qed
qed

lemma walk_effect: "walk n d = (r, d') \<Longrightarrow> same_disk d d'"
proof (induction n arbitrary: d)
  case (Suc n)
  obtain e d1 where f: "fs_sync d = (e, d1)" by fastforce
  then show ?case
    using Suc fs_sync_effect [OF f] same_disk_trans by (cases e) (auto simp: same_disk_def)
qed simp

lemma list_transactions_effect:
  assumes "list_transactions S d = (r, d')"
  shows "same_disk d d'"
    "r = Inr ids \<Longrightarrow> sorted ids \<and> distinct ids \<and>
       (\<forall>i. i \<in> set ids \<longleftrightarrow> valid_id i \<and> is_directory d (transaction_dir S i))"
proof -
  let ?T = "transactions_dir S"
  have "same_disk d d' \<and> (r = Inr ids \<longrightarrow> ids = sort (filter (\<lambda>n. is_directory d (?T @ [n]) \<and> is_ok (id_parse n))
      (children ?T d)))"
    using assms by (auto simp: list_transactions_def Let_def simp del: walk.simps dest: walk_effect
        split: if_splits prod.splits option.splits)
  then have sd: "same_disk d d'" and r: "r = Inr ids \<Longrightarrow> ids = sort (filter (\<lambda>n. is_directory d (?T @ [n]) \<and> is_ok (id_parse n))
      (children ?T d))"
    by blast+
  show "same_disk d d'" by (rule sd)
  have mem: "n \<in> set (children ?T d) \<longleftrightarrow> node_at d (?T @ [n]) \<noteq> None" for n
  proof
    assume "n \<in> set (children ?T d)"
    then obtain q where "q \<in> fst ` set (tree d)" "q \<noteq> []" "butlast q = ?T" "n = last q"
      by (auto simp: children_def)
    then show "node_at d (?T @ [n]) \<noteq> None"
      by (metis append_butlast_last_id map_of_eq_None_iff)
  next
    assume "node_at d (?T @ [n]) \<noteq> None"
    then have "?T @ [n] \<in> fst ` set (tree d)" by (simp add: map_of_eq_None_iff)
    then show "n \<in> set (children ?T d)"
      by (force simp: children_def intro!: image_eqI [of n last "?T @ [n]"])
  qed
  have dist: "distinct (children ?T d)"
    unfolding children_def distinct_map
    by (auto intro!: inj_onI) (metis append_butlast_last_id)
  have ok: "is_ok (id_parse n) \<longleftrightarrow> valid_id n" for n
    by (auto simp: is_ok_iff id_parse_Inr)
  show "sorted ids \<and> distinct ids \<and>
      (\<forall>i. i \<in> set ids \<longleftrightarrow> valid_id i \<and> is_directory d (transaction_dir S i))" if "r = Inr ids"
    using r [OF that] dist mem ok by (auto simp: is_directory_def transaction_dir_def)
qed

end
