(* ===== verification/Storage_Contract.thy ===== *)
theory Storage_Contract
  imports Storage_Proofs
begin

section \<open>Contracts of the file store\<close>

text \<open>
  The interface the transaction layer relies on, as locales, with the store as their
  instance: atomic documents (\<open>doc_store\<close>) and the promises about payload files. Also the
  listing of a transaction's files, whole uploads, and that operations succeed when the
  disk has no fault.
\<close>

subsection \<open>Interface: atomic documents\<close>

text \<open>
  A store of one text per key. A write either replaces the text or leaves it, never touches
  another key, and a read returns what is there.
\<close>

locale doc_store =
  fixes put :: "'k \<Rightarrow> string \<Rightarrow> 'd \<Rightarrow> unit result \<times> 'd"
    and get :: "'k \<Rightarrow> 'd \<Rightarrow> string result \<times> 'd"
    and doc :: "'d \<Rightarrow> 'k \<Rightarrow> string option"
  assumes put_ok: "put k c d = (Inr u, d') \<Longrightarrow> doc d' k = Some c"
    and put_fail: "put k c d = (Inl e, d') \<Longrightarrow> doc d' k = doc d k"
    and put_other: "put k c d = (r, d') \<Longrightarrow> j \<noteq> k \<Longrightarrow> doc d' j = doc d j"
    and get_ok: "get k d = (Inr c, d') \<Longrightarrow> doc d k = Some c"
    and get_frame: "get k d = (s, d') \<Longrightarrow> doc d' = doc d"
begin

text \<open>A write followed by a read.\<close>

lemma get_after_put:
  "put k c d = (Inr u, d1) \<Longrightarrow> get k d1 = (Inr c', d2) \<Longrightarrow> c' = c"
  using put_ok get_ok by fastforce

lemma put_doc:
  "put k c d = (r, d') \<Longrightarrow> doc d' = (if is_ok r then (doc d)(k \<mapsto> c) else doc d)"
proof (rule ext)
  fix j assume w: "put k c d = (r, d')"
  show "doc d' j = (if is_ok r then (doc d)(k \<mapsto> c) else doc d) j"
    using put_ok [of k c d _ d'] put_fail [of k c d _ d'] put_other [OF w] w
    by (cases r; cases "j = k") auto
qed

text \<open>A sequence of writes leaves, for each key, the last text that was accepted.\<close>

fun put_all :: "('k \<times> string) list \<Rightarrow> 'd \<Rightarrow> bool list \<times> 'd" where
  "put_all [] d = ([], d)"
| "put_all ((k, c) # ws) d =
     (let (r, d1) = put k c d; (rs, d2) = put_all ws d1 in (is_ok r # rs, d2))"

lemma put_all_doc:
  "put_all ws d = (rs, d') \<Longrightarrow>
   doc d' = foldl (\<lambda>m ((k, c), b). if b then m(k \<mapsto> c) else m) (doc d) (zip ws rs)"
proof (induction ws arbitrary: d rs d')
  case (Cons w ws)
  obtain k c where w: "w = (k, c)" by fastforce
  obtain r d1 where r: "put k c d = (r, d1)" by fastforce
  obtain rs' d2 where rs: "put_all ws d1 = (rs', d2)" by fastforce
  show ?case
    using Cons.IH [OF rs] Cons.prems w r rs put_doc [OF r] by auto
qed auto

end

text \<open>The documents of a store satisfy the interface, whatever faults the disk has.\<close>

interpretation docs: doc_store
  "\<lambda>(i, dc) c d. write_document S i dc c d" "\<lambda>(i, dc) d. read_document S i dc d"
  "\<lambda>d (i, dc). doc_text S d i dc" for S
proof (unfold_locales, goal_cases)
  case (1 k c d u d')
  then show ?case
    using write_document_effect(3) [of S "fst k" "snd k" c d "Inr u" d' "doc_path S (fst k) (snd k)"]
    by (auto simp: doc_text_def split: prod.splits)
next
  case (2 k c d e d')
  then show ?case
    using write_document_effect(3) [of S "fst k" "snd k" c d "Inl e" d' "doc_path S (fst k) (snd k)"]
    by (auto simp: doc_text_def split: prod.splits)
next
  case (3 k c d r d' j)
  then show ?case
    using write_document_effect(3) [of S "fst k" "snd k" c d r d' "doc_path S (fst j) (snd j)"]
    by (cases k; cases j) (auto simp: doc_text_def doc_path_inject split: if_splits)
next
  case (4 k d c d')
  then show ?case
    using read_document_effect(2) [of S "fst k" "snd k" d "Inr c" d' c] by (auto split: prod.splits)
next
  case (5 k d s d')
  then have "same_disk d d'"
    using read_document_effect(1) [of S "fst k" "snd k" d s d'] by (auto split: prod.splits)
  then show ?case by (simp add: same_disk_views)
qed

subsection \<open>Whole uploads\<close>

text \<open>The chunks of a request body, written one after the other until one fails.\<close>

fun upload_chunks :: "store \<Rightarrow> byte list list \<Rightarrow> upload \<Rightarrow> disk \<Rightarrow> unit result \<times> upload \<times> disk" where
  "upload_chunks S [] u d = (Inr (), u, d)"
| "upload_chunks S (c # cs) u d =
     (case upload_write S u c d of
        (Inl e, u, d) \<Rightarrow> (Inl e, u, d)
      | (Inr _, u, d) \<Rightarrow> upload_chunks S cs u d)"

lemma upload_chunks_effect:
  assumes "upload_chunks S cs u d = (r, u', d')" "up_holds u d hs"
  shows "tmp_path u' = tmp_path u \<and> final_path u' = final_path u \<and> up_path u' = up_path u \<and>
    agree (\<lambda>q. q = tmp_path u) d d' \<and> tmp_counter d' = tmp_counter d \<and> dirs_kept d d' \<and>
    (if is_ok r then \<exists>hs'. up_holds u' d' hs' \<and> concat hs' = concat hs @ concat cs else up_done u')"
  using assms
proof (induction cs arbitrary: u d hs)
  case (Cons c cs)
  obtain w u1 d1 where w: "upload_write S u c d = (w, u1, d1)" by (metis prod_cases3)
  note e = upload_write_effect [OF w] and k = upload_write_dirs [OF w Cons.prems(2)]
  show ?case
  proof (cases w)
    case (Inl x)
    then show ?thesis using Cons.prems w e k upload_write_fail [OF w [unfolded Inl]] by auto
  next
    case (Inr x)
    then obtain hs1 where h: "up_holds u1 d1 hs1" "concat hs1 = concat hs @ c"
      using upload_write_ok [OF w [unfolded Inr] Cons.prems(2)] by auto
    have "upload_chunks S cs u1 d1 = (r, u', d')" using Cons.prems(1) w Inr by simp
    from Cons.IH [OF this h(1)] show ?thesis
      using e k h(2) agree_trans [of "\<lambda>q. q = tmp_path u" d d1 d'] dirs_kept_trans [OF k]
      by auto
  qed
qed auto

text \<open>C7. An upload is all or nothing (NFR-6), on every disk and for every schedule of faults: opening it,
  writing any chunks and committing either stores exactly the bytes sent, with their size and
  digest and with the digest the client announced, or leaves every file of every transaction
  as it was.\<close>

theorem upload_all_or_nothing:
  assumes "evp_sound (evp_of S) sha"
    and "begin_upload S i p d = (Inr u, d1)" "upload_chunks S cs u d1 = (r, u2, d2)"
    and "upload_commit S u2 expected d2 = (result, u3, d3)"
  shows "(case result of
      Inr sf \<Rightarrow> is_ok r \<and> payload S d3 i p = Some (concat cs) \<and>
        sf = \<lparr>sf_path = p, sf_size = length (concat cs), sf_sha256 = sha (concat cs)\<rparr> \<and>
        (expected = None \<or> expected = Some (sha (concat cs)))
    | Inl e \<Rightarrow> payload S d3 i p = payload S d i p) \<and>
    (\<forall>q. \<not> in_tmp S q \<and> q \<noteq> under p (files_dir S i) \<longrightarrow> file_bytes d3 q = file_bytes d q)"
proof -
  let ?f = "under p (files_dir S i)"
  note b = begin_write_ok [OF assms(2) [unfolded begin_upload_def]]
  note c = upload_chunks_effect [OF assms(3) b(1)]
  have t: "\<not> in_tmp S q \<Longrightarrow> q \<noteq> tmp_path u" for q using b(2) by auto
  have f2: "file_bytes d2 q = file_bytes d q" if "\<not> in_tmp S q" for q
    using agree_file [OF b(7), of q] agree_file [of "\<lambda>q. q = tmp_path u" d1 d2 q] c t [OF that] by auto
  have fin: "final_path u2 = ?f" "tmp_path u2 = tmp_path u" "up_path u2 = p" using b c by auto
  show ?thesis
  proof (cases result)
    case (Inl e)
    note x = upload_commit_fail(4) [OF assms(4) [unfolded Inl]]
    show ?thesis using x f2 t fin Inl by (simp add: payload_def)
  next
    case (Inr sf)
    have nd: "\<not> up_done u2" using assms(4) Inr by (auto simp: upload_commit_def split: if_splits)
    then obtain hs where hs: "up_holds u2 d2 hs" "concat hs = concat cs" and ok: "is_ok r"
      using c by (auto split: if_splits)
    note x = upload_commit_ok [OF assms(4) [unfolded Inr] hs(1)]
    obtain g where g: "evp_digest_final (evp_of S) hs = Some g" "expected = None \<or> expected = Some g"
      "sf = \<lparr>sf_path = p, sf_size = length (concat cs), sf_sha256 = g\<rparr>"
      using x(1) fin(3) hs(2) by auto
    have "g = sha (concat cs)" using g(1) assms(1) hs(2) by (metis evp_sound_def)
    then show ?thesis
      using x(6) f2 t fin Inr g ok hs(2) by (auto simp: payload_def)
  qed
qed

text \<open>A disk with one transaction, on which the facts are shown to apply.\<close>

definition sample_store :: store where
  "sample_store = \<lparr>root = [''/'', ''d''], evp_of = sample_evp\<rparr>"

definition sample_tree :: "(fs_path \<times> node) list" where
  "sample_tree =
     [([''/''], Dir), ([''/'', ''d''], Dir), ([''/'', ''d'', ''tmp''], Dir),
      ([''/'', ''d'', ''transactions''], Dir), ([''/'', ''d'', ''transactions'', sample_id], Dir),
      ([''/'', ''d'', ''transactions'', sample_id, ''files''], Dir)]"

definition sample_disk :: disk where
  "sample_disk = \<lparr>tree = sample_tree, faults = [], tmp_counter = 0\<rparr>"

definition sample_upload :: upload where
  "sample_upload =
     \<lparr>hasher = Some [], tmp_path = [''/'', ''d'', ''tmp'', sample_id @ ''-0.part''],
      final_path = [''/'', ''d'', ''transactions'', sample_id, ''files'', ''a''], up_path = ''a'',
      up_size = 0, up_done = False\<rparr>"

definition sample_disk1 :: disk where
  "sample_disk1 = \<lparr>tree = sample_tree @ [([''/'', ''d'', ''tmp'', sample_id @ ''-0.part''], File [])],
     faults = [], tmp_counter = 1\<rparr>"

definition sample_disk2 :: disk where
  "sample_disk2 = \<lparr>tree = sample_tree @ [([''/'', ''d'', ''tmp'', sample_id @ ''-0.part''], File [1, 2])],
     faults = [], tmp_counter = 1\<rparr>"

definition sample_disk3 :: disk where
  "sample_disk3 = \<lparr>tree = sample_tree @ [([''/'', ''d'', ''transactions'', sample_id, ''files'', ''a''], File [1, 2])],
     faults = [], tmp_counter = 1\<rparr>"

lemmas sample_defs = sample_store_def sample_id_def sample_tree_def sample_disk_def sample_upload_def
  sample_disk1_def sample_disk2_def sample_disk3_def sample_evp_def

lemmas disk_defs = next_fault_def syscall_def is_directory_def is_regular_file_def set_node_def
  drop_node_def fs_sync_def sync_file_def fopen_wb_def open_file_wb_def fwrite_def append_file_def
  rename_def create_directories_def create_directory_def

lemmas store_defs = tmp_dir_def files_dir_def transaction_dir_def transactions_dir_def kTmpDir_def
  kFilesDir_def kTransactionsDir_def

lemma sample_begin:
  "begin_upload sample_store sample_id ''a'' sample_disk = (Inr sample_upload, sample_disk1)"
  by (simp add: sample_defs begin_upload_def begin_write_def has_transaction_def next_tmp_name_def
      tmp_name_def dec_0 Let_def under_def path_elems_def disk_defs store_defs sha_create_def)

lemma sample_chunks:
  "upload_chunks sample_store [[1], [2]] sample_upload sample_disk1 =
     (Inr (), sample_upload\<lparr>hasher := Some [[1], [2]], up_size := 2\<rparr>, sample_disk2)"
  by (simp add: sample_defs upload_write_def sha_update_def disk_defs)

lemma sample_commit:
  "upload_commit sample_store (sample_upload\<lparr>hasher := Some [[1], [2]], up_size := 2\<rparr>) None sample_disk2 =
     (Inr \<lparr>sf_path = ''a'', sf_size = 2, sf_sha256 = sample_sha [1, 2]\<rparr>,
      sample_upload\<lparr>hasher := Some [], up_size := 2, up_done := True\<rparr>, sample_disk3)"
  by (simp add: sample_defs upload_commit_def upload_finish_def upload_publish_def sha_finish_def kSize_def
      disk_defs)

theorem upload_all_or_nothing_witness:
  "payload sample_store sample_disk3 sample_id ''a'' = Some [1, 2]"
proof -
  have "evp_sound (evp_of sample_store) sample_sha"
    by (simp add: sample_store_def sample_evp_sound)
  from upload_all_or_nothing [OF this sample_begin sample_chunks sample_commit] show ?thesis
    by simp
qed

text \<open>C23. Documents are replaced atomically: after \<open>write_document\<close> the document holds the new text if the
  call succeeded and its old text otherwise; no other document and no payload file changes.\<close>

theorem write_document_atomic:
  "doc_text S (snd (write_document S i dc c d)) j dc' =
     (if is_ok (fst (write_document S i dc c d)) \<and> j = i \<and> dc' = dc then Some c else doc_text S d j dc') \<and>
   payload S (snd (write_document S i dc c d)) j p = payload S d j p"
proof -
  obtain r d' where w: "write_document S i dc c d = (r, d')" by fastforce
  have "doc_text S d' j dc' = (if is_ok r \<and> j = i \<and> dc' = dc then Some c else doc_text S d j dc')"
    using docs.put_doc [of S "(i, dc)" c d r d'] w by (auto dest: fun_cong [of _ _ "(j, dc')"])
  moreover have "payload S d' j p = payload S d j p"
    using write_document_effect(3) [OF w, of "under p (files_dir S j)"] by (simp add: payload_def)
  ultimately show ?thesis by (simp add: w)
qed

subsection \<open>Progress on a disk without faults\<close>

definition quiet :: "disk \<Rightarrow> bool" where
  "quiet d \<longleftrightarrow> faults d = []"

lemma quiet_next_fault [simp]: "quiet d \<Longrightarrow> next_fault d = (None, d)"
  by (simp add: quiet_def next_fault_def)

lemma quiet_simps [simp]:
  "quiet (set_node p n d) = quiet d" "quiet (drop_node p d) = quiet d"
  "quiet (d\<lparr>tmp_counter := k\<rparr>) = quiet d" "quiet (append_file p bs d) = quiet d"
  by (auto simp: quiet_def append_file_def split: option.splits node.splits)

lemma quiet_syscalls [simp]:
  assumes "quiet d"
  shows "syscall d k = k d" "fs_sync d = (None, d)" "sync_file s d = (Inr (), d)"
    "fwrite p bs d = (None, append_file p bs d)"
  using assms by (simp_all add: syscall_def fs_sync_def sync_file_def fwrite_def)

lemma evp_total_sha:
  assumes "evp_total E"
  shows "sha_create E = Inr (Some [])" "sha_update E (Some h) c = (Inr (), Some (h @ [c]))"
    "\<exists>g. sha_finish E (Some h) = (Inr g, Some [])"
proof -
  show "sha_create E = Inr (Some [])" "sha_update E (Some h) c = (Inr (), Some (h @ [c]))"
    using assms by (simp_all add: evp_total_def sha_create_def sha_update_def)
  obtain g where "evp_digest_final E h = Some g" "length g = 32"
    using assms unfolding evp_total_def by blast
  then show "\<exists>g. sha_finish E (Some h) = (Inr g, Some [])"
    using assms by (simp add: evp_total_def sha_finish_def kSize_def)
qed

lemma create_directories_exists: "is_directory d p \<Longrightarrow> p \<noteq> [] \<Longrightarrow> create_directories p d = (None, d)"
  by (auto simp: create_directories_def is_directory_def is_regular_file_def split: option.splits)

text \<open>Opening an upload, and committing one whose place is free, succeed.\<close>

lemma begin_write_quiet:
  assumes "quiet d" "evp_total (evp_of S)" "has_transaction S i d" "is_directory d (tmp_dir S)"
    and "\<not> is_directory d (tmp_dir S @ [tmp_name i (tmp_counter d)])"
  shows "\<exists>u d'. begin_write S i f p d = (Inr u, d') \<and> quiet d'"
  using assms evp_total_sha(1) [OF assms(2)]
  by (auto simp: begin_write_def next_tmp_name_def open_file_wb_def fopen_wb_def Let_def is_directory_def)

lemma upload_write_quiet:
  assumes "quiet d" "evp_total (evp_of S)" "up_holds u d cs"
  shows "\<exists>u' d'. upload_write S u c d = (Inr (), u', d') \<and> quiet d'"
  using assms evp_total_sha(2) [OF assms(2)] by (auto simp: upload_write_def up_holds_def)

lemma upload_commit_quiet:
  assumes "quiet d" "evp_total (evp_of S)" "up_holds u d cs"
    and "is_directory d (butlast (final_path u))" "\<not> is_directory d (final_path u)"
    and "butlast (final_path u) \<noteq> []"
  shows "\<exists>sf u' d'. upload_commit S u None d = (Inr sf, u', d')"
proof -
  obtain g where g: "sha_finish (evp_of S) (hasher u) = (Inr g, Some [])"
    using evp_total_sha(3) [OF assms(2)] assms(3) by (auto simp: up_holds_def)
  show ?thesis
    using assms g create_directories_exists [OF assms(4,6)]
    by (auto simp: upload_commit_def up_holds_def upload_finish_def upload_publish_def rename_def
        file_bytes_Some)
qed

text \<open>On a disk without faults and with a working OpenSSL, writing a document of an existing
  transaction succeeds.\<close>

theorem write_document_succeeds:
  assumes "quiet d" "evp_total (evp_of S)" "has_transaction S i d" "is_directory d (tmp_dir S)"
    and "is_directory d (transaction_dir S i)" "\<not> is_directory d (doc_path S i dc)"
    and "\<not> is_directory d (tmp_dir S @ [tmp_name i (tmp_counter d)])"
  shows "is_ok (fst (write_document S i dc c d))"
proof -
  obtain u d1 where b: "begin_write S i (doc_path S i dc) (file_name dc) d = (Inr u, d1)" "quiet d1"
    using begin_write_quiet [OF assms(1-4,7)] by blast
  note o = begin_write_ok [OF b(1)]
  obtain u2 d2 where w: "upload_write S u (as_bytes c) d1 = (Inr (), u2, d2)" "quiet d2"
    using upload_write_quiet [OF b(2) assms(2) o(1)] by blast
  note we = upload_write_effect [OF w(1)]
  obtain cs where cs: "up_holds u2 d2 cs" using upload_write_ok [OF w(1) o(1)] by blast
  have k: "dirs_kept d d2"
    using begin_write_dirs [OF b(1)] upload_write_dirs [OF w(1) o(1)] dirs_kept_trans by blast
  have ne: "q \<noteq> tmp_path u" if "\<not> in_tmp S q" for q using that o(2) by auto
  have fin: "final_path u2 = doc_path S i dc" using we o by simp
  have same: "is_directory d2 q = is_directory d q" if "\<not> in_tmp S q" for q
    using agree_dir [OF o(7), of q] agree_dir [of "\<lambda>q. q = tmp_path u" d1 d2 q] we ne [OF that] by simp
  have bl: "butlast (doc_path S i dc) = transaction_dir S i" "transaction_dir S i \<noteq> []"
    by (simp add: doc_path_def, simp add: transaction_dir_def)
  have "is_directory d2 (transaction_dir S i)"
    using k assms(5) by (simp add: dirs_kept_def)
  then have dirs: "is_directory d2 (butlast (final_path u2))" "\<not> is_directory d2 (final_path u2)"
    "butlast (final_path u2) \<noteq> []"
    using assms(6) same [of "doc_path S i dc"] bl by (simp_all add: fin)
  obtain sf u3 d3 where "upload_commit S u2 None d2 = (Inr sf, u3, d3)"
    using upload_commit_quiet [OF w(2) assms(2) cs dirs] by blast
  then show ?thesis
    using b w by (simp add: write_document_def file_name_valid doc_path_def)
qed

theorem write_document_succeeds_witness:
  "is_ok (fst (write_document sample_store sample_id Meta ''{}'' sample_disk))"
  by (rule write_document_succeeds)
    (simp_all add: quiet_def sample_disk_def sample_store_def sample_evp_total has_transaction_def
      is_directory_def sample_tree_def store_defs doc_path_def tmp_name_def dec_0)

subsection \<open>Listing the files of a transaction\<close>

definition entry_of :: "fs_path \<Rightarrow> disk \<Rightarrow> fs_path \<Rightarrow> file_info list" where
  "entry_of files d q =
     (case (file_bytes d q, from_local files q) of
        (Some bs, Inr rel) \<Rightarrow> [\<lparr>fi_path = rel, fi_size = length bs\<rparr>]
      | _ \<Rightarrow> [])"

lemma entry_same: "same_disk d d' \<Longrightarrow> entry_of files d' = entry_of files d"
  by (simp add: same_disk_views(1) entry_of_def fun_eq_iff)

lemma list_loop_effect:
  assumes "list_loop files i qs out d = (r, d')"
  shows "same_disk d d' \<and> (\<forall>fs. r = Inr fs \<longrightarrow>
    fs = sort_key fi_path (out @ concat (map (entry_of files d) qs)))"
  using assms
proof (induction qs arbitrary: out d)
  case (Cons q qs)
  obtain e d1 where s: "fs_sync d = (e, d1)" by fastforce
  note t = fs_sync_effect [OF s]
  have sd: "same_disk d d1" using t by (simp add: same_disk_def)
  have en: "entry_of files d1 = entry_of files d"
    by (rule entry_same [OF sd])
  show ?case
  proof (cases "\<exists>bs x. node_at d q = Some (File bs) \<and> from_local files q = Inl x")
    case True
    then show ?thesis using Cons.prems by auto
  next
    case False
    show ?thesis
    proof (cases e)
      case (Some ec)
      then show ?thesis using Cons.prems False s sd
        by (auto simp: Let_def split: option.splits node.splits sum.splits)
    next
      case None
      then have "list_loop files i qs (out @ entry_of files d q) d1 = (r, d')"
        using Cons.prems False s
        by (auto simp: Let_def entry_of_def file_bytes_def split: option.splits node.splits sum.splits)
      from Cons.IH [OF this] show ?thesis
        using same_disk_trans [OF sd] by (auto simp: en)
    qed
  qed
qed auto

lemma valid_id_plain: "valid_id i \<Longrightarrow> plain_name i \<and> i \<noteq> ''/''"
  using valid_id_length [of i] by (auto simp: plain_name_def)

text \<open>Every file in the transaction's folder lies at a path that \<open>parse\<close> accepts.\<close>

definition files_named :: "store \<Rightarrow> transaction_id \<Rightarrow> disk \<Rightarrow> bool" where
  "files_named S i d \<longleftrightarrow> (\<forall>q bs. below q (files_dir S i) \<longrightarrow> file_bytes d q = Some bs \<longrightarrow>
     (\<exists>p. valid_path p \<and> q = under p (files_dir S i)))"

lemma from_local_files:
  "valid_path p \<Longrightarrow> from_local (files_dir S i) (under p (files_dir S i)) = Inr p"
  using from_local_under [of p kFilesDir "transaction_dir S i"]
  by (simp add: files_dir_def plain_name_def kFilesDir_def)

lemma under_inject:
  assumes "valid_path p" "valid_path q" "under p (files_dir S i) = under q (files_dir S i)"
  shows "p = q"
proof -
  have "from_local (files_dir S i) (under p (files_dir S i)) = Inr q"
    unfolding assms(3) by (rule from_local_files [OF assms(2)])
  then show ?thesis
    unfolding from_local_files [OF assms(1)] by simp
qed

text \<open>Listing a transaction's files is exact: a successful \<open>list_files\<close> returns every payload file
  once, with its size, in the order of the paths, and nothing else.\<close>

theorem list_files_exact:
  assumes "list_files S i d = (Inr fs, d')" "files_named S i d"
  shows "sorted (map fi_path fs) \<and> distinct (map fi_path fs) \<and>
    (\<forall>p n. \<lparr>fi_path = p, fi_size = n\<rparr> \<in> set fs \<longleftrightarrow>
       valid_path p \<and> (\<exists>bs. payload S d i p = Some bs \<and> n = length bs))"
proof -
  let ?F = "files_dir S i"
  let ?qs = "filter (\<lambda>q. below q ?F) (remdups (map fst (tree d)))"
  obtain d1 where "list_loop ?F i ?qs [] d1 = (Inr fs, d')" "same_disk d d1"
    using assms(1) by (auto simp: list_files_def Let_def same_disk_def dest: fs_sync_effect
        split: if_splits prod.splits option.splits)
  then have fs: "fs = sort_key fi_path (concat (map (entry_of ?F d) ?qs))"
    using list_loop_effect [of ?F i ?qs "[]" d1 "Inr fs" d'] entry_same [of d d1] by simp
  have mem: "\<lparr>fi_path = p, fi_size = n\<rparr> \<in> set (entry_of ?F d q) \<longleftrightarrow>
      valid_path p \<and> q = under p ?F \<and> (\<exists>bs. file_bytes d q = Some bs \<and> n = length bs)" if "below q ?F" for p n q
  proof -
    have fl: "from_local ?F q = Inr p' \<longleftrightarrow> valid_path p' \<and> q = under p' ?F" if fb: "file_bytes d q = Some bs" for bs p'
    proof -
      obtain p0 where p0: "valid_path p0" "q = under p0 ?F"
        using assms(2) \<open>below q ?F\<close> fb unfolding files_named_def by blast
      have l: "from_local ?F q = Inr p0" unfolding p0(2) by (rule from_local_files [OF p0(1)])
      show ?thesis
      proof
        assume "from_local ?F q = Inr p'"
        then have "p' = p0" unfolding l by simp
        then show "valid_path p' \<and> q = under p' ?F" using p0 by blast
      next
        assume "valid_path p' \<and> q = under p' ?F"
        then show "from_local ?F q = Inr p'" using from_local_files by blast
      qed
    qed
    show ?thesis
    proof (cases "file_bytes d q")
      case (Some bs)
      then have "\<lparr>fi_path = p, fi_size = n\<rparr> \<in> set (entry_of ?F d q) \<longleftrightarrow>
          from_local ?F q = Inr p \<and> n = length bs"
        by (cases "from_local ?F q") (auto simp: entry_of_def)
      then show ?thesis unfolding fl [OF Some] using Some by auto
    qed (simp add: entry_of_def)
  qed
  have b: "below (under p ?F) ?F" if "valid_path p" for p
    using that by (simp add: under_files path_elems_valid)
  have dom: "q \<in> fst ` set (tree d)" if "file_bytes d q = Some bs" for q bs
    using that by (simp add: file_bytes_Some) (metis map_of_SomeD fst_conv image_eqI)
  have set: "\<lparr>fi_path = p, fi_size = n\<rparr> \<in> set fs \<longleftrightarrow>
      valid_path p \<and> (\<exists>bs. payload S d i p = Some bs \<and> n = length bs)" for p n
  proof
    assume "\<lparr>fi_path = p, fi_size = n\<rparr> \<in> set fs"
    then obtain q where "below q ?F" "\<lparr>fi_path = p, fi_size = n\<rparr> \<in> set (entry_of ?F d q)"
      by (auto simp: fs)
    then show "valid_path p \<and> (\<exists>bs. payload S d i p = Some bs \<and> n = length bs)"
      using mem [of q p n] by (auto simp: payload_def)
  next
    assume "valid_path p \<and> (\<exists>bs. payload S d i p = Some bs \<and> n = length bs)"
    then obtain bs where v: "valid_path p" "file_bytes d (under p ?F) = Some bs" "n = length bs"
      by (auto simp: payload_def)
    then have "\<lparr>fi_path = p, fi_size = n\<rparr> \<in> set (entry_of ?F d (under p ?F))"
      using mem [OF b [OF v(1)], of p n] by simp
    moreover have "under p ?F \<in> set ?qs"
      using b [OF v(1)] dom [OF v(2)] by simp
    ultimately have "\<exists>q \<in> set ?qs. \<lparr>fi_path = p, fi_size = n\<rparr> \<in> set (entry_of ?F d q)"
      by (rule bexI)
    then show "\<lparr>fi_path = p, fi_size = n\<rparr> \<in> set fs"
      by (simp add: fs)
  qed
  have loc: "q = under (fi_path x) ?F" if "x \<in> set (entry_of ?F d q)" "below q ?F" for x q
    using mem [OF that(2), of "fi_path x" "fi_size x"] that(1) by (cases x) simp
  have dst: "distinct (map fi_path (concat (map (entry_of ?F d) qs)))"
    if "distinct qs" "\<forall>q \<in> set qs. below q ?F" for qs
    using that
  proof (induction qs)
    case (Cons q qs)
    have one: "distinct (map fi_path (entry_of ?F d q))"
      by (simp add: entry_of_def split: option.splits sum.splits)
    have "fi_path x \<noteq> fi_path y" if "x \<in> set (entry_of ?F d q)" "q' \<in> set qs" "y \<in> set (entry_of ?F d q')" for x y q'
      using loc [OF that(1)] loc [OF that(3)] that(2) Cons.prems by auto
    then have "set (map fi_path (entry_of ?F d q)) \<inter> set (map fi_path (concat (map (entry_of ?F d) qs))) = {}"
      by fastforce
    then show ?case using Cons one by simp
  qed simp
  have "distinct (map fi_path (concat (map (entry_of ?F d) ?qs)))"
    by (rule dst) simp_all
  then have "distinct (map fi_path fs)"
    unfolding fs distinct_map by simp
  then show ?thesis using set by (simp add: fs)
qed

theorem list_files_exact_witness:
  "list_files sample_store sample_id sample_disk3 = (Inr [\<lparr>fi_path = ''a'', fi_size = 2\<rparr>], sample_disk3) \<and>
   payload sample_store sample_disk3 sample_id ''a'' \<noteq> None"
proof -
  have l: "list_files sample_store sample_id sample_disk3 =
      (Inr [\<lparr>fi_path = ''a'', fi_size = 2\<rparr>], sample_disk3)"
    by (simp add: list_files_def has_transaction_def sample_defs store_defs disk_defs below_def Let_def
        from_local_def lexically_normal_def lexically_relative_def is_absolute_def dir_depth_def path_eval)
  have "files_named sample_store sample_id sample_disk3"
    unfolding files_named_def
  proof (intro allI impI)
    fix q bs
    assume "file_bytes sample_disk3 q = Some bs"
    then have "q = under ''a'' (files_dir sample_store sample_id)"
      by (auto simp: sample_disk3_def sample_tree_def file_bytes_Some under_def path_elems_def
          sample_store_def store_defs split: if_splits)
    moreover have "valid_path ''a''"
      by (simp add: valid_path_def is_forbidden_char_def ord_def plain_name_def)
    ultimately show "\<exists>p. valid_path p \<and> q = under p (files_dir sample_store sample_id)" by blast
  qed
  from list_files_exact [OF l this] l show ?thesis by auto
qed

end
