(* ===== verification/Log_Business.thy ===== *)
theory Log_Business
  imports Common_Time Common_Id
begin

section \<open>The business log\<close>

text \<open>
  \<^verbatim>\<open>src/src/lib/logging\<close>: \<open>BusinessLog\<close> writes one JSON object per event
  (\<^verbatim>\<open>business_log.cpp\<close>, \<^verbatim>\<open>json.cpp\<close>), \<open>FileSink\<close> appends the lines to a file and rotates it
  (\<^verbatim>\<open>sink.cpp\<close>), and \<open>read_business_log\<close> reads a time range back
  (\<^verbatim>\<open>business_log_reader.cpp\<close>).
\<close>

subsection \<open>Model: events and lines\<close>

datatype biz_event_type =
    TxCreated | FileAdded | FileRemoved | EvCommitted | Forwarded | Received | Downloaded | EvExpired
  | AdminDeleted | RetentionChanged | SessionsRevoked

fun event_name :: "biz_event_type \<Rightarrow> string" where
  "event_name TxCreated = ''tx_created''"
| "event_name FileAdded = ''file_added''"
| "event_name FileRemoved = ''file_removed''"
| "event_name EvCommitted = ''committed''"
| "event_name Forwarded = ''forwarded''"
| "event_name Received = ''received''"
| "event_name Downloaded = ''downloaded''"
| "event_name EvExpired = ''expired''"
| "event_name AdminDeleted = ''admin_deleted''"
| "event_name RetentionChanged = ''retention_changed''"
| "event_name SessionsRevoked = ''sessions_revoked''"

record biz_event =
  ev_type :: biz_event_type
  ev_tx :: "transaction_id option"
  ev_actor :: string
  ev_subject :: string
  ev_from :: string
  ev_to :: string
  ev_server :: string
  ev_file :: "string option"
  ev_size :: "nat option"
  ev_sha256 :: "string option"
  ev_file_count :: "nat option"
  ev_total_bytes :: "nat option"
  ev_retention_days :: "int option"

definition no_event :: "biz_event_type \<Rightarrow> biz_event" where
  "no_event t = \<lparr>ev_type = t, ev_tx = None, ev_actor = [], ev_subject = [], ev_from = [], ev_to = [],
     ev_server = [], ev_file = None, ev_size = None, ev_sha256 = None, ev_file_count = None,
     ev_total_bytes = None, ev_retention_days = None\<rparr>"

abbreviation quote :: char where "quote \<equiv> CHR 0x22"
abbreviation backslash :: char where "backslash \<equiv> CHR 0x5C"
abbreviation newline :: char where "newline \<equiv> CHR 0x0A"

definition hex_digit :: "nat \<Rightarrow> char" where
  "hex_digit n = char_of (if n < 10 then 48 + n else 87 + n)"

definition escape_char :: "char \<Rightarrow> string" where
  "escape_char c =
     (if c = quote then [backslash, quote]
      else if c = backslash then [backslash, backslash]
      else if c = newline then [backslash, CHR ''n'']
      else if c = CHR 0x0D then [backslash, CHR ''r'']
      else if c = CHR 0x09 then [backslash, CHR ''t'']
      else if ord c < 0x20 then
        [backslash, CHR ''u'', CHR ''0'', CHR ''0'', hex_digit (ord c div 16), hex_digit (ord c mod 16)]
      else [c])"

definition json_escape :: "string \<Rightarrow> string" where
  "json_escape s = concat (map escape_char s)"

text \<open>The pieces \<open>JsonLine\<close> appends: \<open>str\<close>, \<open>opt\<close> and \<open>num\<close>.\<close>

definition line_field :: "string \<Rightarrow> string \<Rightarrow> string" where
  "line_field key value = [CHR '','', quote] @ key @ [quote, CHR '':'', quote] @ json_escape value @ [quote]"

definition line_str :: "string \<Rightarrow> string \<Rightarrow> string" where
  "line_str key value = (if value = [] then [] else line_field key value)"

definition line_opt :: "string \<Rightarrow> string option \<Rightarrow> string" where
  "line_opt key v = (case v of None \<Rightarrow> [] | Some s \<Rightarrow> line_field key s)"

definition line_num :: "string \<Rightarrow> int option \<Rightarrow> string" where
  "line_num key v =
     (case v of None \<Rightarrow> [] | Some n \<Rightarrow> [CHR '','', quote] @ key @ [quote, CHR '':''] @ dec_int n)"

definition kSchemaVersion :: nat where "kSchemaVersion = 1"

definition line_head :: "biz_event_type \<Rightarrow> timestamp \<Rightarrow> string" where
  "line_head t ts =
     ''{'' @ [quote] @ ''v'' @ [quote] @ '':'' @ dec kSchemaVersion @ '','' @ [quote] @ ''ts'' @ [quote] @ '':'' @
     [quote] @ format_iso8601 ts @ [quote] @ '','' @ [quote] @ ''event'' @ [quote] @ '':'' @ [quote] @
     event_name t @ [quote]"

definition format_event :: "biz_event \<Rightarrow> timestamp \<Rightarrow> string" where
  "format_event e ts =
     line_head (ev_type e) ts @
     (case ev_tx e of None \<Rightarrow> [] | Some i \<Rightarrow> line_str ''tx'' i) @
     line_str ''actor'' (ev_actor e) @ line_str ''user'' (ev_subject e) @ line_str ''from'' (ev_from e) @
     line_str ''to'' (ev_to e) @ line_str ''server'' (ev_server e) @ line_opt ''file'' (ev_file e) @
     line_num ''size'' (map_option int (ev_size e)) @ line_opt ''sha256'' (ev_sha256 e) @
     line_num ''files'' (map_option int (ev_file_count e)) @
     line_num ''bytes'' (map_option int (ev_total_bytes e)) @
     line_num ''days'' (ev_retention_days e) @ ''}''"

subsection \<open>Model: the file sink\<close>

datatype log_level = Trace | Debug | Info | Warn | ErrorLevel

fun level_name :: "log_level \<Rightarrow> string" where
  "level_name Trace = ''trace''"
| "level_name Debug = ''debug''"
| "level_name Info = ''info''"
| "level_name Warn = ''warn''"
| "level_name ErrorLevel = ''error''"

text \<open>
  The two files, the size counted so far and the rotation limit. \<open>rename_ok\<close> and
  \<open>append_ok\<close> say whether the two system calls of a write succeed; the code ignores both
  results.
\<close>

record file_sink =
  log_file :: "string option"
  log_rotated :: "string option"
  rotate_bytes :: nat
  log_written :: nat

definition sink_open :: "string option \<Rightarrow> string option \<Rightarrow> nat \<Rightarrow> file_sink" where
  "sink_open f r limit =
     \<lparr>log_file = f, log_rotated = r, rotate_bytes = limit,
      log_written = (case f of None \<Rightarrow> 0 | Some s \<Rightarrow> length s)\<rparr>"

definition sink_rotate :: "bool \<Rightarrow> file_sink \<Rightarrow> file_sink" where
  "sink_rotate rename_ok k =
     (if rename_ok \<and> log_file k \<noteq> None
      then k\<lparr>log_file := None, log_rotated := log_file k, log_written := 0\<rparr>
      else k\<lparr>log_written := 0\<rparr>)"

definition sink_write :: "bool \<Rightarrow> bool \<Rightarrow> string \<Rightarrow> file_sink \<Rightarrow> file_sink" where
  "sink_write rename_ok append_ok line k =
     (let k = (if 0 < rotate_bytes k \<and> rotate_bytes k < log_written k + length line
               then sink_rotate rename_ok k else k);
          old = (case log_file k of None \<Rightarrow> [] | Some s \<Rightarrow> s);
          k = (if append_ok then k\<lparr>log_file := Some (old @ line @ [newline])\<rparr> else k)
      in k\<lparr>log_written := log_written k + length line + 1\<rparr>)"

definition log_record :: "bool \<Rightarrow> bool \<Rightarrow> biz_event \<Rightarrow> timestamp \<Rightarrow> file_sink \<Rightarrow> file_sink" where
  "log_record rename_ok append_ok e now k = sink_write rename_ok append_ok (format_event e now) k"

subsection \<open>Model: reading the log\<close>

record biz_log_query =
  q_from :: timestamp
  q_to :: timestamp
  q_limit :: nat

text \<open>What follows the first occurrence of a text.\<close>

fun after_first :: "string \<Rightarrow> string \<Rightarrow> string option" where
  "after_first key [] = (if key = [] then Some [] else None)"
| "after_first key (c # cs) =
     (if starts_with (c # cs) key then Some (drop (length key) (c # cs)) else after_first key cs)"

definition ts_key :: string where
  "ts_key = [quote] @ ''ts'' @ [quote] @ '':'' @ [quote]"

definition timestamp_of :: "string \<Rightarrow> timestamp option" where
  "timestamp_of line =
     (case after_first ts_key line of
        None \<Rightarrow> None
      | Some value \<Rightarrow>
          (case split_first quote value of
             None \<Rightarrow> None
           | Some (v, _) \<Rightarrow> (case parse_iso8601 v of Inl _ \<Rightarrow> None | Inr ts \<Rightarrow> Some ts)))"

text \<open>\<^verbatim>\<open>std::getline\<close>: the text up to each newline, and a last line without one.\<close>

definition lines_of :: "string \<Rightarrow> string list" where
  "lines_of s = (let ps = split_on newline s in if last ps = [] then butlast ps else ps)"

text \<open>A file as the reader finds it: absent, not readable, or its text and whether reading failed at the end.\<close>

datatype log_source = NoFile | CannotOpen | Content string bool

fun scan_lines :: "biz_log_query \<Rightarrow> string list \<Rightarrow> string list \<Rightarrow> string list \<times> bool" where
  "scan_lines q [] out = (out, True)"
| "scan_lines q (l # ls) out =
     (case timestamp_of l of
        None \<Rightarrow> scan_lines q ls out
      | Some ts \<Rightarrow>
          if ts < q_from q \<or> q_to q \<le> ts then scan_lines q ls out
          else if q_limit q \<le> length (out @ [l]) then (out @ [l], False)
          else scan_lines q ls (out @ [l]))"

fun scan :: "string \<Rightarrow> log_source \<Rightarrow> biz_log_query \<Rightarrow> string list \<Rightarrow> (bool \<times> string list) result" where
  "scan path NoFile q out = Inr (True, out)"
| "scan path CannotOpen q out = fail Io (''cannot open '' @ path)"
| "scan path (Content s bad) q out =
     (case scan_lines q (lines_of s) out of
        (out, False) \<Rightarrow> Inr (False, out)
      | (out, True) \<Rightarrow> if bad then fail Io (''cannot read '' @ path) else Inr (True, out))"

definition read_business_log ::
  "string \<Rightarrow> log_source \<Rightarrow> log_source \<Rightarrow> biz_log_query \<Rightarrow> string list result" where
  "read_business_log path current rotated q =
     (if q_limit q = 0 \<or> q_to q \<le> q_from q then Inr []
      else cfd_try (scan (path @ ''.1'') rotated q []) (\<lambda>(more, out).
        if more then cfd_try (scan path current q out) (\<lambda>(_, out). Inr out) else Inr out))"

subsection \<open>What a JSON reader makes of an escaped text\<close>

text \<open>
  The string production of RFC 8259, as far as \<open>json_escape\<close> uses it: the text up to the closing
  quote, with its escapes undone, and what follows. A control character is an error.
\<close>

definition hex_value :: "char \<Rightarrow> nat option" where
  "hex_value c =
     (if is_digit c then Some (ord c - 48)
      else if char_in 97 102 c then Some (ord c - 87)
      else if char_in 65 70 c then Some (ord c - 55) else None)"

fun read_string :: "string \<Rightarrow> (string \<times> string) option" where
  "read_string [] = None"
| "read_string (c # cs) =
     (if c = quote then Some ([], cs)
      else if c = backslash then
        (case cs of
           [] \<Rightarrow> None
         | e # r \<Rightarrow>
             if e = quote \<or> e = backslash then map_option (map_prod ((#) e) id) (read_string r)
             else if e = CHR ''n'' then map_option (map_prod ((#) newline) id) (read_string r)
             else if e = CHR ''r'' then map_option (map_prod ((#) CHR 0x0D) id) (read_string r)
             else if e = CHR ''t'' then map_option (map_prod ((#) CHR 0x09) id) (read_string r)
             else if e = CHR ''u'' then
               (case r of
                  a # b # x # y # r' \<Rightarrow>
                    (case (hex_value a, hex_value b, hex_value x, hex_value y) of
                       (Some 0, Some 0, Some p, Some q) \<Rightarrow>
                         map_option (map_prod ((#) (char_of (16 * p + q))) id) (read_string r')
                     | _ \<Rightarrow> None)
                | _ \<Rightarrow> None)
             else None)
      else if ord c < 0x20 then None
      else map_option (map_prod ((#) c) id) (read_string cs))"

lemma hex_digit_ord: "n < 16 \<Longrightarrow> ord (hex_digit n) = (if n < 10 then 48 + n else 87 + n)"
  by (simp add: hex_digit_def)

lemma hex_value_digit: "n < 16 \<Longrightarrow> hex_value (hex_digit n) = Some n"
  by (auto simp: hex_value_def char_in_def hex_digit_ord)

lemma read_string_escape_char:
  "read_string (escape_char c @ r) = map_option (map_prod ((#) c) id) (read_string r)"
proof -
  consider "c = quote" | "c = backslash" | "c = newline" | "c = CHR 0x0D" | "c = CHR 0x09"
    | "c \<noteq> quote" "c \<noteq> backslash" "c \<noteq> newline" "c \<noteq> CHR 0x0D" "c \<noteq> CHR 0x09" "ord c < 32"
    | "c \<noteq> quote" "c \<noteq> backslash" "c \<noteq> newline" "c \<noteq> CHR 0x0D" "c \<noteq> CHR 0x09" "\<not> ord c < 32"
    by blast
  then show ?thesis
  proof cases
    case 6
    have d: "ord c div 16 < 16" "ord c mod 16 < 16" using 6 by simp_all
    have z: "hex_value (CHR ''0'') = Some 0" by (simp add: hex_value_def char_in_def ord_def)
    have c: "char_of (16 * (ord c div 16) + ord c mod 16) = c" by simp
    show ?thesis
      using 6(1-5) 6(6) by (simp add: escape_char_def z hex_value_digit [OF d(1)] hex_value_digit [OF d(2)] c)
  qed (simp_all add: escape_char_def)
qed

lemma read_string_escape: "read_string (json_escape s @ quote # r) = Some (s, r)"
  by (induction s) (simp_all add: json_escape_def read_string_escape_char)

lemma escape_char_printable: "x \<in> set (escape_char c) \<Longrightarrow> 32 \<le> ord x"
proof -
  assume x: "x \<in> set (escape_char c)"
  have lit: "32 \<le> ord quote" "32 \<le> ord backslash" "32 \<le> ord (CHR ''n'')" "32 \<le> ord (CHR ''r'')"
    "32 \<le> ord (CHR ''t'')" "32 \<le> ord (CHR ''u'')" "32 \<le> ord (CHR ''0'')"
    by (simp_all add: ord_def)
  have hex: "32 \<le> ord (hex_digit n)" if "n < 16" for n
    using that by (simp add: hex_digit_ord)
  show ?thesis
  proof (cases "ord c < 32")
    case True
    then have "ord c div 16 < 16" "ord c mod 16 < 16" by simp_all
    with x lit hex show ?thesis by (auto simp: escape_char_def split: if_splits)
  qed (use x lit in \<open>auto simp: escape_char_def split: if_splits\<close>)
qed

text \<open>The characters of a log line: none of them ends it.\<close>

definition printable :: "string \<Rightarrow> bool" where
  "printable s \<longleftrightarrow> list_all (\<lambda>c. 32 \<le> ord c) s"

lemma printable_append [simp]: "printable (s @ t) \<longleftrightarrow> printable s \<and> printable t"
  by (simp add: printable_def)

lemma printable_Nil [simp]: "printable []"
  by (simp add: printable_def)

lemma printable_Cons: "printable (c # s) \<longleftrightarrow> 32 \<le> ord c \<and> printable s"
  by (simp add: printable_def)

lemma printable_no_newline: "printable s \<Longrightarrow> newline \<notin> set s"
  by (auto simp: printable_def list_all_iff ord_def dest!: bspec)

lemma printable_escape [simp]: "printable (json_escape s)"
  by (auto simp: printable_def json_escape_def list_all_iff dest: escape_char_printable)

lemma printable_dec [simp]: "printable (dec n)"
proof -
  have "32 \<le> ord c" if "c \<in> set (dec n)" for c
    using dec_digits [OF that] by (simp add: char_in_def)
  then show ?thesis by (simp add: printable_def list_all_iff)
qed

lemma printable_dec_int [simp]: "printable (dec_int i)"
  by (simp add: dec_int_def printable_Cons) (simp add: ord_def)

lemma printable_pad [simp]: "printable (pad w n)"
  by (simp add: pad_def) (simp add: printable_def list_all_iff ord_def)

lemmas printable_lit = printable_Cons ord_def

lemma printable_format_iso8601 [simp]: "printable (format_iso8601 t)"
  by (simp add: format_iso8601_def Let_def split_beta format_year_def) (simp add: printable_lit)

lemma printable_event_name [simp]: "printable (event_name t)"
  by (cases t) (simp_all add: printable_lit)

lemma printable_format_event: "printable (format_event e ts)"
proof -
  have f: "printable (line_field k v)" "printable (line_str k v)" if "printable k" for k v
    using that by (simp_all add: line_field_def line_str_def printable_lit)
  have o: "printable (line_opt k v)" if "printable k" for k v
    using that f by (simp add: line_opt_def split: option.split)
  have n: "printable (line_num k v)" if "printable k" for k v
    using that by (simp add: line_num_def printable_lit split: option.split)
  have h: "printable (line_head t ts)" for t
    by (simp add: line_head_def printable_lit)
  show ?thesis
    by (simp add: format_event_def h f o n printable_lit split: option.split)
qed

lemma dec_1: "dec (Suc 0) = ''1''"
  using digit_char_eq(2) by (subst dec.simps) simp

subsection \<open>Finding the timestamp of a line\<close>

lemma iso_text_no_quote: "has_iso_shape s \<Longrightarrow> quote \<notin> set s"
proof -
  assume "has_iso_shape s"
  then obtain y m d h mi sec where f: "fields_ok y m d h mi sec" and s: "s = iso_text y m d h mi sec"
    using has_iso_shapeD by blast
  have "\<not> is_digit quote" by (simp add: char_in_def ord_def)
  then have "quote \<notin> set t" if "list_all is_digit t" for t
    using that by (auto simp: list_all_iff)
  with f show ?thesis by (simp add: s iso_text_def fields_ok_def)
qed

lemma timestamp_of_format:
  assumes "iso_range ts"
  shows "timestamp_of (format_event e ts) = Some ts"
proof -
  obtain r where r: "format_event e ts =
      ''{'' @ [quote] @ ''v'' @ [quote] @ '':1,'' @ ts_key @ format_iso8601 ts @ quote # r"
    by (simp add: format_event_def line_head_def ts_key_def kSchemaVersion_def dec_1)
  have "after_first ts_key (format_event e ts) = Some (format_iso8601 ts @ quote # r)"
    unfolding r by (simp add: ts_key_def starts_with_def)
  moreover have "quote \<notin> set (format_iso8601 ts)"
    using parse_format_iso8601 [OF assms] iso_text_no_quote
    by (auto simp: parse_iso8601_def Let_def split: if_splits)
  ultimately show ?thesis
    using parse_format_iso8601 [OF assms] by (simp add: timestamp_of_def)
qed

subsection \<open>Scanning and rotating\<close>

definition in_query :: "biz_log_query \<Rightarrow> string \<Rightarrow> bool" where
  "in_query q l =
     (case timestamp_of l of None \<Rightarrow> False | Some ts \<Rightarrow> q_from q \<le> ts \<and> ts < q_to q)"

lemma scan_lines_eq:
  assumes "length out < q_limit q"
  shows "scan_lines q ls out =
    (take (q_limit q) (out @ filter (in_query q) ls), length (out @ filter (in_query q) ls) < q_limit q)"
  using assms
proof (induction q ls out rule: scan_lines.induct)
  case (2 q l ls out)
  show ?case
  proof (cases "in_query q l")
    case False
    then have "scan_lines q (l # ls) out = scan_lines q ls out"
      by (auto simp: in_query_def split: option.splits)
    moreover have "scan_lines q ls out =
        (take (q_limit q) (out @ filter (in_query q) ls), length (out @ filter (in_query q) ls) < q_limit q)"
    proof (cases "timestamp_of l")
      case (Some ts)
      with False have "ts < q_from q \<or> q_to q \<le> ts" by (auto simp: in_query_def)
      with Some 2 show ?thesis by simp
    qed (use 2 in simp)
    ultimately show ?thesis using False by simp
  next
    case True
    then obtain ts where ts: "timestamp_of l = Some ts" "\<not> (ts < q_from q \<or> q_to q \<le> ts)"
      by (auto simp: in_query_def split: option.splits)
    show ?thesis
    proof (cases "q_limit q \<le> length (out @ [l])")
      case full: True
      with 2(4) have "q_limit q = Suc (length out)" by simp
      with ts True show ?thesis by simp
    next
      case False
      then have "scan_lines q ls (out @ [l]) = (take (q_limit q) ((out @ [l]) @ filter (in_query q) ls),
          length ((out @ [l]) @ filter (in_query q) ls) < q_limit q)"
        using 2(3) [OF ts False] by simp
      moreover have "scan_lines q (l # ls) out = scan_lines q ls (out @ [l])"
        using ts False by simp
      ultimately show ?thesis using True by simp
    qed
  qed
qed simp

definition log_text :: "string list \<Rightarrow> string" where
  "log_text ls = concat (map (\<lambda>l. l @ [newline]) ls)"

lemma log_text_simps [simp]:
  "log_text [] = []" "log_text (ls @ [l]) = log_text ls @ l @ [newline]"
  by (simp_all add: log_text_def)

lemma lines_of_log_text: "list_all printable ls \<Longrightarrow> lines_of (log_text ls) = ls"
proof -
  assume p: "list_all printable ls"
  have "split_on newline (log_text ls) = ls @ [[]]"
    using p by (induction ls) (simp_all add: log_text_def split_on_append printable_no_newline)
  then show ?thesis by (simp add: lines_of_def)
qed

text \<open>A log file that holds some lines; a file that was never written is absent.\<close>

definition file_lines :: "string option \<Rightarrow> string list \<Rightarrow> bool" where
  "file_lines f ls \<longleftrightarrow> f = (if ls = [] then None else Some (log_text ls))"

definition source_of :: "string option \<Rightarrow> log_source" where
  "source_of f = (case f of None \<Rightarrow> NoFile | Some s \<Rightarrow> Content s False)"

lemma scan_source:
  assumes "file_lines f ls" "list_all printable ls" "length out < q_limit q"
  shows "scan path (source_of f) q out =
    Inr (length (out @ filter (in_query q) ls) < q_limit q, take (q_limit q) (out @ filter (in_query q) ls))"
  using assms by (auto simp: file_lines_def source_of_def lines_of_log_text scan_lines_eq split: bool.split)

lemma read_business_log_lines:
  assumes "file_lines cur cl" "file_lines rot rl" "list_all printable (rl @ cl)"
  shows "read_business_log path (source_of cur) (source_of rot) q =
    Inr (if q_to q \<le> q_from q then [] else take (q_limit q) (filter (in_query q) (rl @ cl)))"
proof (cases "q_limit q = 0 \<or> q_to q \<le> q_from q")
  case False
  let ?r = "filter (in_query q) rl"
  have s1: "scan (path @ ''.1'') (source_of rot) q [] = Inr (length ?r < q_limit q, take (q_limit q) ?r)"
    using scan_source [OF assms(2), of "[]"] assms(3) False by simp
  show ?thesis
  proof (cases "length ?r < q_limit q")
    case True
    have "scan path (source_of cur) q ?r = Inr (length (?r @ filter (in_query q) cl) < q_limit q,
        take (q_limit q) (?r @ filter (in_query q) cl))"
      using scan_source [OF assms(1), of ?r] assms(3) True by simp
    with s1 True False show ?thesis by (simp add: read_business_log_def)
  qed (use s1 False in \<open>simp add: read_business_log_def\<close>)
qed (auto simp: read_business_log_def)

text \<open>
  A sink whose files hold a tail of the lines written to it, the last one always among them.
\<close>

definition sink_holds :: "file_sink \<Rightarrow> string list \<Rightarrow> string list \<Rightarrow> bool" where
  "sink_holds k rl cl \<longleftrightarrow>
     file_lines (log_file k) cl \<and> file_lines (log_rotated k) rl \<and> log_written k = length (log_text cl)"

lemma sink_write_holds:
  assumes "sink_holds k rl cl"
  shows "sink_holds (sink_write True True l k) rl (cl @ [l]) \<or>
    cl \<noteq> [] \<and> 0 < rotate_bytes k \<and> rotate_bytes k < length (log_text cl) + length l \<and>
    sink_holds (sink_write True True l k) cl [l] \<or>
    cl = [] \<and> sink_holds (sink_write True True l k) rl [l]"
  using assms
  by (cases "cl = []")
    (auto simp: sink_holds_def sink_write_def sink_rotate_def file_lines_def Let_def log_text_def)

fun record_all :: "(biz_event \<times> timestamp) list \<Rightarrow> file_sink \<Rightarrow> file_sink" where
  "record_all [] k = k"
| "record_all ((e, now) # es) k = record_all es (log_record True True e now k)"

abbreviation event_line :: "biz_event \<times> timestamp \<Rightarrow> string" where
  "event_line \<equiv> \<lambda>(e, now). format_event e now"

lemma rotate_bytes_write [simp]: "rotate_bytes (sink_write r a l k) = rotate_bytes k"
  by (simp add: sink_write_def sink_rotate_def Let_def)

lemma list_all_drop: "list_all P xs \<Longrightarrow> list_all P (drop n xs)"
  by (auto simp: list_all_iff dest: in_set_dropD)

lemma log_text_append: "log_text (a @ b) = log_text a @ log_text b"
  by (simp add: log_text_def)

text \<open>
  Recording keeps a tail of all lines; nothing is dropped while the lines fit below the
  rotation limit, or when rotation is off.
\<close>

lemma record_all_holds:
  assumes "sink_holds k rl cl"
  shows "\<exists>rl' cl' n. sink_holds (record_all es k) rl' cl' \<and>
    rl' @ cl' = drop n (rl @ cl @ map event_line es) \<and> n \<le> length (rl @ cl) + length es \<and>
    (rotate_bytes k = 0 \<or> length (log_text (cl @ map event_line es)) \<le> rotate_bytes k \<longrightarrow>
      n = 0 \<and> rl' = rl)"
  using assms
proof (induction es arbitrary: k rl cl)
  case (Cons ev es)
  obtain e now where ev: "ev = (e, now)" by (cases ev)
  let ?l = "format_event e now" and ?k = "sink_write True True (format_event e now) k"
  have step: "record_all (ev # es) k = record_all es ?k" by (simp add: ev log_record_def)
  have kept: ?case if h: "sink_holds ?k rl (cl @ [?l])"
    using Cons.IH [OF h] unfolding step by (simp add: ev)
  from sink_write_holds [OF Cons.prems, of ?l] consider "sink_holds ?k rl (cl @ [?l])"
    | "0 < rotate_bytes k" "rotate_bytes k < length (log_text cl) + length ?l" "sink_holds ?k cl [?l]"
    | "cl = []" "sink_holds ?k rl [?l]"
    by (elim disjE conjE) simp_all
  then show ?case
  proof cases
    case 2
    from Cons.IH [OF 2(3)] obtain rl' cl' n where
      h: "sink_holds (record_all es ?k) rl' cl'" and
      d: "rl' @ cl' = drop n (cl @ [?l] @ map event_line es)" and n: "n \<le> length (cl @ [?l]) + length es"
      by blast
    have "rl' @ cl' = drop (length rl + n) (rl @ cl @ map event_line (ev # es))"
      using d by (simp add: ev)
    moreover have "\<not> (rotate_bytes k = 0 \<or> length (log_text (cl @ map event_line (ev # es))) \<le> rotate_bytes k)"
      using 2 by (simp add: ev log_text_def)
    moreover have "length rl + n \<le> length (rl @ cl) + length (ev # es)" using n by simp
    ultimately show ?thesis using h unfolding step by blast
  qed (use kept in simp_all)
next
  case Nil
  then show ?case by (intro exI [of _ rl] exI [of _ cl] exI [of _ 0]) simp
qed

subsection \<open>Properties\<close>

text \<open>
  C27. No text an event carries can forge a log record: the value of every text field is
  read back unchanged by a JSON reader, whatever it contains and whatever follows it, and
  the line of an event has no character below 0x20, in particular no line break.
\<close>

theorem log_line_injection_free:
  "read_string (json_escape s @ quote # r) = Some (s, r) \<and> list_all (\<lambda>c. 32 \<le> ord c) (format_event e ts)"
  using read_string_escape printable_format_event by (simp add: printable_def)


definition sample_events :: "(biz_event \<times> timestamp) list" where
  "sample_events = [(no_event TxCreated, 10), (no_event Received, 20)]"

definition sample_query :: biz_log_query where
  "sample_query = \<lparr>q_from = 15, q_to = 30, q_limit = 5\<rparr>"


end
