(* ===== verification/Log_Tech.thy ===== *)
theory Log_Tech
  imports Log_Business "HOL-Library.Sublist"
begin

section \<open>The technical log\<close>

text \<open>
  \<^verbatim>\<open>src/src/lib/logging/tech_log.cpp\<close>: callers format a line and put it in a bounded queue, a
  writer thread takes the lines out and writes them to the sink. The threads meet in a step
  relation whose steps are the critical sections of the code: a caller's \<open>push\<close>, the writer's turn
  under the lock, its write outside the lock, and the destructor's \<open>stop\<close>.
\<close>

subsection \<open>Model\<close>

fun level_num :: "log_level \<Rightarrow> nat" where
  "level_num Trace = 0" | "level_num Debug = 1" | "level_num Info = 2" | "level_num Warn = 3"
| "level_num ErrorLevel = 4"

type_synonym log_rec = "log_level \<times> string"

text \<open>What the writer thread holds: nothing, a record it has taken, or it has returned.\<close>

datatype writer = Waiting | Taken log_rec | Returned

record tech_log =
  min_level :: log_level
  capacity :: nat
  dropped :: nat
  queue :: "log_rec list"
  stop :: bool
  writer :: writer
  sink_lines :: "log_rec list"

definition tech_open :: "nat \<Rightarrow> tech_log" where
  "tech_open cap = \<lparr>min_level = Info, capacity = cap, dropped = 0, queue = [], stop = False,
     writer = Waiting, sink_lines = []\<rparr>"

definition tech_line :: "int \<Rightarrow> nat \<Rightarrow> log_level \<Rightarrow> string \<Rightarrow> string \<Rightarrow> string" where
  "tech_line ts tid lvl tag msg =
     ''{'' @ [quote] @ ''ts'' @ [quote] @ '':'' @ dec_int ts @ '','' @ [quote] @ ''lvl'' @ [quote] @ '':'' @
     [quote] @ level_name lvl @ [quote] @ '','' @ [quote] @ ''tag'' @ [quote] @ '':'' @ [quote] @
     json_escape tag @ [quote] @ '','' @ [quote] @ ''msg'' @ [quote] @ '':'' @ [quote] @ json_escape msg @
     [quote] @ '','' @ [quote] @ ''tid'' @ [quote] @ '':'' @ dec tid @ ''}''"

definition tech_push :: "log_rec \<Rightarrow> tech_log \<Rightarrow> tech_log" where
  "tech_push r l =
     (if capacity l \<le> length (queue l) then l\<lparr>dropped := dropped l + 1\<rparr> else l\<lparr>queue := queue l @ [r]\<rparr>)"

definition tech_log_call :: "int \<Rightarrow> nat \<Rightarrow> log_level \<Rightarrow> string \<Rightarrow> string \<Rightarrow> tech_log \<Rightarrow> tech_log" where
  "tech_log_call ts tid lvl tag msg l =
     (if level_num lvl < level_num (min_level l) then l else tech_push (lvl, tech_line ts tid lvl tag msg) l)"

definition set_level :: "log_level \<Rightarrow> tech_log \<Rightarrow> tech_log" where
  "set_level lvl l = l\<lparr>min_level := lvl\<rparr>"

text \<open>One turn of the writer's loop under the lock; \<open>None\<close> while it waits on the condition variable.\<close>

definition writer_turn :: "tech_log \<Rightarrow> tech_log option" where
  "writer_turn l =
     (case queue l of
        [] \<Rightarrow> if stop l then Some (l\<lparr>writer := Returned\<rparr>) else None
      | r # rs \<Rightarrow> Some (l\<lparr>queue := rs, writer := Taken r\<rparr>))"

definition writer_write :: "log_rec \<Rightarrow> tech_log \<Rightarrow> tech_log" where
  "writer_write r l = l\<lparr>sink_lines := sink_lines l @ [r], writer := Waiting\<rparr>"

datatype tech_action =
    Log int nat log_level string string
  | SetLevel log_level
  | Turn
  | Write
  | Stop

inductive tech_step :: "tech_log \<Rightarrow> tech_action \<Rightarrow> tech_log \<Rightarrow> bool" where
  step_log: "\<not> stop l \<Longrightarrow> tech_step l (Log ts tid lvl tag msg) (tech_log_call ts tid lvl tag msg l)"
| step_level: "\<not> stop l \<Longrightarrow> tech_step l (SetLevel lvl) (set_level lvl l)"
| step_turn: "writer l = Waiting \<Longrightarrow> writer_turn l = Some l' \<Longrightarrow> tech_step l Turn l'"
| step_write: "writer l = Taken r \<Longrightarrow> tech_step l Write (writer_write r l)"
| step_stop: "tech_step l Stop (l\<lparr>stop := True\<rparr>)"

inductive tech_run :: "tech_log \<Rightarrow> tech_action list \<Rightarrow> tech_log \<Rightarrow> bool" where
  run_nil: "tech_run l [] l"
| run_snoc: "tech_run l as l' \<Longrightarrow> tech_step l' a l'' \<Longrightarrow> tech_run l (as @ [a]) l''"

inductive_cases tech_stepE [elim!]: "tech_step l a l'"

subsection \<open>Lemmas\<close>

text \<open>The records the callers asked for, in order, after the level filter.\<close>

fun requested :: "log_level \<Rightarrow> tech_action list \<Rightarrow> log_rec list" where
  "requested m [] = []"
| "requested m (Log ts tid lvl tag msg # as) =
     (if level_num lvl < level_num m then requested m as
      else (lvl, tech_line ts tid lvl tag msg) # requested m as)"
| "requested m (SetLevel lvl # as) = requested lvl as"
| "requested m (a # as) = requested m as"

fun level_after :: "log_level \<Rightarrow> tech_action list \<Rightarrow> log_level" where
  "level_after m [] = m"
| "level_after m (SetLevel lvl # as) = level_after lvl as"
| "level_after m (a # as) = level_after m as"

lemma requested_snoc: "requested m (as @ [a]) = requested m as @ requested (level_after m as) [a]"
  by (induction m as rule: requested.induct) auto

lemma level_after_snoc: "level_after m (as @ [a]) = level_after (level_after m as) [a]"
  by (induction m as rule: level_after.induct) auto

definition held :: "tech_log \<Rightarrow> log_rec list" where
  "held l = (case writer l of Taken r \<Rightarrow> [r] | _ \<Rightarrow> [])"

text \<open>The records a log has accepted: written, in the writer's hands, or waiting.\<close>

definition accepted :: "tech_log \<Rightarrow> log_rec list" where
  "accepted l = sink_lines l @ held l @ queue l"

definition tech_inv :: "log_rec list \<Rightarrow> tech_log \<Rightarrow> bool" where
  "tech_inv rs l \<longleftrightarrow>
     subseq (accepted l) rs \<and> length rs = length (accepted l) + dropped l \<and>
     length (queue l) \<le> capacity l \<and> (writer l = Returned \<longrightarrow> stop l \<and> queue l = [])"

lemma accepted_push:
  "accepted (tech_push r l) = (if capacity l \<le> length (queue l) then accepted l else accepted l @ [r])"
  by (simp add: accepted_def tech_push_def held_def)

lemma writer_turn_cases:
  assumes "writer_turn l = Some l'"
  obtains "queue l = []" "stop l" "l' = l\<lparr>writer := Returned\<rparr>"
  | r rs where "queue l = r # rs" "l' = l\<lparr>queue := rs, writer := Taken r\<rparr>"
  using assms by (auto simp: writer_turn_def split: list.splits if_splits)

lemma tech_inv_push:
  assumes "tech_inv rs l" "\<not> stop l"
  shows "tech_inv (rs @ [r]) (tech_push r l)"
proof (cases "capacity l \<le> length (queue l)")
  case True
  then show ?thesis
    using assms by (auto simp: tech_inv_def accepted_push) (auto simp: tech_push_def)
next
  case False
  then show ?thesis
    using assms by (auto simp: tech_inv_def accepted_push) (auto simp: tech_push_def)
qed

lemma tech_step_inv:
  assumes "tech_step l a l'" "tech_inv rs l"
  shows "tech_inv (rs @ requested (min_level l) [a]) l' \<and> min_level l' = level_after (min_level l) [a] \<and>
    capacity l' = capacity l"
  using assms(1)
proof (rule tech_step.cases)
  fix l1 l1'
  assume e: "l = l1" "a = Turn" "l' = l1'" and w: "writer l1 = Waiting" and t: "writer_turn l1 = Some l1'"
  show ?thesis
    using writer_turn_cases [OF t]
    by cases (use assms(2) e w in \<open>auto simp: tech_inv_def accepted_def held_def\<close>)
next
  fix l1 ts tid lvl tag msg
  assume e: "l = l1" "a = Log ts tid lvl tag msg" "l' = tech_log_call ts tid lvl tag msg l1" "\<not> stop l1"
  show ?thesis
    using tech_inv_push [OF assms(2)] assms(2) e
    by (auto simp: tech_log_call_def) (auto simp: tech_push_def)
qed (use assms(2) in \<open>auto simp: tech_inv_def accepted_def held_def set_level_def writer_write_def\<close>)

lemma tech_run_inv:
  assumes "tech_run (tech_open cap) as l"
  shows "tech_inv (requested Info as) l \<and> min_level l = level_after Info as \<and> capacity l = cap"
  using assms
proof (induction "tech_open cap" as l rule: tech_run.induct)
  case run_nil
  show ?case by (simp add: tech_inv_def tech_open_def accepted_def held_def)
next
  case (run_snoc as l' a l'')
  then show ?case
    using tech_step_inv [OF run_snoc(3), of "requested Info as"]
    by (simp add: requested_snoc level_after_snoc)
qed

text \<open>Draining: the steps the writer still has to make once the log is being closed.\<close>

fun drain :: "nat \<Rightarrow> tech_log \<Rightarrow> tech_log" where
  "drain 0 l = l"
| "drain (Suc n) l =
     (case writer l of
        Returned \<Rightarrow> l
      | Taken r \<Rightarrow> drain n (writer_write r l)
      | Waiting \<Rightarrow> (case writer_turn l of None \<Rightarrow> l | Some l' \<Rightarrow> drain n l'))"

definition drain_work :: "tech_log \<Rightarrow> nat" where
  "drain_work l = 2 * length (queue l) + (case writer l of Waiting \<Rightarrow> 1 | Taken _ \<Rightarrow> 2 | Returned \<Rightarrow> 0)"

lemma drain_result:
  assumes "stop l" "writer l = Returned \<longrightarrow> queue l = []" "drain_work l \<le> n"
  shows "writer (drain n l) = Returned \<and> sink_lines (drain n l) = accepted l"
  using assms
proof (induction n arbitrary: l)
  case 0
  then show ?case
    by (cases "writer l") (auto simp: drain_work_def accepted_def held_def)
next
  case (Suc n)
  show ?case
  proof (cases "writer l")
    case Waiting
    then obtain l' where t: "writer_turn l = Some l'"
      using Suc.prems(1) by (cases "queue l") (auto simp: writer_turn_def)
    from writer_turn_cases [OF t] have "drain_work l' \<le> n \<and> accepted l' = accepted l \<and> stop l' \<and>
        (writer l' = Returned \<longrightarrow> queue l' = [])"
      by cases (use Suc.prems Waiting in \<open>auto simp: drain_work_def accepted_def held_def\<close>)
    with Suc.IH [of l'] Waiting t show ?thesis by simp
  next
    case (Taken r)
    have "drain_work (writer_write r l) \<le> n \<and> accepted (writer_write r l) = accepted l \<and>
        stop (writer_write r l) \<and> writer (writer_write r l) \<noteq> Returned"
      using Suc.prems Taken by (auto simp: drain_work_def accepted_def held_def writer_write_def)
    with Suc.IH [of "writer_write r l"] Taken show ?thesis by simp
  next
    case Returned
    with Suc.prems show ?thesis by (simp add: accepted_def held_def)
  qed
qed

text \<open>A log of capacity 1 that is asked for two records and then stopped.\<close>

definition sample_rec :: log_rec where
  "sample_rec = (Info, tech_line 0 1 Info ''tag'' ''first'')"

definition sample_actions :: "tech_action list" where
  "sample_actions = [Log 0 1 Info ''tag'' ''first'', Log 1 1 Warn ''tag'' ''second'', Stop]"

definition sample_log :: tech_log where
  "sample_log = \<lparr>min_level = Info, capacity = 1, dropped = 1, queue = [sample_rec], stop = True,
     writer = Waiting, sink_lines = []\<rparr>"

lemma sample_run: "tech_run (tech_open 1) sample_actions sample_log"
proof -
  let ?l1 = "tech_log_call 0 1 Info ''tag'' ''first'' (tech_open 1)"
  let ?l2 = "tech_log_call 1 1 Warn ''tag'' ''second'' ?l1"
  have "tech_run (tech_open 1) ([] @ [Log 0 1 Info ''tag'' ''first'']) ?l1"
    by (rule run_snoc [OF run_nil step_log]) (simp add: tech_open_def)
  then have "tech_run (tech_open 1) (([] @ [Log 0 1 Info ''tag'' ''first'']) @ [Log 1 1 Warn ''tag'' ''second'']) ?l2"
    by (rule run_snoc [OF _ step_log]) (simp add: tech_open_def tech_log_call_def tech_push_def)
  then have "tech_run (tech_open 1)
      ((([] @ [Log 0 1 Info ''tag'' ''first'']) @ [Log 1 1 Warn ''tag'' ''second'']) @ [Stop]) (?l2\<lparr>stop := True\<rparr>)"
    by (rule run_snoc [OF _ step_stop])
  moreover have "?l2\<lparr>stop := True\<rparr> = sample_log"
    by (simp add: tech_open_def tech_log_call_def tech_push_def sample_log_def sample_rec_def)
  ultimately show ?thesis by (simp add: sample_actions_def)
qed

subsection \<open>Properties\<close>

text \<open>
  C36. However callers, the writer thread and the destructor interleave, the technical log
  writes no record twice, out of order or made up: what it has written, the record the writer
  holds and the queue are together a subsequence of the records asked for, the records missing
  from it are exactly the ones counted by \<open>dropped\<close>, the queue never exceeds its capacity, and
  the writer has returned only when the log was stopped and its queue empty.
\<close>

theorem tech_log_order:
  assumes "tech_run (tech_open cap) as l"
  shows "subseq (sink_lines l @ held l @ queue l) (requested Info as) \<and>
    length (requested Info as) = length (sink_lines l @ held l @ queue l) + dropped l \<and>
    length (queue l) \<le> cap \<and> (writer l = Returned \<longrightarrow> stop l \<and> queue l = [])"
  using tech_run_inv [OF assms] by (simp add: tech_inv_def accepted_def)

theorem tech_log_order_witness:
  "subseq (sink_lines sample_log @ held sample_log @ queue sample_log) (requested Info sample_actions) \<and>
   length (requested Info sample_actions) = 2 \<and> length (queue sample_log) \<le> 1"
  using tech_log_order [OF sample_run] by (simp add: sample_log_def held_def)

text \<open>
  C37. Closing the log loses nothing: from every reachable state, once the log is stopped, the
  writer returns after at most \<open>2 * length (queue l) + 2\<close> of its own steps, and by then the sink
  has every accepted record, in order.
\<close>

theorem tech_log_drains:
  assumes "tech_run (tech_open cap) as l" "stop l"
  shows "writer (drain (2 * length (queue l) + 2) l) = Returned \<and>
    sink_lines (drain (2 * length (queue l) + 2) l) = sink_lines l @ held l @ queue l"
proof -
  have "drain_work l \<le> 2 * length (queue l) + 2" by (cases "writer l") (simp_all add: drain_work_def)
  moreover have "writer l = Returned \<longrightarrow> queue l = []"
    using tech_run_inv [OF assms(1)] by (simp add: tech_inv_def)
  ultimately show ?thesis
    using drain_result [OF assms(2)] unfolding accepted_def by blast
qed

theorem tech_log_drains_witness:
  "writer (drain (2 * 1 + 2) sample_log) = Returned \<and> sink_lines (drain (2 * 1 + 2) sample_log) = [sample_rec]"
  using tech_log_drains [OF sample_run] by (simp add: sample_log_def held_def)

end
