(* ===== verification/Tx_Model.thy ===== *)
theory Tx_Model
  imports Common_Id Common_Path Common_Sha256 Common_Time Codec_Interface
    "HOL-Library.Option_ord" "HOL-Library.Product_Lexorder"
begin

section \<open>Transactions\<close>

text \<open>
  \<^verbatim>\<open>src/src/lib/transaction/transaction.hpp\<close>, \<^verbatim>\<open>transaction.cpp\<close> and \<^verbatim>\<open>state_machine.cpp\<close>: the
  record of a transaction, the states it goes through, and its list of files, which is kept sorted
  by path. The access rules and \<open>upsert_file\<close> are the helpers at the head of
  \<^verbatim>\<open>service.cpp\<close>.
\<close>

subsection \<open>Model: data\<close>

datatype tx_state = Open | Committed | Delivered | Expired

record file_entry =
  fe_path :: relative_path
  fe_size :: nat
  fe_sha256 :: sha256_digest

record transaction =
  tx_id :: transaction_id
  sender :: string
  target_user :: string
  target_server :: string
  origin_server :: string
  comment :: string
  state :: tx_state
  created_at :: timestamp
  expires :: timestamp
  committed_at :: "timestamp option"
  delivered_at :: "timestamp option"
  files :: "file_entry list"

definition kMaxCommentLength :: nat where "kMaxCommentLength = 256"

fun state_name :: "tx_state \<Rightarrow> string" where
  "state_name Open = ''open''"
| "state_name Committed = ''committed''"
| "state_name Delivered = ''delivered''"
| "state_name Expired = ''expired''"

definition parse_state :: "string \<Rightarrow> tx_state result" where
  "parse_state s =
     (case find (\<lambda>st. s = state_name st) [Open, Committed, Delivered, Expired] of
        Some st \<Rightarrow> Inr st
      | None \<Rightarrow> fail Validation (''unknown state: '' @ s))"

text \<open>The loop of \<open>check_comment\<close>: \<open>None\<close> when it meets a control character.\<close>

fun comment_length :: "string \<Rightarrow> nat \<Rightarrow> nat option" where
  "comment_length [] len = Some len"
| "comment_length (c # cs) len =
     (if ord c < 0x20 \<or> ord c = 0x7f then None
      else comment_length cs (if ord c AND 0xC0 \<noteq> 0x80 then len + 1 else len))"

definition check_comment :: "string \<Rightarrow> nat \<Rightarrow> unit result" where
  "check_comment text max_length =
     (case comment_length text 0 of
        None \<Rightarrow> fail Validation ''comment must not contain control characters''
      | Some len \<Rightarrow>
          if max_length < len
          then fail Validation (''comment must be at most '' @ dec max_length @ '' characters, got '' @ dec len)
          else Inr ())"

definition find_file :: "file_entry list \<Rightarrow> relative_path \<Rightarrow> file_entry option" where
  "find_file fs p =
     (let i = lower_bound fe_path p fs
      in if i < length fs \<and> fe_path (fs ! i) = p then Some (fs ! i) else None)"

definition total_bytes :: "file_entry list \<Rightarrow> nat" where
  "total_bytes fs = foldl (\<lambda>s f. (s + fe_size f) mod 2 ^ 64) 0 fs"

subsection \<open>Model: the state machine\<close>

fun can_transition :: "tx_state \<Rightarrow> tx_state \<Rightarrow> bool" where
  "can_transition Open to = (to = Committed \<or> to = Expired)"
| "can_transition Committed to = (to = Delivered \<or> to = Expired)"
| "can_transition Delivered to = (to = Expired)"
| "can_transition Expired to = False"

definition check_transition :: "tx_state \<Rightarrow> tx_state \<Rightarrow> unit result" where
  "check_transition from to =
     (if can_transition from to then Inr ()
      else fail (if from = Expired then Gone else Conflict)
        (''transaction is '' @ state_name from @ '', cannot become '' @ state_name to))"

fun require_mutable :: "tx_state \<Rightarrow> unit result" where
  "require_mutable Open = Inr ()"
| "require_mutable Expired = fail Gone ''transaction has expired''"
| "require_mutable st = fail Conflict (''transaction is '' @ state_name st @ '' and cannot be changed'')"

fun require_readable :: "tx_state \<Rightarrow> unit result" where
  "require_readable Open = fail Conflict ''transaction is not committed yet''"
| "require_readable Expired = fail Gone ''transaction has expired''"
| "require_readable st = Inr ()"

subsection \<open>Model: callers and access rules\<close>

record caller =
  caller_name :: string
  is_peer :: bool
  is_admin :: bool

type_synonym membership_check = "(string \<Rightarrow> string \<Rightarrow> bool) option"

definition actor_of :: "caller \<Rightarrow> string" where
  "actor_of c = (if is_peer c then ''peer:'' @ caller_name c else caller_name c)"

definition is_sender :: "caller \<Rightarrow> transaction \<Rightarrow> bool" where
  "is_sender c t \<longleftrightarrow> \<not> is_peer c \<and> origin_server t = [] \<and> caller_name c = sender t"

definition is_target :: "caller \<Rightarrow> transaction \<Rightarrow> membership_check \<Rightarrow> bool" where
  "is_target c t chk \<longleftrightarrow>
     \<not> is_peer c \<and> target_server t = [] \<and>
     (caller_name c = target_user t \<or>
      (case chk of None \<Rightarrow> False | Some f \<Rightarrow> f (caller_name c) (target_user t)))"

definition is_origin_peer :: "caller \<Rightarrow> transaction \<Rightarrow> bool" where
  "is_origin_peer c t \<longleftrightarrow> is_peer c \<and> origin_server t \<noteq> [] \<and> caller_name c = origin_server t"

definition may_write :: "caller \<Rightarrow> transaction \<Rightarrow> bool" where
  "may_write c t \<longleftrightarrow> is_sender c t \<or> is_origin_peer c t"

definition may_read :: "caller \<Rightarrow> transaction \<Rightarrow> membership_check \<Rightarrow> bool" where
  "may_read c t chk \<longleftrightarrow>
     is_sender c t \<or> is_origin_peer c t \<or> is_target c t chk \<and> state t \<noteq> Open"

definition is_outgoing :: "transaction \<Rightarrow> bool" where
  "is_outgoing t \<longleftrightarrow> origin_server t = [] \<and> target_server t \<noteq> [] \<and> state t = Committed"

definition upsert_file :: "file_entry list \<Rightarrow> file_entry \<Rightarrow> file_entry list" where
  "upsert_file fs e =
     (let i = lower_bound fe_path (fe_path e) fs
      in if i < length fs \<and> fe_path (fs ! i) = fe_path e then fs[i := e]
         else take i fs @ e # drop i fs)"

text \<open>\<open>std::ranges::find\<close> and \<open>erase\<close> in \<open>remove_file\<close>; \<open>None\<close> when no entry has the path.\<close>

fun erase_file :: "relative_path \<Rightarrow> file_entry list \<Rightarrow> file_entry list option" where
  "erase_file p [] = None"
| "erase_file p (f # fs) = (if fe_path f = p then Some fs else map_option ((#) f) (erase_file p fs))"

subsection \<open>State names and comments\<close>

lemma state_name_inj: "state_name a = state_name b \<longleftrightarrow> a = b"
  by (cases a; cases b) simp_all

interpretation state_text: canonical_codec state_name parse_state "\<lambda>_. True"
proof unfold_locales
  show "parse_state (state_name x) = Inr x" for x
    by (cases x) (simp_all add: parse_state_def)
  show "state_name x = t" if "parse_state t = Inr x" for t x
    using that by (auto simp: parse_state_def split: option.splits if_splits)
qed simp

text \<open>
  What \<open>check_comment\<close> counts: the bytes that start a code point of UTF-8 text.
\<close>

definition code_points :: "string \<Rightarrow> nat" where
  "code_points s = length (filter (\<lambda>c. ord c AND 0xC0 \<noteq> 0x80) s)"

definition control_char :: "char \<Rightarrow> bool" where
  "control_char c \<longleftrightarrow> ord c < 0x20 \<or> ord c = 0x7f"

lemma comment_length_eq:
  "comment_length s len = (if list_ex control_char s then None else Some (len + code_points s))"
  by (induction s arbitrary: len) (auto simp: control_char_def code_points_def)

lemma check_comment_iff:
  "check_comment s n = Inr u \<longleftrightarrow> \<not> list_ex control_char s \<and> code_points s \<le> n"
  by (simp add: check_comment_def comment_length_eq fail_def)

subsection \<open>The sorted list of files\<close>

definition files_ok :: "file_entry list \<Rightarrow> bool" where
  "files_ok fs \<longleftrightarrow>
     sorted_by fe_path fs \<and>
     list_all (\<lambda>f. valid_path (fe_path f) \<and> fe_size f < 2 ^ 64 \<and> length (fe_sha256 f) = 32) fs"

lemma find_file_simps:
  "find_file [] p = None"
  "find_file (f # fs) p = (if fe_path f < p then find_file fs p else if fe_path f = p then Some f else None)"
  by (simp_all add: find_file_def Let_def)

lemma upsert_file_simps:
  "upsert_file [] e = [e]"
  "upsert_file (f # fs) e =
     (if fe_path f < fe_path e then f # upsert_file fs e
      else if fe_path f = fe_path e then e # fs else e # f # fs)"
  by (simp_all add: upsert_file_def Let_def)

lemma find_file_iff:
  "sorted_by fe_path fs \<Longrightarrow> find_file fs p = Some f \<longleftrightarrow> f \<in> set fs \<and> fe_path f = p"
  by (induction fs) (auto simp: find_file_simps dest: less_asym)

lemma find_file_None: "sorted_by fe_path fs \<Longrightarrow> find_file fs p = None \<longleftrightarrow> p \<notin> fe_path ` set fs"
  by (induction fs) (auto simp: find_file_simps dest: less_asym)

lemma set_upsert_file:
  "sorted_by fe_path fs \<Longrightarrow> set (upsert_file fs e) = insert e {f \<in> set fs. fe_path f \<noteq> fe_path e}"
  by (induction fs) (auto simp: upsert_file_simps dest: less_asym)

lemma sorted_upsert_file: "sorted_by fe_path fs \<Longrightarrow> sorted_by fe_path (upsert_file fs e)"
  by (induction fs) (auto simp: upsert_file_simps set_upsert_file)

lemma find_upsert_file:
  "sorted_by fe_path fs \<Longrightarrow>
   find_file (upsert_file fs e) p = (if p = fe_path e then Some e else find_file fs p)"
  by (induction fs) (auto simp: upsert_file_simps find_file_simps)

lemma erase_file_None: "erase_file p fs = None \<longleftrightarrow> p \<notin> fe_path ` set fs"
  by (induction fs) auto

lemma erase_file_Some:
  "erase_file p fs = Some gs \<Longrightarrow> sorted_by fe_path fs \<Longrightarrow>
   sorted_by fe_path gs \<and> set gs = {f \<in> set fs. fe_path f \<noteq> p} \<and> p \<in> fe_path ` set fs"
proof (induction fs arbitrary: gs)
  case (Cons f fs)
  show ?case
  proof (cases "fe_path f = p")
    case True
    with Cons.prems show ?thesis by auto
  next
    case False
    then obtain hs where hs: "erase_file p fs = Some hs" "gs = f # hs" using Cons.prems by auto
    with Cons.IH [OF hs(1)] Cons.prems False show ?thesis by auto
  qed
qed simp

lemma files_ok_upsert:
  "files_ok fs \<Longrightarrow> valid_path (fe_path e) \<Longrightarrow> fe_size e < 2 ^ 64 \<Longrightarrow> length (fe_sha256 e) = 32 \<Longrightarrow>
   files_ok (upsert_file fs e)"
  by (auto simp: files_ok_def sorted_upsert_file set_upsert_file list_all_iff)

lemma files_ok_erase: "files_ok fs \<Longrightarrow> erase_file p fs = Some gs \<Longrightarrow> files_ok gs"
  by (auto simp: files_ok_def list_all_iff dest: erase_file_Some)

lemma total_bytes_eq: "total_bytes fs = sum_list (map fe_size fs) mod 2 ^ 64"
proof -
  have "foldl (\<lambda>s f. (s + fe_size f) mod 2 ^ 64) a fs = (a + sum_list (map fe_size fs)) mod 2 ^ 64"
    if "a < 2 ^ 64" for a
    using that
  proof (induction fs arbitrary: a)
    case (Cons f fs)
    then show ?case by (simp add: mod_add_left_eq add.assoc)
  qed simp
  then show ?thesis by (simp add: total_bytes_def)
qed

subsection \<open>States only move forward\<close>

fun state_rank :: "tx_state \<Rightarrow> nat" where
  "state_rank Open = 0" | "state_rank Committed = 1" | "state_rank Delivered = 2" | "state_rank Expired = 3"

lemma can_transition_rank: "can_transition a b \<Longrightarrow> state_rank a < state_rank b"
  by (cases a; cases b) auto

lemma check_transition_iff [try_simps]: "check_transition a b = Inr u \<longleftrightarrow> can_transition a b"
  by (simp add: check_transition_def fail_def)

lemma require_mutable_iff [try_simps]: "require_mutable st = Inr u \<longleftrightarrow> st = Open"
  by (cases st) auto

lemma require_readable_iff [try_simps]:
  "require_readable st = Inr u \<longleftrightarrow> st = Committed \<or> st = Delivered"
  by (cases st) auto

lemma check_transition_code:
  "\<not> can_transition a b \<Longrightarrow> \<exists>d. check_transition a b = fail (if a = Expired then Gone else Conflict) d"
  by (auto simp: check_transition_def)

lemma may_read_cases:
  assumes "may_read c t chk"
  obtains "may_write c t" | "is_target c t chk" "state t \<noteq> Open"
  using assms by (auto simp: may_read_def may_write_def)

end
