(* ===== verification/Json_Library.thy ===== *)
theory Json_Library
  imports Log_Business
begin

section \<open>JSON values and the JSON library\<close>

text \<open>
  The documents on disk, the bodies of requests and responses and the client's cache are JSON,
  read and written with Boost.JSON. \<open>json\<close> has the kinds of \<^verbatim>\<open>boost::json::value\<close>. The text form is
  a parameter: a \<open>json_lib\<close> holds \<^verbatim>\<open>boost::json::parse\<close> and \<^verbatim>\<open>boost::json::serialize\<close>.
  \<open>json_sound\<close> states what the sources rely on: a value whose strings are valid UTF-8 is read
  back as it was written, numbers that fit \<^verbatim>\<open>int64\<close> as such. \<open>json_utf8\<close> states that the parser
  refuses text that is not UTF-8 and that its numbers have 64 bits. \<open>sample_json\<close> is a reader and writer of compact
  JSON text for which both hold.
\<close>

subsection \<open>Model\<close>

datatype json =
    JNull
  | JBool bool
  | JInt int
  | JUint nat
  | JDouble string
  | JString string
  | JArray "json list"
  | JObject "(string \<times> json) list"

record json_lib =
  jparse :: "string \<Rightarrow> string + json"
  jserialize :: "json \<Rightarrow> string"

type_synonym json_object = "(string \<times> json) list"

definition cont_byte :: "char \<Rightarrow> bool" where
  "cont_byte = char_in 0x80 0xBF"

text \<open>Well-formed UTF-8: no overlong forms, no surrogates, nothing above U+10FFFF.\<close>

definition utf8_tail :: "char \<Rightarrow> string \<Rightarrow> string option" where
  "utf8_tail c s =
     (if ord c < 0x80 then Some s
      else if char_in 0xC2 0xDF c then
        (case s of a # r \<Rightarrow> if cont_byte a then Some r else None | _ \<Rightarrow> None)
      else if char_in 0xE0 0xEF c then
        (case s of
           a # b # r \<Rightarrow>
             if cont_byte a \<and> cont_byte b \<and> (ord c = 0xE0 \<longrightarrow> 0xA0 \<le> ord a) \<and> (ord c = 0xED \<longrightarrow> ord a < 0xA0)
             then Some r else None
         | _ \<Rightarrow> None)
      else if char_in 0xF0 0xF4 c then
        (case s of
           a # b # d # r \<Rightarrow>
             if cont_byte a \<and> cont_byte b \<and> cont_byte d \<and> (ord c = 0xF0 \<longrightarrow> 0x90 \<le> ord a) \<and>
                (ord c = 0xF4 \<longrightarrow> ord a < 0x90)
             then Some r else None
         | _ \<Rightarrow> None)
      else None)"

lemma utf8_tail_less: "utf8_tail c s = Some r \<Longrightarrow> length r \<le> length s"
  by (auto simp: utf8_tail_def split: if_splits list.splits)

function valid_utf8 :: "string \<Rightarrow> bool" where
  "valid_utf8 [] = True"
| "valid_utf8 (c # s) = (case utf8_tail c s of None \<Rightarrow> False | Some r \<Rightarrow> valid_utf8 r)"
  by pat_completeness auto
termination
  by (relation "measure length") (auto simp: less_Suc_eq_le dest: utf8_tail_less)

text \<open>Nesting, which the parser bounds by 32, and the values it reads back as they were written.\<close>

definition max_list :: "nat list \<Rightarrow> nat" where
  "max_list ns = foldr max ns 0"

primrec jdepth :: "json \<Rightarrow> nat" where
  "jdepth JNull = 0"
| "jdepth (JBool b) = 0"
| "jdepth (JInt i) = 0"
| "jdepth (JUint n) = 0"
| "jdepth (JDouble d) = 0"
| "jdepth (JString s) = 0"
| "jdepth (JArray vs) = Suc (max_list (map jdepth vs))"
| "jdepth (JObject kvs) = Suc (max_list (map snd (map (map_prod id jdepth) kvs)))"

primrec plain_json :: "json \<Rightarrow> bool" where
  "plain_json JNull = True"
| "plain_json (JBool b) = True"
| "plain_json (JInt i) = (- (2 ^ 63) \<le> i \<and> i < 2 ^ 63)"
| "plain_json (JUint n) = (n < 2 ^ 64)"
| "plain_json (JDouble d) = False"
| "plain_json (JString s) = valid_utf8 s"
| "plain_json (JArray vs) = list_all id (map plain_json vs)"
| "plain_json (JObject kvs) =
     (distinct (map fst kvs) \<and> list_all (\<lambda>kv. valid_utf8 (fst kv)) kvs \<and>
      list_all snd (map (map_prod id plain_json) kvs))"

definition kMaxDepth :: nat where "kMaxDepth = 32"

definition wf_json :: "json \<Rightarrow> bool" where
  "wf_json v \<longleftrightarrow> plain_json v \<and> jdepth v \<le> kMaxDepth"

text \<open>The parser gives a non-negative number that fits the kind \<^verbatim>\<open>int64\<close>.\<close>

primrec canon :: "json \<Rightarrow> json" where
  "canon JNull = JNull"
| "canon (JBool b) = JBool b"
| "canon (JInt i) = JInt i"
| "canon (JUint n) = (if n < 2 ^ 63 then JInt (int n) else JUint n)"
| "canon (JDouble d) = JDouble d"
| "canon (JString s) = JString s"
| "canon (JArray vs) = JArray (map canon vs)"
| "canon (JObject kvs) = JObject (map (map_prod id canon) kvs)"

definition json_sound :: "json_lib \<Rightarrow> bool" where
  "json_sound J \<longleftrightarrow> (\<forall>v. wf_json v \<longrightarrow> jparse J (jserialize J v) = Inr (canon v))"

primrec utf8_json :: "json \<Rightarrow> bool" where
  "utf8_json JNull = True"
| "utf8_json (JBool b) = True"
| "utf8_json (JInt i) = (- (2 ^ 63) \<le> i \<and> i < 2 ^ 63)"
| "utf8_json (JUint n) = (n < 2 ^ 64)"
| "utf8_json (JDouble d) = True"
| "utf8_json (JString s) = valid_utf8 s"
| "utf8_json (JArray vs) = list_all id (map utf8_json vs)"
| "utf8_json (JObject kvs) = list_all snd (map (map_prod id utf8_json) kvs)"

definition json_utf8 :: "json_lib \<Rightarrow> bool" where
  "json_utf8 J \<longleftrightarrow> (\<forall>s v. jparse J s = Inr v \<longrightarrow> utf8_json v)"

definition if_contains :: "json_object \<Rightarrow> string \<Rightarrow> json option" where
  "if_contains obj key = map_of obj key"

subsection \<open>ASCII text is UTF-8\<close>

definition ascii :: "string \<Rightarrow> bool" where
  "ascii s \<longleftrightarrow> list_all (\<lambda>c. ord c < 0x80) s"

lemma ascii_valid_utf8: "ascii s \<Longrightarrow> valid_utf8 s"
  by (induction s) (auto simp: ascii_def utf8_tail_def)

lemma ascii_append [simp]: "ascii (s @ t) \<longleftrightarrow> ascii s \<and> ascii t"
  by (simp add: ascii_def)

lemma ascii_Cons: "ascii (c # s) \<longleftrightarrow> ord c < 0x80 \<and> ascii s"
  by (simp add: ascii_def)

lemma ascii_Nil [simp]: "ascii []"
  by (simp add: ascii_def)

lemmas ascii_lit = ascii_Cons ord_def

lemma ascii_dec [simp]: "ascii (dec n)"
proof -
  have "ord c < 0x80" if "c \<in> set (dec n)" for c
    using dec_digits [OF that] by (simp add: char_in_def)
  then show ?thesis by (simp add: ascii_def list_all_iff)
qed

lemma ascii_pad [simp]: "ascii (pad w n)"
  by (simp add: pad_def) (simp add: ascii_def list_all_iff ord_def)

lemma ascii_format_iso8601 [simp]: "ascii (format_iso8601 t)"
  by (simp add: format_iso8601_def Let_def split_beta format_year_def) (simp add: ascii_lit)

subsection \<open>A reader and writer of compact JSON text\<close>

definition jtext :: "string \<Rightarrow> string" where
  "jtext s = quote # json_escape s @ [quote]"

fun commas :: "string list \<Rightarrow> string" where
  "commas [] = []"
| "commas [x] = x"
| "commas (x # y # xs) = x @ '','' @ commas (y # xs)"

primrec sample_print :: "json \<Rightarrow> string" where
  "sample_print JNull = ''null''"
| "sample_print (JBool b) = (if b then ''true'' else ''false'')"
| "sample_print (JInt i) = dec_int i"
| "sample_print (JUint n) = dec n"
| "sample_print (JDouble d) = d"
| "sample_print (JString s) = jtext s"
| "sample_print (JArray vs) = ''['' @ commas (map sample_print vs) @ '']''"
| "sample_print (JObject kvs) =
     ''{'' @ commas (map (\<lambda>kv. jtext (fst kv) @ '':'' @ snd kv) (map (map_prod id sample_print) kvs)) @ ''}''"

definition read_number :: "string \<Rightarrow> (json \<times> string) option" where
  "read_number s =
     (case from_chars_int64 s of
        Some (i, r) \<Rightarrow> Some (JInt i, r)
      | None \<Rightarrow> (case from_chars (2 ^ 64 - 1) s of Some (n, r) \<Rightarrow> Some (JUint n, r) | None \<Rightarrow> None))"

definition read_jstring :: "string \<Rightarrow> (string \<times> string) option" where
  "read_jstring s =
     (case read_string s of Some (t, r) \<Rightarrow> if valid_utf8 t then Some (t, r) else None | None \<Rightarrow> None)"

definition expect :: "string \<Rightarrow> json \<Rightarrow> string \<Rightarrow> (json \<times> string) option" where
  "expect lit v s = (if starts_with s lit then Some (v, drop (length lit) s) else None)"

fun read_value :: "nat \<Rightarrow> string \<Rightarrow> (json \<times> string) option"
  and read_elems :: "nat \<Rightarrow> string \<Rightarrow> (json list \<times> string) option"
  and read_members :: "nat \<Rightarrow> string \<Rightarrow> (json_object \<times> string) option" where
  "read_value 0 s = None"
| "read_value (Suc n) s =
     (case s of
        [] \<Rightarrow> None
      | c # r \<Rightarrow>
          if c = CHR ''n'' then expect ''null'' JNull s
          else if c = CHR ''t'' then expect ''true'' (JBool True) s
          else if c = CHR ''f'' then expect ''false'' (JBool False) s
          else if c = quote then map_option (map_prod JString id) (read_jstring r)
          else if c = CHR ''['' then
            (if starts_with r '']'' then Some (JArray [], tl r) else map_option (map_prod JArray id) (read_elems n r))
          else if c = CHR ''{'' then
            (if starts_with r ''}'' then Some (JObject [], tl r) else map_option (map_prod JObject id) (read_members n r))
          else read_number s)"
| "read_elems 0 s = None"
| "read_elems (Suc n) s =
     (case read_value n s of
        Some (v, c # r) \<Rightarrow>
          if c = CHR '','' then map_option (map_prod ((#) v) id) (read_elems n r)
          else if c = CHR '']'' then Some ([v], r) else None
      | _ \<Rightarrow> None)"
| "read_members 0 s = None"
| "read_members (Suc n) s =
     (case s of
        q # s' \<Rightarrow>
          if q = quote then
            (case read_jstring s' of
               Some (k, co # s'') \<Rightarrow>
                 if co = CHR '':'' then
                   (case read_value n s'' of
                      Some (v, c # r) \<Rightarrow>
                        if c = CHR '','' then map_option (map_prod ((#) (k, v)) id) (read_members n r)
                        else if c = CHR ''}'' then Some ([(k, v)], r) else None
                    | _ \<Rightarrow> None)
                 else None
             | _ \<Rightarrow> None)
          else None
      | _ \<Rightarrow> None)"

definition sample_json :: json_lib where
  "sample_json = \<lparr>
     jparse = (\<lambda>s. case read_value (2 * length s + 2) s of
        Some (v, []) \<Rightarrow> Inr v
      | _ \<Rightarrow> Inl ''syntax error''),
     jserialize = sample_print\<rparr>"

lemma read_jstring_jtext: "valid_utf8 s \<Longrightarrow> read_jstring (json_escape s @ quote # r) = Some (s, r)"
  by (simp add: read_jstring_def read_string_escape)

definition no_digit :: "string \<Rightarrow> bool" where
  "no_digit r \<longleftrightarrow> (case r of [] \<Rightarrow> True | c # _ \<Rightarrow> \<not> is_digit c)"

lemma from_chars_dec_rest:
  assumes "no_digit r"
  shows "from_chars mx (dec n @ r) = (if n \<le> mx then Some (n, r) else None)"
proof -
  have "takeWhile is_digit (dec n @ r) = dec n" "dropWhile is_digit (dec n @ r) = r"
    using assms by (auto simp: takeWhile_append dropWhile_append dec_digits no_digit_def
        takeWhile_eq_all_conv split: list.splits)
  then show ?thesis by (auto simp: from_chars_def Let_def)
qed

lemma dec_head: "\<exists>c cs. dec n = c # cs \<and> is_digit c"
  using dec_digits [of _ n] by (cases "dec n") auto

lemma from_chars_int64_digit:
  "c \<noteq> CHR ''-'' \<Longrightarrow>
   from_chars_int64 (c # s) = map_option (\<lambda>(v, r). (int v, r)) (from_chars (2 ^ 63 - 1) (c # s))"
  by (cases c) (auto simp: from_chars_int64_def split: bool.splits)

lemma from_chars_int64_dec_rest:
  assumes "no_digit r"
  shows "from_chars_int64 (dec n @ r) = (if n < 2 ^ 63 then Some (int n, r) else None)"
proof -
  obtain c cs where c: "dec n = c # cs" "is_digit c" using dec_head by blast
  then have "c \<noteq> CHR ''-''" by (auto simp: char_in_def ord_def)
  then have "from_chars_int64 (dec n @ r) = map_option (\<lambda>(v, r). (int v, r)) (from_chars (2 ^ 63 - 1) (dec n @ r))"
    unfolding c by (simp add: from_chars_int64_digit)
  then show ?thesis by (auto simp: from_chars_dec_rest [OF assms])
qed

lemma read_number_dec:
  assumes "no_digit r"
  shows "n < 2 ^ 64 \<Longrightarrow> read_number (dec n @ r) = Some (canon (JUint n), r)"
    and "- (2 ^ 63) \<le> i \<Longrightarrow> i < 2 ^ 63 \<Longrightarrow> read_number (dec_int i @ r) = Some (JInt i, r)"
proof -
  show "n < 2 ^ 64 \<Longrightarrow> read_number (dec n @ r) = Some (canon (JUint n), r)"
    by (simp add: read_number_def from_chars_int64_dec_rest [OF assms] from_chars_dec_rest [OF assms])
  assume i: "- (2 ^ 63) \<le> i" "i < 2 ^ 63"
  show "read_number (dec_int i @ r) = Some (JInt i, r)"
  proof (cases "i < 0")
    case True
    then show ?thesis
      using i by (simp add: read_number_def dec_int_def from_chars_int64_def from_chars_dec_rest [OF assms] nat_le_iff)
  next
    case False
    then show ?thesis
      using i by (simp add: read_number_def dec_int_def from_chars_int64_dec_rest [OF assms] nat_less_iff)
  qed
qed

definition reads :: "json \<Rightarrow> bool" where
  "reads v \<longleftrightarrow>
     (\<forall>n r. 2 * length (sample_print v) + 1 \<le> n \<longrightarrow> no_digit r \<longrightarrow>
        read_value n (sample_print v @ r) = Some (canon v, r))"

lemma reads_intro:
  assumes "\<And>m r. 2 * length (sample_print v) \<le> m \<Longrightarrow> no_digit r \<Longrightarrow>
      read_value (Suc m) (sample_print v @ r) = Some (canon v, r)"
  shows "reads v"
  unfolding reads_def
proof (intro allI impI)
  fix n r assume n: "2 * length (sample_print v) + 1 \<le> n" and r: "no_digit r"
  then obtain m where "n = Suc m" by (cases n) auto
  with assms [of m r] n r show "read_value n (sample_print v @ r) = Some (canon v, r)" by simp
qed

lemma map_prod_id: "map (map_prod id f) kvs = map (\<lambda>kv. (fst kv, f (snd kv))) kvs"
  by (auto simp: map_prod_def split_beta)

lemma no_digit_lit: "no_digit (CHR '','' # r)" "no_digit (CHR '']'' # r)" "no_digit (CHR ''}'' # r)" "no_digit []"
  by (simp_all add: no_digit_def char_in_def ord_def)

lemma read_elems_print:
  assumes "\<And>v. v \<in> set vs \<Longrightarrow> reads v" "vs \<noteq> []"
    "2 * length (commas (map sample_print vs)) + 2 \<le> n"
  shows "read_elems n (commas (map sample_print vs) @ CHR '']'' # r) = Some (map canon vs, r)"
  using assms
proof (induction vs arbitrary: n)
  case (Cons v vs)
  obtain m where n: "n = Suc m" using Cons.prems(3) by (cases n) auto
  have v: "reads v" using Cons.prems(1) by simp
  show ?case
  proof (cases vs)
    case Nil
    then have "read_value m (sample_print v @ CHR '']'' # r) = Some (canon v, CHR '']'' # r)"
      using v Cons.prems(3) n by (simp add: reads_def no_digit_lit)
    with n Nil show ?thesis by simp
  next
    case (Cons w ws)
    let ?rest = "commas (map sample_print vs) @ CHR '']'' # r"
    have "read_value m (sample_print v @ CHR '','' # ?rest) = Some (canon v, CHR '','' # ?rest)"
      using v Cons.prems(3) n Cons by (simp add: reads_def no_digit_lit)
    moreover have "read_elems m ?rest = Some (map canon vs, r)"
      using Cons.IH [of m] Cons.prems n Cons by simp
    ultimately show ?thesis using n Cons by simp
  qed
qed simp

abbreviation print_member :: "string \<times> json \<Rightarrow> string" where
  "print_member \<equiv> \<lambda>kv. jtext (fst kv) @ '':'' @ sample_print (snd kv)"

lemma read_members_print:
  assumes "\<And>kv. kv \<in> set kvs \<Longrightarrow> reads (snd kv) \<and> valid_utf8 (fst kv)" "kvs \<noteq> []"
    "2 * length (commas (map print_member kvs)) + 2 \<le> n"
  shows "read_members n (commas (map print_member kvs) @ CHR ''}'' # r) = Some (map (\<lambda>kv. (fst kv, canon (snd kv))) kvs, r)"
  using assms
proof (induction kvs arbitrary: n)
  case (Cons kv kvs)
  obtain m where n: "n = Suc m" using Cons.prems(3) by (cases n) auto
  obtain k v where kv: "kv = (k, v)" by (cases kv)
  have v: "reads v" and k: "valid_utf8 k" using Cons.prems(1) [of kv] kv by simp_all
  show ?case
  proof (cases kvs)
    case Nil
    then have "read_value m (sample_print v @ CHR ''}'' # r) = Some (canon v, CHR ''}'' # r)"
      using v Cons.prems(3) n kv by (simp add: reads_def no_digit_lit)
    with n Nil kv k show ?thesis by (simp add: jtext_def read_jstring_jtext)
  next
    case (Cons w ws)
    let ?rest = "commas (map print_member kvs) @ CHR ''}'' # r"
    have "read_value m (sample_print v @ CHR '','' # ?rest) = Some (canon v, CHR '','' # ?rest)"
      using v Cons.prems(3) n Cons kv by (simp add: reads_def no_digit_lit)
    moreover have "read_members m ?rest = Some (map (\<lambda>kv. (fst kv, canon (snd kv))) kvs, r)"
      using Cons.IH [of m] Cons.prems n Cons by simp
    ultimately show ?thesis using n Cons kv k by (simp add: jtext_def read_jstring_jtext)
  qed
qed simp

lemma number_head:
  "\<exists>c cs. dec_int i = c # cs \<and> c \<notin> {CHR ''n'', CHR ''t'', CHR ''f'', quote, CHR ''['', CHR ''{'', CHR '']'', CHR ''}''}"
  "\<exists>c cs. dec n = c # cs \<and> c \<notin> {CHR ''n'', CHR ''t'', CHR ''f'', quote, CHR ''['', CHR ''{'', CHR '']'', CHR ''}''}"
proof -
  show d: "\<exists>c cs. dec n = c # cs \<and> c \<notin> {CHR ''n'', CHR ''t'', CHR ''f'', quote, CHR ''['', CHR ''{'', CHR '']'', CHR ''}''}" for n
    using dec_head [of n] by (auto simp: char_in_def ord_def)
  show "\<exists>c cs. dec_int i = c # cs \<and> c \<notin> {CHR ''n'', CHR ''t'', CHR ''f'', quote, CHR ''['', CHR ''{'', CHR '']'', CHR ''}''}"
    using d [of "nat i"] by (auto simp: dec_int_def)
qed

lemma print_head: "plain_json v \<Longrightarrow> \<exists>c cs. sample_print v = c # cs \<and> c \<noteq> CHR '']''"
proof (cases v)
  case (JInt i)
  then show ?thesis using number_head(1) [of i] by auto
next
  case (JUint n)
  then show ?thesis using number_head(2) [of n] by auto
qed (auto simp: jtext_def)

lemma commas_head: "xs \<noteq> [] \<Longrightarrow> hd xs \<noteq> [] \<Longrightarrow> \<exists>s. commas xs = hd xs @ s"
  by (cases xs rule: commas.cases) auto

lemma read_value_print: "plain_json v \<Longrightarrow> reads v"
proof (induction v)
  case JNull
  show ?case by (rule reads_intro) (simp add: expect_def starts_with_def)
next
  case (JBool b)
  show ?case by (rule reads_intro) (simp add: expect_def starts_with_def)
next
  case (JInt i)
  obtain c cs where c: "dec_int i = c # cs"
    "c \<notin> {CHR ''n'', CHR ''t'', CHR ''f'', quote, CHR ''['', CHR ''{'', CHR '']'', CHR ''}''}"
    using number_head(1) [of i] by (elim exE conjE) (rule that)
  have "read_number (c # cs @ r) = Some (JInt i, r)" if "no_digit r" for r
    using read_number_dec(2) [OF that, of i] JInt c(1) by simp
  then show ?case
    by (intro reads_intro) (use c in \<open>simp add: c(1)\<close>)
next
  case (JUint k)
  obtain c cs where c: "dec k = c # cs"
    "c \<notin> {CHR ''n'', CHR ''t'', CHR ''f'', quote, CHR ''['', CHR ''{'', CHR '']'', CHR ''}''}"
    using number_head(2) [of k] by (elim exE conjE) (rule that)
  have "read_number (c # cs @ r) = Some (canon (JUint k), r)" if "no_digit r" for r
    using read_number_dec(1) [OF that, of k] JUint c(1) by simp
  then show ?case
    by (intro reads_intro) (use c in \<open>simp add: c(1) del: canon.simps\<close>)
next
  case (JString t)
  then show ?case by (intro reads_intro) (simp add: jtext_def read_jstring_jtext)
next
  case (JArray vs)
  show ?case
  proof (rule reads_intro)
    fix m r assume n: "2 * length (sample_print (JArray vs)) \<le> m"
    show "read_value (Suc m) (sample_print (JArray vs) @ r) = Some (canon (JArray vs), r)"
    proof (cases "vs = []")
      case False
      then have e: "read_elems m (commas (map sample_print vs) @ CHR '']'' # r) = Some (map canon vs, r)"
        using JArray n by (intro read_elems_print) (auto simp: list_all_iff)
      obtain c cs where c: "sample_print (hd vs) = c # cs" "c \<noteq> CHR '']''"
        using print_head [of "hd vs"] JArray.prems False by (auto simp: list_all_iff)
      moreover obtain s where "commas (map sample_print vs) = sample_print (hd vs) @ s"
        using commas_head [of "map sample_print vs"] False c by (auto simp: hd_map)
      ultimately have "commas (map sample_print vs) = c # cs @ s" by simp
      with e c(2) show ?thesis by (simp add: starts_with_def)
    qed (simp add: starts_with_def)
  qed
next
  case (JObject kvs)
  show ?case
  proof (rule reads_intro)
    fix m r assume n: "2 * length (sample_print (JObject kvs)) \<le> m"
    have mp: "map (\<lambda>kv. jtext (fst kv) @ '':'' @ snd kv) (map (map_prod id sample_print) kvs) = map print_member kvs"
      by simp
    show "read_value (Suc m) (sample_print (JObject kvs) @ r) = Some (canon (JObject kvs), r)"
    proof (cases "kvs = []")
      case False
      have k: "reads (snd kv) \<and> valid_utf8 (fst kv)" if "kv \<in> set kvs" for kv
        using JObject.IH [OF that, of "snd kv"] JObject.prems that by (auto simp: list_all_iff snds.simps)
      have e: "read_members m (commas (map print_member kvs) @ CHR ''}'' # r) =
          Some (map (\<lambda>kv. (fst kv, canon (snd kv))) kvs, r)"
        using n False unfolding sample_print.simps mp by (intro read_members_print k) auto
      obtain s where s: "commas (map print_member kvs) = print_member (hd kvs) @ s"
        using commas_head [of "map print_member kvs"] False by (auto simp: hd_map jtext_def)
      have "\<not> starts_with (commas (map print_member kvs) @ t) ''}''" for t
        unfolding s by (simp add: jtext_def starts_with_def)
      with e show ?thesis unfolding sample_print.simps mp canon.simps map_prod_id by (simp add: comp_def)
    qed (simp add: starts_with_def)
  qed
qed simp

lemma sample_json_sound: "json_sound sample_json"
  unfolding json_sound_def
proof (intro allI impI)
  fix v assume "wf_json v"
  then have "reads v" by (simp add: wf_json_def read_value_print)
  from this [unfolded reads_def, rule_format, of "2 * length (sample_print v) + 2" "[]"]
  have "read_value (2 * length (sample_print v) + 2) (sample_print v) = Some (canon v, [])"
    by (simp add: no_digit_lit del: read_value.simps)
  then show "jparse sample_json (jserialize sample_json v) = Inr (canon v)"
    by (simp add: sample_json_def del: read_value.simps)
qed

lemma read_jstring_valid: "read_jstring s = Some (t, r) \<Longrightarrow> valid_utf8 t"
  by (auto simp: read_jstring_def split: option.splits if_splits)

lemma from_chars_int64_range: "from_chars_int64 s = Some (i, r) \<Longrightarrow> - (2 ^ 63) \<le> i \<and> i < 2 ^ 63"
  by (auto simp: from_chars_int64_def split: list.splits char.splits bool.splits dest!: from_chars_Some_le)

lemma read_number_utf8: "read_number s = Some (v, r) \<Longrightarrow> utf8_json v"
  by (auto simp: read_number_def split: option.splits dest: from_chars_int64_range from_chars_Some_le)

lemma read_elems_Suc:
  assumes "read_elems (Suc n) s = Some (vs, r)"
  obtains v r' ws where "read_value n s = Some (v, CHR '','' # r')" "read_elems n r' = Some (ws, r)" "vs = v # ws"
  | v where "read_value n s = Some (v, CHR '']'' # r)" "vs = [v]"
  using assms by (auto split: option.splits list.splits if_splits)

lemma read_members_Suc:
  assumes "read_members (Suc n) s = Some (kvs, r)"
  obtains s' k s'' v r' ws where "s = quote # s'" "read_jstring s' = Some (k, CHR '':'' # s'')"
    "read_value n s'' = Some (v, CHR '','' # r')" "read_members n r' = Some (ws, r)" "kvs = (k, v) # ws"
  | s' k s'' v where "s = quote # s'" "read_jstring s' = Some (k, CHR '':'' # s'')"
    "read_value n s'' = Some (v, CHR ''}'' # r)" "kvs = [(k, v)]"
  using assms by (auto split: option.splits list.splits if_splits)

lemma read_value_Suc:
  assumes "read_value (Suc n) s = Some (v, r)"
  obtains "utf8_json v"
  | s' vs where "read_elems n s' = Some (vs, r)" "v = JArray vs"
  | s' kvs where "read_members n s' = Some (kvs, r)" "v = JObject kvs"
  using assms
  by (auto simp: expect_def split: list.splits if_splits dest: read_jstring_valid read_number_utf8)

lemma read_utf8:
  "(\<forall>s v r. read_value n s = Some (v, r) \<longrightarrow> utf8_json v) \<and>
   (\<forall>s vs r. read_elems n s = Some (vs, r) \<longrightarrow> list_all utf8_json vs) \<and>
   (\<forall>s kvs r. read_members n s = Some (kvs, r) \<longrightarrow> list_all (\<lambda>kv. utf8_json (snd kv)) kvs)"
proof (induction n)
  case (Suc n)
  note ih = Suc [THEN conjunct1, rule_format] Suc [THEN conjunct2, THEN conjunct1, rule_format]
    Suc [THEN conjunct2, THEN conjunct2, rule_format]
  have v: "utf8_json v" if "read_value (Suc n) s = Some (v, r)" for s v r
    using that
  proof (rule read_value_Suc)
    fix s' kvs assume "read_members n s' = Some (kvs, r)" "v = JObject kvs"
    then show ?thesis using ih(3) [of s' kvs r] by (simp add: list_all_iff)
  next
    fix s' vs assume "read_elems n s' = Some (vs, r)" "v = JArray vs"
    then show ?thesis using ih(2) [of s' vs r] by (simp add: list_all_iff)
  qed
  have e: "list_all utf8_json vs" if "read_elems (Suc n) s = Some (vs, r)" for s vs r
    by (rule read_elems_Suc [OF that]) (use ih(1,2) in simp_all)
  have m: "list_all (\<lambda>kv. utf8_json (snd kv)) kvs" if "read_members (Suc n) s = Some (kvs, r)" for s kvs r
    by (rule read_members_Suc [OF that]) (use ih(1,3) in simp_all)
  show ?case by (intro conjI allI impI; (erule v | erule e | erule m))
qed simp

declare read_value.simps [simp del]

lemma sample_json_utf8: "json_utf8 sample_json"
  unfolding json_utf8_def
proof (intro allI impI)
  fix s v assume "jparse sample_json s = Inr v"
  then have "read_value (2 * length s + 2) s = Some (v, [])"
    by (auto simp: sample_json_def split: option.splits list.splits)
  then show "utf8_json v" by (rule read_utf8 [THEN conjunct1, rule_format])
qed

end
