(* ===== verification/Tx_Codec.thy ===== *)
theory Tx_Codec
  imports Tx_Model Json_Library
begin

section \<open>The documents of a transaction\<close>

text \<open>
  \<^verbatim>\<open>src/src/lib/transaction/codec.cpp\<close>: \<^verbatim>\<open>meta.json\<close> and \<^verbatim>\<open>manifest.json\<close>. The decoders check every
  field; the errors are those of the code, with the name of the field in front.
\<close>

subsection \<open>Model: reading fields\<close>

definition invalid :: "string \<Rightarrow> 'a result" where
  "invalid d = fail Validation d"

definition in_field :: "string \<Rightarrow> 'a result \<Rightarrow> 'a result" where
  "in_field key r = (case r of Inl e \<Rightarrow> invalid (key @ '': '' @ detail e) | Inr x \<Rightarrow> Inr x)"

definition parse_object :: "json_lib \<Rightarrow> string \<Rightarrow> json_object result" where
  "parse_object J s =
     (case jparse J s of
        Inl msg \<Rightarrow> invalid (''malformed JSON: '' @ msg)
      | Inr v \<Rightarrow> (case v of JObject obj \<Rightarrow> Inr obj | _ \<Rightarrow> invalid ''JSON document is not an object''))"

definition get_string :: "json_object \<Rightarrow> string \<Rightarrow> string result" where
  "get_string obj key =
     (case if_contains obj key of
        Some (JString s) \<Rightarrow> Inr s
      | _ \<Rightarrow> invalid (''missing or non-string field: '' @ key))"

definition get_optional_string :: "json_object \<Rightarrow> string \<Rightarrow> string result" where
  "get_optional_string obj key =
     (case if_contains obj key of
        None \<Rightarrow> Inr []
      | Some JNull \<Rightarrow> Inr []
      | _ \<Rightarrow> get_string obj key)"

definition get_name :: "json_object \<Rightarrow> string \<Rightarrow> string result" where
  "get_name obj key =
     cfd_try (get_string obj key) (\<lambda>s. if s = [] then invalid (''empty field: '' @ key) else Inr s)"

definition get_uint64 :: "json_object \<Rightarrow> string \<Rightarrow> nat result" where
  "get_uint64 obj key =
     (let bad = invalid (''missing or non-negative integer field: '' @ key)
      in case if_contains obj key of
           Some (JUint n) \<Rightarrow> Inr n
         | Some (JInt i) \<Rightarrow> if 0 \<le> i then Inr (nat i) else bad
         | _ \<Rightarrow> bad)"

definition get_timestamp :: "json_object \<Rightarrow> string \<Rightarrow> timestamp result" where
  "get_timestamp obj key = cfd_try (get_string obj key) (\<lambda>s. in_field key (parse_iso8601 s))"

definition get_optional_timestamp :: "json_object \<Rightarrow> string \<Rightarrow> timestamp option result" where
  "get_optional_timestamp obj key =
     (case if_contains obj key of
        None \<Rightarrow> Inr None
      | Some JNull \<Rightarrow> Inr None
      | _ \<Rightarrow> cfd_try (get_timestamp obj key) (\<lambda>ts. Inr (Some ts)))"

definition kDocumentVersion :: nat where "kDocumentVersion = 1"

definition check_version :: "json_object \<Rightarrow> unit result" where
  "check_version obj =
     cfd_try (get_uint64 obj ''v'') (\<lambda>v.
       if v \<noteq> kDocumentVersion then invalid (''unsupported document version: '' @ dec v) else Inr ())"

subsection \<open>Model: the file list\<close>

definition encode_entry :: "file_entry \<Rightarrow> json" where
  "encode_entry f =
     JObject [(''path'', JString (fe_path f)), (''size'', JUint (fe_size f)),
       (''sha256'', JString (to_hex (fe_sha256 f)))]"

definition encode_files :: "file_entry list \<Rightarrow> json" where
  "encode_files fs = JArray (map encode_entry fs)"

fun decode_entry :: "json \<Rightarrow> file_entry result" where
  "decode_entry (JObject f) =
     cfd_try (get_string f ''path'') (\<lambda>path_text.
     cfd_try (in_field ''path'' (path_parse path_text)) (\<lambda>path.
     cfd_try (get_uint64 f ''size'') (\<lambda>sz.
     cfd_try (get_string f ''sha256'') (\<lambda>hex.
     cfd_try (in_field ''sha256'' (from_hex hex)) (\<lambda>sha.
       Inr \<lparr>fe_path = path, fe_size = sz, fe_sha256 = sha\<rparr>)))))"
| "decode_entry _ = invalid ''files: entry is not an object''"

fun decode_entries :: "json list \<Rightarrow> file_entry list result" where
  "decode_entries [] = Inr []"
| "decode_entries (v # vs) =
     cfd_try (decode_entry v) (\<lambda>f. cfd_try (decode_entries vs) (\<lambda>fs. Inr (f # fs)))"

text \<open>\<^verbatim>\<open>std::ranges::adjacent_find\<close> with the paths as keys.\<close>

fun adjacent_path :: "file_entry list \<Rightarrow> relative_path option" where
  "adjacent_path (f # g # fs) =
     (if fe_path f = fe_path g then Some (fe_path f) else adjacent_path (g # fs))"
| "adjacent_path _ = None"

definition decode_files :: "json_object \<Rightarrow> file_entry list result" where
  "decode_files obj =
     (case if_contains obj ''files'' of
        Some (JArray vs) \<Rightarrow>
          cfd_try (decode_entries vs) (\<lambda>fs.
            let fs = sort_key fe_path fs
            in case adjacent_path fs of
                 Some p \<Rightarrow> invalid (''files: duplicate path '' @ p)
               | None \<Rightarrow> Inr fs)
      | _ \<Rightarrow> invalid ''missing or non-array field: files'')"

subsection \<open>Model: the documents\<close>

definition opt_time :: "string \<Rightarrow> timestamp option \<Rightarrow> json_object" where
  "opt_time key v = (case v of None \<Rightarrow> [] | Some ts \<Rightarrow> [(key, JString (format_iso8601 ts))])"

definition meta_object :: "transaction \<Rightarrow> json_object" where
  "meta_object t =
     [(''v'', JInt (int kDocumentVersion)),
      (''id'', JString (tx_id t)),
      (''sender'', JString (sender t)),
      (''target_user'', JString (target_user t)),
      (''target_server'', JString (target_server t)),
      (''origin_server'', JString (origin_server t)),
      (''comment'', JString (comment t)),
      (''state'', JString (state_name (state t))),
      (''created_at'', JString (format_iso8601 (created_at t))),
      (''expires_at'', JString (format_iso8601 (expires t)))] @
     opt_time ''committed_at'' (committed_at t) @ opt_time ''delivered_at'' (delivered_at t) @
     [(''files'', encode_files (files t))]"

definition encode_meta :: "json_lib \<Rightarrow> transaction \<Rightarrow> string" where
  "encode_meta J t = jserialize J (JObject (meta_object t))"

definition decode_meta_object :: "json_object \<Rightarrow> transaction result" where
  "decode_meta_object obj =
     cfd_try (check_version obj) (\<lambda>_.
     cfd_try (get_string obj ''id'') (\<lambda>id_text.
     cfd_try (in_field ''id'' (id_parse id_text)) (\<lambda>i.
     cfd_try (get_name obj ''sender'') (\<lambda>from.
     cfd_try (get_name obj ''target_user'') (\<lambda>user.
     cfd_try (get_string obj ''target_server'') (\<lambda>server.
     cfd_try (get_string obj ''origin_server'') (\<lambda>origin.
     cfd_try (get_optional_string obj ''comment'') (\<lambda>note.
     cfd_try (get_string obj ''state'') (\<lambda>state_text.
     cfd_try (in_field ''state'' (parse_state state_text)) (\<lambda>st.
     cfd_try (get_timestamp obj ''created_at'') (\<lambda>created.
     cfd_try (get_timestamp obj ''expires_at'') (\<lambda>expiry.
     cfd_try (get_optional_timestamp obj ''committed_at'') (\<lambda>committed.
     cfd_try (get_optional_timestamp obj ''delivered_at'') (\<lambda>delivered.
     cfd_try (decode_files obj) (\<lambda>fs.
       Inr \<lparr>tx_id = i, sender = from, target_user = user, target_server = server,
         origin_server = origin, comment = note, state = st, created_at = created, expires = expiry,
         committed_at = committed, delivered_at = delivered, files = fs\<rparr>)))))))))))))))"

definition decode_meta :: "json_lib \<Rightarrow> string \<Rightarrow> transaction result" where
  "decode_meta J s = cfd_try (parse_object J s) decode_meta_object"

definition manifest_object :: "transaction \<Rightarrow> json_object" where
  "manifest_object t =
     [(''v'', JInt (int kDocumentVersion)), (''id'', JString (tx_id t)), (''files'', encode_files (files t))]"

definition encode_manifest :: "json_lib \<Rightarrow> transaction \<Rightarrow> string" where
  "encode_manifest J t = jserialize J (JObject (manifest_object t))"

definition decode_manifest :: "json_lib \<Rightarrow> string \<Rightarrow> file_entry list result" where
  "decode_manifest J s =
     cfd_try (parse_object J s) (\<lambda>obj. cfd_try (check_version obj) (\<lambda>_. decode_files obj))"

subsection \<open>Valid transactions\<close>

text \<open>
  What a transaction must satisfy for its \<^verbatim>\<open>meta.json\<close> to be readable: the fields of the right form,
  and every text valid UTF-8.
\<close>

definition wf_files :: "file_entry list \<Rightarrow> bool" where
  "wf_files fs \<longleftrightarrow> files_ok fs \<and> list_all (\<lambda>f. valid_utf8 (fe_path f)) fs"

definition wf_tx :: "transaction \<Rightarrow> bool" where
  "wf_tx t \<longleftrightarrow>
     valid_id (tx_id t) \<and> sender t \<noteq> [] \<and> target_user t \<noteq> [] \<and>
     list_all valid_utf8 [sender t, target_user t, target_server t, origin_server t, comment t] \<and>
     iso_range (created_at t) \<and> iso_range (expires t) \<and>
     pred_option iso_range (committed_at t) \<and> pred_option iso_range (delivered_at t) \<and>
     wf_files (files t)"

subsection \<open>Lemmas on the file list\<close>

lemma ascii_valid_id: "valid_id i \<Longrightarrow> ascii i"
  by (auto simp: ascii_def list_all_iff is_lower_hex_def char_in_def ord_def dest!: valid_id_chars)

lemma ascii_to_hex: "ascii (to_hex d)"
proof -
  have "list_all (\<lambda>c. ord c < 0x80) kHexDigits" by (simp add: kHexDigits_def ord_def)
  moreover have "length kHexDigits = 16" by (simp add: kHexDigits_def)
  ultimately have "ord (kHexDigits ! n) < 0x80" if "n < 16" for n
    using that by (simp add: list_all_length)
  then show ?thesis
    by (induction d) (simp_all add: to_hex_def ascii_Cons hi_nibble_less lo_nibble_less)
qed

lemma ascii_state_name: "ascii (state_name st)"
  by (cases st) (simp_all add: ascii_lit)

lemma adjacent_path_sorted: "sorted_by fe_path fs \<Longrightarrow> adjacent_path fs = None"
  by (induction fs rule: adjacent_path.induct) auto

lemma sorted_adjacent: "sorted (map fe_path fs) \<Longrightarrow> adjacent_path fs = None \<Longrightarrow> sorted_by fe_path fs"
proof (induction fs rule: adjacent_path.induct)
  case (1 f g fs)
  then have s: "sorted_by fe_path (g # fs)" by (auto split: if_splits)
  have "fe_path f < fe_path g" using 1 by (auto split: if_splits simp: less_le)
  with s show ?case by auto
qed auto

definition utf8_object :: "json_object \<Rightarrow> bool" where
  "utf8_object obj \<longleftrightarrow> list_all (\<lambda>kv. utf8_json (snd kv)) obj"

lemma utf8_json_object: "utf8_json (JObject obj) \<longleftrightarrow> utf8_object obj"
  by (simp add: utf8_object_def list_all_iff)

lemma if_contains_utf8: "if_contains obj key = Some v \<Longrightarrow> utf8_object obj \<Longrightarrow> utf8_json v"
  by (auto simp: if_contains_def utf8_object_def list_all_iff dest!: map_of_SomeD)

lemma invalid_simps [simp, try_simps]: "invalid d \<noteq> Inr x" "invalid d = Inl e \<longleftrightarrow> e = Error Validation d"
  by (simp_all add: invalid_def)

lemma in_field_Inr [try_simps]: "in_field key r = Inr x \<longleftrightarrow> r = Inr x"
  by (auto simp: in_field_def split: sum.splits)

lemma get_string_Inr [try_simps]: "get_string obj key = Inr s \<longleftrightarrow> if_contains obj key = Some (JString s)"
  by (auto simp: get_string_def split: option.splits json.splits)

lemma get_string_utf8: "get_string obj key = Inr s \<Longrightarrow> utf8_object obj \<Longrightarrow> valid_utf8 s"
  by (auto simp: get_string_Inr dest: if_contains_utf8)

lemma get_name_Inr [try_simps]: "get_name obj key = Inr s \<longleftrightarrow> get_string obj key = Inr s \<and> s \<noteq> []"
  by (auto simp: get_name_def try_simps split: if_splits)

lemma get_optional_string_utf8: "get_optional_string obj key = Inr s \<Longrightarrow> utf8_object obj \<Longrightarrow> valid_utf8 s"
  by (auto simp: get_optional_string_def get_string_utf8 split: option.splits json.splits)

lemma get_uint64_less: "get_uint64 obj key = Inr n \<Longrightarrow> utf8_object obj \<Longrightarrow> n < 2 ^ 64"
  by (auto simp: get_uint64_def Let_def split: option.splits json.splits if_splits dest!: if_contains_utf8)

lemma get_timestamp_range: "get_timestamp obj key = Inr ts \<Longrightarrow> iso_range ts"
  by (auto simp: get_timestamp_def try_simps iso8601.accepted_iff)

lemma get_optional_timestamp_range: "get_optional_timestamp obj key = Inr ts \<Longrightarrow> pred_option iso_range ts"
  by (auto simp: get_optional_timestamp_def try_simps get_timestamp_range split: option.splits json.splits)

definition wf_entry :: "file_entry \<Rightarrow> bool" where
  "wf_entry f \<longleftrightarrow>
     valid_path (fe_path f) \<and> valid_utf8 (fe_path f) \<and> fe_size f < 2 ^ 64 \<and> length (fe_sha256 f) = 32"

lemma wf_files_iff: "wf_files fs \<longleftrightarrow> sorted_by fe_path fs \<and> list_all wf_entry fs"
  by (auto simp: wf_files_def files_ok_def wf_entry_def list_all_iff)

lemma decode_entry_wf: "decode_entry v = Inr f \<Longrightarrow> utf8_json v \<Longrightarrow> wf_entry f"
proof (cases v)
  case (JObject obj)
  assume d: "decode_entry v = Inr f" and u: "utf8_json v"
  from d JObject obtain hex where
    p: "get_string obj ''path'' = Inr (fe_path f)" "valid_path (fe_path f)"
    and sz: "get_uint64 obj ''size'' = Inr (fe_size f)" and h: "from_hex hex = Inr (fe_sha256 f)"
    by (auto simp: try_simps rel_path.accepted_iff)
  have u: "utf8_object obj" using u JObject utf8_json_object by blast
  show ?thesis
    using p(2) get_string_utf8 [OF p(1) u] get_uint64_less [OF sz u] sha_hex.dec_valid [OF h]
    by (simp add: wf_entry_def)
qed simp_all

lemma decode_entries_wf: "decode_entries vs = Inr fs \<Longrightarrow> list_all utf8_json vs \<Longrightarrow> list_all wf_entry fs"
proof (induction vs arbitrary: fs)
  case (Cons v vs)
  then obtain f gs where "decode_entry v = Inr f" "decode_entries vs = Inr gs" "fs = f # gs"
    by (auto simp: try_simps)
  with Cons decode_entry_wf show ?case by simp
qed simp

lemma decode_files_wf: "decode_files obj = Inr fs \<Longrightarrow> utf8_object obj \<Longrightarrow> wf_files fs"
proof -
  assume d: "decode_files obj = Inr fs" and u: "utf8_object obj"
  then obtain vs gs where vs: "if_contains obj ''files'' = Some (JArray vs)" "decode_entries vs = Inr gs"
    "adjacent_path (sort_key fe_path gs) = None" "fs = sort_key fe_path gs"
    by (auto simp: decode_files_def try_simps Let_def split: option.splits json.splits)
  have "list_all utf8_json vs" using if_contains_utf8 [OF vs(1) u] by (simp add: list_all_iff)
  with decode_entries_wf [OF vs(2)] have "list_all wf_entry fs" by (simp add: vs(4) list_all_iff)
  moreover have "sorted_by fe_path fs" using vs(3,4) by (intro sorted_adjacent) auto
  ultimately show ?thesis by (simp add: wf_files_iff)
qed

lemma decode_meta_object_wf: "decode_meta_object obj = Inr t \<Longrightarrow> utf8_object obj \<Longrightarrow> wf_tx t"
proof -
  assume d: "decode_meta_object obj = Inr t" and u: "utf8_object obj"
  then obtain st where
    "valid_id (tx_id t)" "get_string obj ''sender'' = Inr (sender t)" "sender t \<noteq> []"
    "get_string obj ''target_user'' = Inr (target_user t)" "target_user t \<noteq> []"
    "get_string obj ''target_server'' = Inr (target_server t)"
    "get_string obj ''origin_server'' = Inr (origin_server t)"
    "get_optional_string obj ''comment'' = Inr (comment t)"
    "get_timestamp obj ''created_at'' = Inr (created_at t)"
    "get_timestamp obj ''expires_at'' = Inr (expires t)"
    "get_optional_timestamp obj ''committed_at'' = Inr (committed_at t)"
    "get_optional_timestamp obj ''delivered_at'' = Inr (delivered_at t)"
    "decode_files obj = Inr (files t)"
    unfolding decode_meta_object_def cfd_try_Inr in_field_Inr get_name_Inr tid.accepted_iff by auto
  with u show ?thesis
    by (auto simp: wf_tx_def dest: get_string_utf8 get_optional_string_utf8 get_timestamp_range
        get_optional_timestamp_range decode_files_wf)
qed

subsection \<open>Round trips\<close>

definition canon_object :: "json_object \<Rightarrow> json_object" where
  "canon_object obj = map (\<lambda>kv. (fst kv, canon (snd kv))) obj"

lemma canon_JObject: "canon (JObject obj) = JObject (canon_object obj)"
  by (simp add: canon_object_def map_prod_def split_beta)

lemma if_contains_canon: "if_contains (canon_object obj) key = map_option canon (if_contains obj key)"
  by (induction obj) (auto simp: canon_object_def if_contains_def)

lemma decode_encode_entry: "wf_entry f \<Longrightarrow> decode_entry (canon (encode_entry f)) = Inr f"
  by (simp add: encode_entry_def wf_entry_def canon_object_def get_string_def get_uint64_def if_contains_def
      in_field_def rel_path.dec_enc sha_hex.dec_enc)

lemma decode_encode_entries: "list_all wf_entry fs \<Longrightarrow> decode_entries (map (canon \<circ> encode_entry) fs) = Inr fs"
  by (induction fs) (simp_all add: decode_encode_entry)

lemma decode_encode_files:
  assumes "wf_files fs" "if_contains obj ''files'' = Some (canon (encode_files fs))"
  shows "decode_files obj = Inr fs"
  using assms
  by (simp add: decode_files_def encode_files_def wf_files_iff decode_encode_entries sorted_by_sort_key_id
      adjacent_path_sorted)

lemma decode_meta_object_canon: "wf_tx t \<Longrightarrow> decode_meta_object (canon_object (meta_object t)) = Inr t"
proof -
  assume w: "wf_tx t"
  let ?o = "canon_object (meta_object t)"
  have f: "if_contains ?o ''v'' = Some (JInt 1)" "if_contains ?o ''id'' = Some (JString (tx_id t))"
    "if_contains ?o ''sender'' = Some (JString (sender t))"
    "if_contains ?o ''target_user'' = Some (JString (target_user t))"
    "if_contains ?o ''target_server'' = Some (JString (target_server t))"
    "if_contains ?o ''origin_server'' = Some (JString (origin_server t))"
    "if_contains ?o ''comment'' = Some (JString (comment t))"
    "if_contains ?o ''state'' = Some (JString (state_name (state t)))"
    "if_contains ?o ''created_at'' = Some (JString (format_iso8601 (created_at t)))"
    "if_contains ?o ''expires_at'' = Some (JString (format_iso8601 (expires t)))"
    "if_contains ?o ''committed_at'' = map_option (JString \<circ> format_iso8601) (committed_at t)"
    "if_contains ?o ''delivered_at'' = map_option (JString \<circ> format_iso8601) (delivered_at t)"
    "if_contains ?o ''files'' = Some (canon (encode_files (files t)))"
    unfolding if_contains_canon
    by (simp_all add: meta_object_def if_contains_def opt_time_def kDocumentVersion_def split: option.split)
  have ts: "get_timestamp ?o ''created_at'' = Inr (created_at t)" "get_timestamp ?o ''expires_at'' = Inr (expires t)"
    "get_optional_timestamp ?o ''committed_at'' = Inr (committed_at t)"
    "get_optional_timestamp ?o ''delivered_at'' = Inr (delivered_at t)"
    using w by (auto simp: get_timestamp_def get_optional_timestamp_def get_string_def f in_field_def
        iso8601.dec_enc wf_tx_def split: option.splits)
  have fs: "decode_files ?o = Inr (files t)"
    using w f(13) by (intro decode_encode_files) (simp_all add: wf_tx_def)
  show ?thesis
    using w unfolding decode_meta_object_def ts fs
    by (simp add: wf_tx_def check_version_def get_uint64_def get_name_def get_string_def get_optional_string_def f
        kDocumentVersion_def in_field_def tid.dec_enc state_text.dec_enc)
qed

lemma plain_encode_files:
  assumes "wf_files fs"
  shows "plain_json (encode_files fs)" "jdepth (encode_files fs) \<le> 2"
proof -
  have hex: "valid_utf8 (to_hex d)" for d by (rule ascii_valid_utf8) (rule ascii_to_hex)
  have "plain_json (encode_entry f)" if "wf_entry f" for f
    using that by (simp add: encode_entry_def wf_entry_def hex utf8_tail_def ord_def)
  then show "plain_json (encode_files fs)"
    using assms by (auto simp: encode_files_def wf_files_iff list_all_iff)
  have "jdepth (encode_entry f) = 1" for f
    by (simp add: encode_entry_def max_list_def)
  then have "max_list (map jdepth (map encode_entry fs)) \<le> 1"
    by (induction fs) (simp_all add: max_list_def)
  then show "jdepth (encode_files fs) \<le> 2" by (simp add: encode_files_def)
qed

lemma max_list_le: "max_list ns \<le> m \<longleftrightarrow> list_all (\<lambda>n. n \<le> m) ns"
  by (induction ns) (simp_all add: max_list_def)

lemma wf_meta_object: "wf_tx t \<Longrightarrow> wf_json (JObject (meta_object t))"
proof -
  assume w: "wf_tx t"
  note fs = plain_encode_files [of "files t"]
  have a: "valid_utf8 (format_iso8601 ts)" "valid_utf8 (state_name st)" for ts st
    by (simp_all add: ascii_valid_utf8 ascii_state_name)
  have i: "valid_utf8 (tx_id t)" using w by (simp add: wf_tx_def ascii_valid_utf8 ascii_valid_id)
  have keys: "distinct (map fst (meta_object t)) \<and> list_all (\<lambda>kv. valid_utf8 (fst kv)) (meta_object t)"
    by (simp add: meta_object_def opt_time_def utf8_tail_def ord_def split: option.split)
  have vals: "list_all (\<lambda>kv. plain_json (snd kv) \<and> jdepth (snd kv) \<le> 2) (meta_object t)"
    using w fs a i
    by (auto simp: meta_object_def opt_time_def kDocumentVersion_def wf_tx_def split: option.split)
  have "plain_json (JObject (meta_object t))"
    using keys vals by (simp add: list_all_iff)
  moreover have "max_list (map jdepth (map snd (meta_object t))) \<le> 2"
    using vals unfolding max_list_le by (simp add: list_all_iff)
  then have "jdepth (JObject (meta_object t)) \<le> kMaxDepth"
    by (simp add: kMaxDepth_def comp_def)
  ultimately show ?thesis by (simp add: wf_json_def)
qed

lemma wf_manifest_object: "wf_tx t \<Longrightarrow> wf_json (JObject (manifest_object t))"
proof -
  assume w: "wf_tx t"
  then have fs: "plain_json (encode_files (files t))" "jdepth (encode_files (files t)) \<le> 2"
    using plain_encode_files [of "files t"] by (simp_all add: wf_tx_def)
  have i: "valid_utf8 (tx_id t)" using w by (simp add: wf_tx_def ascii_valid_utf8 ascii_valid_id)
  show ?thesis
    using fs i
    by (simp add: wf_json_def manifest_object_def kDocumentVersion_def kMaxDepth_def max_list_def utf8_tail_def ord_def)
qed

lemma decode_manifest_object_canon:
  assumes "wf_tx t"
  shows "check_version (canon_object (manifest_object t)) = Inr ()"
    "decode_files (canon_object (manifest_object t)) = Inr (files t)"
proof -
  show "decode_files (canon_object (manifest_object t)) = Inr (files t)"
  proof (rule decode_encode_files)
    show "if_contains (canon_object (manifest_object t)) ''files'' = Some (canon (encode_files (files t)))"
      unfolding if_contains_canon by (simp add: if_contains_def manifest_object_def)
  qed (use assms in \<open>simp add: wf_tx_def\<close>)
  show "check_version (canon_object (manifest_object t)) = Inr ()"
    unfolding check_version_def get_uint64_def if_contains_canon
    by (simp add: if_contains_def manifest_object_def kDocumentVersion_def)
qed

lemma decode_encode_manifest:
  "json_sound J \<Longrightarrow> wf_tx t \<Longrightarrow> decode_manifest J (encode_manifest J t) = Inr (files t)"
  by (simp add: decode_manifest_def encode_manifest_def parse_object_def json_sound_def wf_manifest_object
      canon_JObject decode_manifest_object_canon del: canon.simps)

interpretation meta_text: text_codec "encode_meta J" "decode_meta J" "\<lambda>t. json_sound J \<and> wf_tx t" for J
  by unfold_locales
    (simp add: decode_meta_def encode_meta_def parse_object_def json_sound_def wf_meta_object
      canon_JObject decode_meta_object_canon del: canon.simps)

lemma decode_meta_wf: "json_utf8 J \<Longrightarrow> decode_meta J s = Inr t \<Longrightarrow> wf_tx t"
proof -
  assume u: "json_utf8 J" and d: "decode_meta J s = Inr t"
  then obtain obj where "jparse J s = Inr (JObject obj)" and t: "decode_meta_object obj = Inr t"
    by (auto simp: decode_meta_def parse_object_def try_simps split: sum.splits json.splits)
  then have "utf8_json (JObject obj)" using u unfolding json_utf8_def by blast
  then have "utf8_object obj" unfolding utf8_json_object .
  with t show ?thesis by (rule decode_meta_object_wf)
qed

text \<open>A transaction with two files, for the witnesses.\<close>

definition sample_tx :: transaction where
  "sample_tx = \<lparr>tx_id = sample_id, sender = ''alice'', target_user = ''bob'',
     target_server = [], origin_server = [], comment = ''report'', state = Committed,
     created_at = 1700000000, expires = 1700086400, committed_at = Some 1700000100, delivered_at = None,
     files = [\<lparr>fe_path = ''a.csv'', fe_size = 3, fe_sha256 = replicate 32 7\<rparr>,
       \<lparr>fe_path = ''b/c.csv'', fe_size = 2 ^ 63, fe_sha256 = replicate 32 9\<rparr>]\<rparr>"

lemma wf_sample_tx: "wf_tx sample_tx"
proof -
  have "valid_path ''a.csv''" "valid_path ''b/c.csv''" by code_simp+
  moreover have "''a.csv'' < ''b/c.csv''" by code_simp
  moreover have "valid_utf8 ''alice''" "valid_utf8 ''bob''" "valid_utf8 ''report''" "valid_utf8 ''a.csv''"
    "valid_utf8 ''b/c.csv''"
    by code_simp+
  moreover have "iso_range 1700000000" "iso_range 1700086400" "iso_range 1700000100" by code_simp+
  ultimately show ?thesis
    by (simp add: sample_tx_def wf_tx_def valid_sample_id wf_files_iff wf_entry_def)
qed

subsection \<open>Properties\<close>



text \<open>
  C38. A damaged or hostile \<^verbatim>\<open>meta.json\<close> never loads as a half-valid transaction: whatever text
  \<open>decode_meta\<close> accepts gives a transaction with a canonical id, non-empty user names, times the
  text form can hold, and a file list that is sorted by path without duplicates, every path a valid
  relative path and every digest 32 bytes; so encoding it again is read back as the same transaction.
\<close>

theorem decode_meta_valid:
  assumes "json_utf8 J" "decode_meta J s = Inr t"
  shows "valid_id (tx_id t) \<and> sender t \<noteq> [] \<and> target_user t \<noteq> [] \<and>
    iso_range (created_at t) \<and> iso_range (expires t) \<and> sorted_by fe_path (files t) \<and>
    (\<forall>f \<in> set (files t). valid_path (fe_path f) \<and> fe_size f < 2 ^ 64 \<and> length (fe_sha256 f) = 32) \<and>
    (json_sound J \<longrightarrow> decode_meta J (encode_meta J t) = Inr t)"
proof -
  have w: "wf_tx t" using decode_meta_wf assms by blast
  moreover have "json_sound J \<longrightarrow> decode_meta J (encode_meta J t) = Inr t"
    using meta_text.dec_enc w by blast
  ultimately show ?thesis
    by (auto simp: wf_tx_def wf_files_def files_ok_def list_all_iff)
qed

theorem decode_meta_valid_witness: "sorted_by fe_path (files sample_tx)"
proof -
  have "decode_meta sample_json (encode_meta sample_json sample_tx) = Inr sample_tx"
    using meta_text.dec_enc sample_json_sound wf_sample_tx by blast
  from decode_meta_valid [OF sample_json_utf8 this] show ?thesis by blast
qed

end
