(* ===== verification/Tx_Repository.thy ===== *)
theory Tx_Repository
  imports Tx_Codec Storage_Contract
begin

section \<open>The repository\<close>

text \<open>
  \<^verbatim>\<open>src/src/lib/transaction/repository.cpp\<close>: an index in memory over the documents of the file
  store. The state is the index, an association list, and the disk. Every change goes to
  \<^verbatim>\<open>meta.json\<close> first and to the index when that has succeeded.
\<close>

subsection \<open>Model\<close>

record repo =
  index :: "(transaction_id \<times> transaction) list"
  disk_of :: disk

text \<open>A call of the file store on the disk of the state.\<close>

definition on_disk :: "(disk \<Rightarrow> 'a \<times> disk) \<Rightarrow> 's repo_scheme \<Rightarrow> 'a \<times> 's repo_scheme" where
  "on_disk f w = (let (r, d) = f (disk_of w) in (r, w\<lparr>disk_of := d\<rparr>))"

definition repo_find :: "'s repo_scheme \<Rightarrow> transaction_id \<Rightarrow> transaction option" where
  "repo_find w i = map_of (index w) i"

definition repo_find_if :: "(transaction \<Rightarrow> bool) \<Rightarrow> 's repo_scheme \<Rightarrow> transaction list" where
  "repo_find_if P w = filter P (map snd (index w))"

text \<open>The loop of \<open>load\<close>; \<open>emplace\<close> keeps the first entry of an id.\<close>

fun load_loop ::
  "store \<Rightarrow> json_lib \<Rightarrow> transaction_id list \<Rightarrow> (transaction_id \<times> transaction) list \<Rightarrow> disk \<Rightarrow>
   (transaction_id \<times> transaction) list result \<times> disk" where
  "load_loop S J [] loaded d = (Inr loaded, d)"
| "load_loop S J (i # ids) loaded d =
     cfd_tryS (read_document S i Meta d) (\<lambda>s d.
       case decode_meta J s of
         Inl e \<Rightarrow> (fail (code e) (''transaction '' @ i @ '': '' @ detail e), d)
       | Inr t \<Rightarrow>
           if tx_id t \<noteq> i
           then (fail Validation (''transaction '' @ i @ '': meta.json holds id '' @ tx_id t), d)
           else load_loop S J ids (if map_of loaded i = None then loaded @ [(i, t)] else loaded) d)"

definition repo_load :: "store \<Rightarrow> json_lib \<Rightarrow> 's repo_scheme \<Rightarrow> unit result \<times> 's repo_scheme" where
  "repo_load S J w =
     cfd_tryS (on_disk (list_transactions S) w) (\<lambda>ids w.
     cfd_tryS (on_disk (load_loop S J ids []) w) (\<lambda>loaded w. (Inr (), w\<lparr>index := loaded\<rparr>)))"

definition repo_insert :: "store \<Rightarrow> json_lib \<Rightarrow> transaction \<Rightarrow> 's repo_scheme \<Rightarrow> unit result \<times> 's repo_scheme" where
  "repo_insert S J t w =
     (if map_of (index w) (tx_id t) \<noteq> None then (fail Conflict (''transaction '' @ tx_id t @ '' exists''), w)
      else
        cfd_tryS (on_disk (create_transaction S (tx_id t)) w) (\<lambda>_ w.
          case on_disk (write_document S (tx_id t) Meta (encode_meta J t)) w of
            (Inl e, w) \<Rightarrow> (Inl e, snd (on_disk (remove_transaction S (tx_id t)) w))
          | (Inr _, w) \<Rightarrow> (Inr (), w\<lparr>index := AList.update (tx_id t) t (index w)\<rparr>)))"

definition repo_save :: "store \<Rightarrow> json_lib \<Rightarrow> transaction \<Rightarrow> 's repo_scheme \<Rightarrow> unit result \<times> 's repo_scheme" where
  "repo_save S J t w =
     (if map_of (index w) (tx_id t) = None then (fail NotFound (''no transaction '' @ tx_id t), w)
      else
        cfd_tryS (on_disk (write_document S (tx_id t) Meta (encode_meta J t)) w) (\<lambda>_ w.
          (Inr (), w\<lparr>index := AList.update (tx_id t) t (index w)\<rparr>)))"

definition repo_save_manifest ::
  "store \<Rightarrow> json_lib \<Rightarrow> transaction \<Rightarrow> 's repo_scheme \<Rightarrow> unit result \<times> 's repo_scheme" where
  "repo_save_manifest S J t w = on_disk (write_document S (tx_id t) Manifest (encode_manifest J t)) w"

definition repo_remove :: "store \<Rightarrow> transaction_id \<Rightarrow> 's repo_scheme \<Rightarrow> unit result \<times> 's repo_scheme" where
  "repo_remove S i w =
     cfd_tryS (on_disk (remove_transaction S i) w) (\<lambda>_ w. (Inr (), w\<lparr>index := AList.delete i (index w)\<rparr>))"

subsection \<open>Interface: a map of transactions behind fallible operations\<close>

text \<open>
  What the service relies on: a successful operation changes the map at one id, a failed one
  changes nothing.
\<close>

locale tx_map =
  fixes look :: "'s \<Rightarrow> transaction_id \<Rightarrow> transaction option"
    and ins :: "transaction \<Rightarrow> 's \<Rightarrow> unit result \<times> 's"
    and sav :: "transaction \<Rightarrow> 's \<Rightarrow> unit result \<times> 's"
    and del :: "transaction_id \<Rightarrow> 's \<Rightarrow> unit result \<times> 's"
  assumes ins_ok: "ins t s = (Inr u, s') \<Longrightarrow> look s (tx_id t) = None \<and> look s' = (look s)(tx_id t \<mapsto> t)"
    and sav_ok: "sav t s = (Inr u, s') \<Longrightarrow> look s (tx_id t) \<noteq> None \<and> look s' = (look s)(tx_id t \<mapsto> t)"
    and del_ok: "del i s = (Inr u, s') \<Longrightarrow> look s' = (look s)(i := None)"
    and ins_fail: "ins t s = (Inl e, s') \<Longrightarrow> look s' = look s"
    and sav_fail: "sav t s = (Inl e, s') \<Longrightarrow> look s' = look s"
    and del_fail: "del i s = (Inl e, s') \<Longrightarrow> look s' = look s"
begin

lemma ins_other: "ins t s = (r, s') \<Longrightarrow> i \<noteq> tx_id t \<Longrightarrow> look s' i = look s i"
  by (cases r) (auto dest: ins_ok ins_fail)

lemma sav_other: "sav t s = (r, s') \<Longrightarrow> i \<noteq> tx_id t \<Longrightarrow> look s' i = look s i"
  by (cases r) (auto dest: sav_ok sav_fail)

lemma del_other: "del i s = (r, s') \<Longrightarrow> j \<noteq> i \<Longrightarrow> look s' j = look s j"
  by (cases r) (auto dest: del_ok del_fail)

lemma sav_domain: "sav t s = (r, s') \<Longrightarrow> dom (look s') = dom (look s)"
proof (cases r)
  case (Inr u)
  assume "sav t s = (r, s')"
  with Inr sav_ok [of t s u s'] show ?thesis by (auto simp: insert_absorb domIff)
qed (auto dest: sav_fail)

end

subsection \<open>Lemmas\<close>

lemma on_disk_eq: "on_disk f w = (r, w') \<longleftrightarrow> (\<exists>d. f (disk_of w) = (r, d) \<and> w' = w\<lparr>disk_of := d\<rparr>)"
  by (auto simp: on_disk_def split: prod.splits)

lemma on_disk_index [simp]: "index (snd (on_disk f w)) = index w"
  by (simp add: on_disk_def split_beta)

lemma repo_insert_cases:
  assumes "repo_insert S J t w = (r, w')"
  obtains (exists) "map_of (index w) (tx_id t) \<noteq> None" "w' = w" "\<not> is_ok r"
  | (create) e d where "map_of (index w) (tx_id t) = None" "r = Inl e"
      "create_transaction S (tx_id t) (disk_of w) = (Inl e, d)" "w' = w\<lparr>disk_of := d\<rparr>"
  | (put) e d1 d2 r3 d3 where "map_of (index w) (tx_id t) = None" "r = Inl e"
      "create_transaction S (tx_id t) (disk_of w) = (Inr (), d1)"
      "write_document S (tx_id t) Meta (encode_meta J t) d1 = (Inl e, d2)"
      "remove_transaction S (tx_id t) d2 = (r3, d3)" "w' = w\<lparr>disk_of := d3\<rparr>"
  | (ok) d1 d2 where "map_of (index w) (tx_id t) = None" "r = Inr ()"
      "create_transaction S (tx_id t) (disk_of w) = (Inr (), d1)"
      "write_document S (tx_id t) Meta (encode_meta J t) d1 = (Inr (), d2)"
      "w' = w\<lparr>disk_of := d2, index := AList.update (tx_id t) t (index w)\<rparr>"
proof (cases "map_of (index w) (tx_id t) = None")
  case False
  then show ?thesis using exists assms by (auto simp: repo_insert_def)
next
  case True
  obtain r1 d1 where c: "create_transaction S (tx_id t) (disk_of w) = (r1, d1)" by fastforce
  obtain r2 d2 where m: "write_document S (tx_id t) Meta (encode_meta J t) d1 = (r2, d2)" by fastforce
  obtain r3 d3 where d: "remove_transaction S (tx_id t) d2 = (r3, d3)" by fastforce
  note * = True assms c m d
  show ?thesis
  proof (cases r1)
    case (Inl e)
    with * show ?thesis by (intro create [of e d1]) (auto simp: repo_insert_def on_disk_def)
  next
    case r1: (Inr u)
    show ?thesis
    proof (cases r2)
      case (Inl e)
      with * r1 show ?thesis by (intro put [of e d1 d2 r3 d3]) (auto simp: repo_insert_def on_disk_def)
    next
      case (Inr v)
      with * r1 show ?thesis by (intro ok [of d1 d2]) (auto simp: repo_insert_def on_disk_def)
    qed
  qed
qed

lemma repo_save_cases:
  assumes "repo_save S J t w = (r, w')"
  obtains (none) "map_of (index w) (tx_id t) = None" "w' = w" "\<not> is_ok r"
  | (put) e d where "map_of (index w) (tx_id t) \<noteq> None" "r = Inl e"
      "write_document S (tx_id t) Meta (encode_meta J t) (disk_of w) = (Inl e, d)" "w' = w\<lparr>disk_of := d\<rparr>"
  | (ok) d where "map_of (index w) (tx_id t) \<noteq> None" "r = Inr ()"
      "write_document S (tx_id t) Meta (encode_meta J t) (disk_of w) = (Inr (), d)"
      "w' = w\<lparr>disk_of := d, index := AList.update (tx_id t) t (index w)\<rparr>"
proof (cases "map_of (index w) (tx_id t) = None")
  case True
  then show ?thesis using none assms by (auto simp: repo_save_def)
next
  case False
  obtain r1 d1 where m: "write_document S (tx_id t) Meta (encode_meta J t) (disk_of w) = (r1, d1)" by fastforce
  show ?thesis
  proof (cases r1)
    case (Inl e)
    with False m assms show ?thesis
      by (intro put [of e d1]) (auto simp: repo_save_def on_disk_def)
  next
    case (Inr u)
    with False m assms show ?thesis
      by (intro ok [of d1]) (auto simp: repo_save_def on_disk_def)
  qed
qed

lemma repo_remove_cases:
  assumes "repo_remove S i w = (r, w')"
  obtains (failed) e d where "r = Inl e" "remove_transaction S i (disk_of w) = (Inl e, d)" "w' = w\<lparr>disk_of := d\<rparr>"
  | (ok) d where "r = Inr ()" "remove_transaction S i (disk_of w) = (Inr (), d)"
      "w' = w\<lparr>disk_of := d, index := AList.delete i (index w)\<rparr>"
proof -
  obtain r1 d1 where m: "remove_transaction S i (disk_of w) = (r1, d1)" by fastforce
  show ?thesis
  proof (cases r1)
    case (Inl e)
    with m assms show ?thesis by (intro failed [of e d1]) (auto simp: repo_remove_def on_disk_def)
  next
    case (Inr u)
    with m assms show ?thesis by (intro ok [of d1]) (auto simp: repo_remove_def on_disk_def)
  qed
qed

interpretation txs: tx_map repo_find "repo_insert S J" "repo_save S J" "repo_remove S" for S J
proof unfold_locales
  fix t i s s' u e
  show "repo_insert S J t s = (Inr u, s') \<Longrightarrow>
      repo_find s (tx_id t) = None \<and> repo_find s' = (repo_find s)(tx_id t \<mapsto> t)"
    by (erule repo_insert_cases) (auto simp: repo_find_def fun_eq_iff)
  show "repo_save S J t s = (Inr u, s') \<Longrightarrow>
      repo_find s (tx_id t) \<noteq> None \<and> repo_find s' = (repo_find s)(tx_id t \<mapsto> t)"
    by (erule repo_save_cases) (auto simp: repo_find_def fun_eq_iff)
  show "repo_remove S i s = (Inr u, s') \<Longrightarrow> repo_find s' = (repo_find s)(i := None)"
    by (erule repo_remove_cases) (auto simp: repo_find_def fun_eq_iff)
  show "repo_insert S J t s = (Inl e, s') \<Longrightarrow> repo_find s' = repo_find s"
    by (erule repo_insert_cases) (auto simp: repo_find_def fun_eq_iff)
  show "repo_save S J t s = (Inl e, s') \<Longrightarrow> repo_find s' = repo_find s"
    by (erule repo_save_cases) (auto simp: repo_find_def fun_eq_iff)
  show "repo_remove S i s = (Inl e, s') \<Longrightarrow> repo_find s' = repo_find s"
    by (erule repo_remove_cases) (auto simp: repo_find_def fun_eq_iff)
qed

subsection \<open>What an operation does to the transactions on disk\<close>

text \<open>Everything of transaction \<open>j\<close> is as before.\<close>

definition tx_same :: "store \<Rightarrow> transaction_id \<Rightarrow> disk \<Rightarrow> disk \<Rightarrow> bool" where
  "tx_same S j d d' \<longleftrightarrow>
     (\<forall>q. in_tx S j q \<longrightarrow> file_bytes d' q = file_bytes d q) \<and> tx_dirs_kept S j d d'"

lemma tx_same_refl [simp, intro]: "tx_same S j d d"
  by (simp add: tx_same_def)

lemma tx_same_trans: "tx_same S j d d' \<Longrightarrow> tx_same S j d' d'' \<Longrightarrow> tx_same S j d d''"
  using tx_dirs_kept_trans by (auto simp: tx_same_def)

lemma tx_same_views:
  assumes "tx_same S j d d'"
  shows "payload S d' j p = payload S d j p" "doc_text S d' j dc = doc_text S d j dc"
    "tx_dirs_kept S j d d'"
  using assms by (simp_all add: tx_same_def payload_def doc_text_def)

lemma tx_same_disk: "same_disk d d' \<Longrightarrow> tx_same S j d d'"
  by (simp add: tx_same_def same_disk_views tx_dirs_kept_def)

lemma write_document_tx:
  assumes "write_document S i dc c d = (r, d')"
  shows "j \<noteq> i \<Longrightarrow> tx_same S j d d'" "tx_dirs_kept S j d d'"
    "payload S d' j p = payload S d j p"
    "doc_text S d' i dc' = (if r = Inr () \<and> dc' = dc then Some c else doc_text S d i dc')"
proof -
  note e = write_document_effect [OF assms]
  show h: "tx_dirs_kept S j d d'" for j
    using tx_dirs_keptI [OF e(1)] .
  show "tx_same S j d d'" if "j \<noteq> i"
  proof -
    have "file_bytes d' q = file_bytes d q" if q: "in_tx S j q" for q
    proof -
      have "q \<noteq> doc_path S i dc"
        using in_tx_unique [OF q] in_tx_doc_path [of S i dc] \<open>j \<noteq> i\<close> by metis
      then show ?thesis using e(3) [OF in_tx_not_tmp [OF q]] by simp
    qed
    with h show ?thesis by (simp add: tx_same_def)
  qed
  show "payload S d' j p = payload S d j p"
    using e(3) by (simp add: payload_def)
  show "doc_text S d' i dc' = (if r = Inr () \<and> dc' = dc then Some c else doc_text S d i dc')"
    using e(3) by (simp add: doc_text_def doc_path_inject)
qed

lemma agree_tx_same:
  assumes "agree (in_tx S i) d d'" "j \<noteq> i"
  shows "tx_same S j d d'"
proof -
  have n: "node_at d' q = node_at d q" if "in_tx S j q" for q
    using assms(1,2) that in_tx_unique [of S j q i] by (auto simp: agree_def)
  have "in_tx S j (files_dir S j)" "in_tx S j (transaction_dir S j)"
    by (simp_all add: in_tx_iff files_dir_simps transaction_dir_def transactions_dir_def)
  with n have "tx_dirs_kept S j d d'"
    by (simp add: tx_dirs_kept_def has_transaction_def is_directory_def)
  with n show ?thesis by (simp add: tx_same_def file_bytes_def)
qed

lemma repo_insert_tx:
  assumes "repo_insert S J t w = (r, w')"
  shows "j \<noteq> tx_id t \<Longrightarrow> tx_same S j (disk_of w) (disk_of w')"
    "r = Inr () \<Longrightarrow> has_transaction S (tx_id t) (disk_of w') \<and>
      is_directory (disk_of w') (transaction_dir S (tx_id t)) \<and>
      doc_text S (disk_of w') (tx_id t) Meta = Some (encode_meta J t)"
proof -
  show "tx_same S j (disk_of w) (disk_of w')" if j: "j \<noteq> tx_id t"
    using assms
  proof (cases rule: repo_insert_cases)
    case (create e d)
    then show ?thesis
      using agree_tx_same [OF create_transaction_effect(4) [OF create(3)] j] by simp
  next
    case (put e d1 d2 r3 d3)
    have "tx_same S j (disk_of w) d1" "tx_same S j d1 d2" "tx_same S j d2 d3"
      using agree_tx_same [OF create_transaction_effect(4) [OF put(3)] j] write_document_tx(1) [OF put(4) j]
        agree_tx_same [OF shrunk_agree [OF remove_transaction_effect(1) [OF put(5)]] j] by simp_all
    from tx_same_trans [OF tx_same_trans [OF this(1,2)] this(3)] show ?thesis using put(6) by simp
  next
    case (ok d1 d2)
    have "tx_same S j (disk_of w) d1" "tx_same S j d1 d2"
      using agree_tx_same [OF create_transaction_effect(4) [OF ok(3)] j] write_document_tx(1) [OF ok(4) j]
      by simp_all
    from tx_same_trans [OF this] show ?thesis using ok(5) by simp
  qed simp
  show "has_transaction S (tx_id t) (disk_of w') \<and> is_directory (disk_of w') (transaction_dir S (tx_id t)) \<and>
      doc_text S (disk_of w') (tx_id t) Meta = Some (encode_meta J t)" if "r = Inr ()"
    using assms
  proof (cases rule: repo_insert_cases)
    case (ok d1 d2)
    then show ?thesis
      using create_transaction_effect(3) [OF ok(3)] write_document_tx(2,4) [OF ok(4)]
      by (simp add: tx_dirs_kept_def)
  qed (use that in auto)
qed

lemma repo_save_tx:
  assumes "repo_save S J t w = (r, w')"
  shows "j \<noteq> tx_id t \<Longrightarrow> tx_same S j (disk_of w) (disk_of w')"
    "tx_dirs_kept S j (disk_of w) (disk_of w')"
    "payload S (disk_of w') j p = payload S (disk_of w) j p"
    "doc_text S (disk_of w') (tx_id t) Meta =
      (if r = Inr () then Some (encode_meta J t) else doc_text S (disk_of w) (tx_id t) Meta)"
    "doc_text S (disk_of w') (tx_id t) Manifest = doc_text S (disk_of w) (tx_id t) Manifest"
proof -
  have "(j \<noteq> tx_id t \<longrightarrow> tx_same S j (disk_of w) (disk_of w')) \<and>
    tx_dirs_kept S j (disk_of w) (disk_of w') \<and>
    payload S (disk_of w') j p = payload S (disk_of w) j p \<and>
    doc_text S (disk_of w') (tx_id t) Meta =
      (if r = Inr () then Some (encode_meta J t) else doc_text S (disk_of w) (tx_id t) Meta) \<and>
    doc_text S (disk_of w') (tx_id t) Manifest = doc_text S (disk_of w) (tx_id t) Manifest"
    using assms
  proof (cases rule: repo_save_cases)
    case (put e d)
    then show ?thesis using write_document_tx [OF put(3)] by simp
  next
    case (ok d)
    then show ?thesis using write_document_tx [OF ok(3)] by simp
  qed auto
  then show "j \<noteq> tx_id t \<Longrightarrow> tx_same S j (disk_of w) (disk_of w')"
    "tx_dirs_kept S j (disk_of w) (disk_of w')"
    "payload S (disk_of w') j p = payload S (disk_of w) j p"
    "doc_text S (disk_of w') (tx_id t) Meta =
      (if r = Inr () then Some (encode_meta J t) else doc_text S (disk_of w) (tx_id t) Meta)"
    "doc_text S (disk_of w') (tx_id t) Manifest = doc_text S (disk_of w) (tx_id t) Manifest"
    by blast+
qed

lemma repo_save_manifest_tx:
  assumes "repo_save_manifest S J t w = (r, w')"
  shows "j \<noteq> tx_id t \<Longrightarrow> tx_same S j (disk_of w) (disk_of w')"
    "tx_dirs_kept S j (disk_of w) (disk_of w')"
    "payload S (disk_of w') j p = payload S (disk_of w) j p"
    "doc_text S (disk_of w') (tx_id t) Meta = doc_text S (disk_of w) (tx_id t) Meta"
    "doc_text S (disk_of w') (tx_id t) Manifest =
      (if r = Inr () then Some (encode_manifest J t) else doc_text S (disk_of w) (tx_id t) Manifest)"
    "index w' = index w"
proof -
  obtain d where d: "write_document S (tx_id t) Manifest (encode_manifest J t) (disk_of w) = (r, d)"
    "w' = w\<lparr>disk_of := d\<rparr>"
    using assms by (auto simp: repo_save_manifest_def on_disk_eq)
  note e = write_document_tx [OF d(1)]
  show "j \<noteq> tx_id t \<Longrightarrow> tx_same S j (disk_of w) (disk_of w')"
    "tx_dirs_kept S j (disk_of w) (disk_of w')"
    "payload S (disk_of w') j p = payload S (disk_of w) j p"
    "doc_text S (disk_of w') (tx_id t) Meta = doc_text S (disk_of w) (tx_id t) Meta"
    "doc_text S (disk_of w') (tx_id t) Manifest =
      (if r = Inr () then Some (encode_manifest J t) else doc_text S (disk_of w) (tx_id t) Manifest)"
    "index w' = index w"
    using e by (simp_all add: d(2))
qed

lemma repo_remove_tx:
  assumes "repo_remove S i w = (r, w')"
  shows "j \<noteq> i \<Longrightarrow> tx_same S j (disk_of w) (disk_of w')"
    "r = Inr () \<Longrightarrow> in_tx S i q \<Longrightarrow> node_at (disk_of w') q = None"
proof -
  have "(j \<noteq> i \<longrightarrow> tx_same S j (disk_of w) (disk_of w')) \<and>
      (r = Inr () \<longrightarrow> in_tx S i q \<longrightarrow> node_at (disk_of w') q = None)"
    using assms
  proof (cases rule: repo_remove_cases)
    case (failed e d)
    note s = shrunk_agree [OF remove_transaction_effect(1) [OF failed(2)]]
    show ?thesis using agree_tx_same [OF s] failed by simp
  next
    case (ok d)
    note s = shrunk_agree [OF remove_transaction_effect(1) [OF ok(2)]]
    show ?thesis using agree_tx_same [OF s] remove_transaction_effect(3) [OF ok(2)] ok by simp
  qed
  then show "j \<noteq> i \<Longrightarrow> tx_same S j (disk_of w) (disk_of w')"
    "r = Inr () \<Longrightarrow> in_tx S i q \<Longrightarrow> node_at (disk_of w') q = None"
    by blast+
qed

subsection \<open>Loading\<close>

text \<open>The transaction that \<^verbatim>\<open>meta.json\<close> on disk decodes to.\<close>

definition meta_at :: "store \<Rightarrow> json_lib \<Rightarrow> disk \<Rightarrow> transaction_id \<Rightarrow> transaction option" where
  "meta_at S J d i =
     (case doc_text S d i Meta of
        None \<Rightarrow> None
      | Some s \<Rightarrow> (case decode_meta J s of Inl _ \<Rightarrow> None | Inr t \<Rightarrow> Some t))"

lemma load_loop_effect:
  assumes "load_loop S J ids loaded d = (r, d')"
  shows "same_disk d d' \<and>
    (\<forall>ix. r = Inr ix \<longrightarrow>
      map_of ix = (\<lambda>i. if i \<in> set ids \<and> map_of loaded i = None then meta_at S J d i else map_of loaded i) \<and>
      (\<forall>i \<in> set ids. \<exists>t. meta_at S J d i = Some t \<and> tx_id t = i))"
  using assms
proof (induction ids arbitrary: loaded d)
  case (Cons i ids)
  obtain x d1 where rd: "read_document S i Meta d = (x, d1)" by fastforce
  note re = read_document_effect [OF rd]
  show ?case
  proof (cases x)
    case (Inl e)
    then show ?thesis using Cons.prems rd re(1) by auto
  next
    case (Inr s)
    have s: "doc_text S d i Meta = Some s" using re(2) Inr by blast
    show ?thesis
    proof (cases "\<exists>t. decode_meta J s = Inr t \<and> tx_id t = i")
      case False
      then have "d' = d1 \<and> (\<forall>ix. r \<noteq> Inr ix)"
        using Cons.prems rd Inr by (auto split: sum.splits if_splits)
      then show ?thesis using re(1) by blast
    next
      case True
      then obtain t where t: "decode_meta J s = Inr t" "tx_id t = i" by blast
      let ?l = "if map_of loaded i = None then loaded @ [(i, t)] else loaded"
      have "load_loop S J ids ?l d1 = (r, d')"
        using Cons.prems rd Inr t by simp
      note ih = Cons.IH [OF this]
      have v: "meta_at S J d1 = meta_at S J d"
        using same_disk_views(3) [OF re(1)] by (simp add: meta_at_def fun_eq_iff)
      have m: "meta_at S J d i = Some t" using s t by (simp add: meta_at_def)
      have l: "map_of ?l k = (if k = i \<and> map_of loaded i = None then Some t else map_of loaded k)" for k
        by (auto simp: map_add_def split: option.splits)
      have sd: "same_disk d d'" using ih same_disk_trans [OF re(1)] by blast
      have "map_of ix = (\<lambda>k. if k \<in> set (i # ids) \<and> map_of loaded k = None then meta_at S J d k else map_of loaded k) \<and>
          (\<forall>k \<in> set (i # ids). \<exists>t. meta_at S J d k = Some t \<and> tx_id t = k)" if "r = Inr ix" for ix
      proof -
        from ih that have a: "map_of ix = (\<lambda>k. if k \<in> set ids \<and> map_of ?l k = None then meta_at S J d k else map_of ?l k)"
          and b: "\<forall>k \<in> set ids. \<exists>t. meta_at S J d k = Some t \<and> tx_id t = k" unfolding v by blast+
        have "map_of ix k = (if k \<in> set (i # ids) \<and> map_of loaded k = None then meta_at S J d k else map_of loaded k)" for k
          unfolding a l using m by auto
        with b m t show ?thesis by (simp add: fun_eq_iff)
      qed
      with sd show ?thesis by blast
    qed
  qed
qed auto

text \<open>
  \<open>load\<close> succeeds only when every transaction directory has a readable \<^verbatim>\<open>meta.json\<close> with its
  own id, and then the index is exactly what the documents say.
\<close>

lemma repo_load_ok:
  assumes "repo_load S J w = (Inr u, w')"
  shows "same_disk (disk_of w) (disk_of w')"
    "repo_find w' i = (if valid_id i \<and> is_directory (disk_of w) (transaction_dir S i)
       then meta_at S J (disk_of w) i else None)"
    "valid_id i \<Longrightarrow> is_directory (disk_of w) (transaction_dir S i) \<Longrightarrow>
       \<exists>t. meta_at S J (disk_of w) i = Some t \<and> tx_id t = i"
proof -
  obtain ids d1 ix d2 where l: "list_transactions S (disk_of w) = (Inr ids, d1)"
    and m: "load_loop S J ids [] d1 = (Inr ix, d2)" and w': "w' = w\<lparr>disk_of := d2, index := ix\<rparr>"
    using assms by (auto simp: repo_load_def try_simps on_disk_eq)
  have sd: "same_disk (disk_of w) d1" and
    ids: "\<And>i. i \<in> set ids \<longleftrightarrow> valid_id i \<and> is_directory (disk_of w) (transaction_dir S i)"
    using list_transactions_effect [OF l] by blast+
  note e = load_loop_effect [OF m]
  have v: "meta_at S J d1 = meta_at S J (disk_of w)"
    using same_disk_views(3) [OF sd] by (simp add: meta_at_def fun_eq_iff)
  show "same_disk (disk_of w) (disk_of w')" using e sd same_disk_trans w' by auto
  from e have a: "map_of ix = (\<lambda>i. if i \<in> set ids then meta_at S J (disk_of w) i else None)"
    and b: "\<forall>i \<in> set ids. \<exists>t. meta_at S J (disk_of w) i = Some t \<and> tx_id t = i"
    unfolding v by (simp_all add: fun_eq_iff)
  show "repo_find w' i = (if valid_id i \<and> is_directory (disk_of w) (transaction_dir S i)
       then meta_at S J (disk_of w) i else None)"
    using a ids by (simp add: repo_find_def w')
  show "valid_id i \<Longrightarrow> is_directory (disk_of w) (transaction_dir S i) \<Longrightarrow>
       \<exists>t. meta_at S J (disk_of w) i = Some t \<and> tx_id t = i"
    using b ids by blast
qed

end
