(* ===== verification/Tx_Service.thy ===== *)
theory Tx_Service
  imports Tx_Repository Log_Business
begin

section \<open>The transaction service\<close>

text \<open>
  \<^verbatim>\<open>src/src/lib/transaction/service.cpp\<close>: every operation of \<open>TransactionService\<close> and
  \<open>PendingUpload::finish\<close>, as functions on a \<open>world\<close>: the repository and its disk, the calls
  of \<open>BusinessLog::record\<close> so far, the lock slots, and the calls of the commit hook. The time
  of the clock and the generated id are arguments. An operation holds the lock of its transaction
  from its first to its last access, so it is one step of the system.
\<close>

subsection \<open>Model: state and requests\<close>

record world = repo +
  blog :: "biz_event list"
  locks :: "transaction_id list"
  hooks :: "transaction list"

type_synonym destination_check = "string \<Rightarrow> string \<Rightarrow> unit result"

record service_options =
  local_server :: string
  default_retention_days :: int
  max_retention_days :: int
  max_comment_length :: nat
  check_destination :: "destination_check option"
  is_recipient :: membership_check
  on_committed :: bool

record service =
  svc_store :: store
  svc_json :: json_lib
  svc_options :: service_options

record create_request =
  cr_target_user :: string
  cr_target_server :: string
  cr_retention_days :: int
  cr_comment :: string

record receive_request =
  rr_id :: transaction_id
  rr_sender :: string
  rr_target_user :: string
  rr_created_at :: timestamp
  rr_expires_at :: timestamp
  rr_comment :: string

record admin_filter =
  af_user :: string
  af_state :: "tx_state option"
  af_from :: "timestamp option"
  af_to :: "timestamp option"

datatype box = BoxIn | BoxOut

record pending_upload =
  pu_id :: transaction_id
  pu_caller :: caller
  pu_upload :: upload

subsection \<open>Model: helpers\<close>

definition not_found :: "transaction_id \<Rightarrow> 'a result" where
  "not_found i = fail NotFound (''no transaction '' @ i)"

definition forbidden :: "transaction_id \<Rightarrow> 'a result" where
  "forbidden i = fail Forbidden (''no access to transaction '' @ i)"

definition event_for :: "biz_event_type \<Rightarrow> transaction \<Rightarrow> caller \<Rightarrow> biz_event" where
  "event_for ty t c =
     (no_event ty)\<lparr>ev_tx := Some (tx_id t), ev_actor := actor_of c, ev_from := sender t,
       ev_to := target_user t, ev_server := target_server t\<rparr>"

definition lock_for :: "transaction_id \<Rightarrow> world \<Rightarrow> world" where
  "lock_for i w = (if i \<in> set (locks w) then w else w\<lparr>locks := i # locks w\<rparr>)"

definition record_event :: "biz_event \<Rightarrow> world \<Rightarrow> world" where
  "record_event e w = w\<lparr>blog := blog w @ [e]\<rparr>"

definition file_event :: "biz_event_type \<Rightarrow> transaction \<Rightarrow> caller \<Rightarrow> biz_event" where
  "file_event ty t c =
     (event_for ty t c)\<lparr>ev_file_count := Some (length (files t) mod 2 ^ 32),
       ev_total_bytes := Some (total_bytes (files t))\<rparr>"

definition system_caller :: caller where
  "system_caller = \<lparr>caller_name = ''system'', is_peer = False, is_admin = False\<rparr>"

text \<open>The order of \<open>list\<close> and \<open>admin_list\<close>: newest first, then by id.\<close>

definition newest_first :: "transaction list \<Rightarrow> transaction list" where
  "newest_first ts = sort_key (\<lambda>t. (- created_at t, tx_id t)) ts"

subsection \<open>Model: the sender\<close>

definition run_check :: "destination_check option \<Rightarrow> string \<Rightarrow> string \<Rightarrow> unit result" where
  "run_check chk user server = (case chk of None \<Rightarrow> Inr () | Some f \<Rightarrow> f user server)"

definition create_tx :: "transaction_id \<Rightarrow> caller \<Rightarrow> create_request \<Rightarrow> string \<Rightarrow> timestamp \<Rightarrow> timestamp \<Rightarrow> transaction" where
  "create_tx uuid c req server created expiry =
     \<lparr>tx_id = uuid, sender = caller_name c, target_user = cr_target_user req, target_server = server,
      origin_server = [], comment = cr_comment req, state = Open, created_at = created, expires = expiry,
      committed_at = None, delivered_at = None, files = []\<rparr>"

definition svc_create ::
  "service \<Rightarrow> timestamp \<Rightarrow> transaction_id \<Rightarrow> caller \<Rightarrow> create_request \<Rightarrow> world \<Rightarrow> transaction result \<times> world" where
  "svc_create V now uuid c req w =
     (let opts = svc_options V
      in if is_peer c then (fail Forbidden ''peers cannot create transactions'', w)
         else if cr_target_user req = [] then (fail Validation ''target_user is empty'', w)
         else if cr_retention_days req < 0 then (fail Validation ''retention_days must not be negative'', w)
         else if max_retention_days opts < cr_retention_days req
         then (fail Validation (''retention_days must be at most '' @ dec_int (max_retention_days opts) @
                 '', got '' @ dec_int (cr_retention_days req)), w)
         else
           cfd_tryS (check_comment (cr_comment req) (max_comment_length opts), w) (\<lambda>_ w.
             let local_target = (cr_target_server req = [] \<or> cr_target_server req = local_server opts);
                 server = (if local_target then [] else cr_target_server req)
             in cfd_tryS (run_check (check_destination opts) (cr_target_user req) server, w) (\<lambda>_ w.
                let days = (if cr_retention_days req = 0 then default_retention_days opts else cr_retention_days req)
                in cfd_tryS (expires_at now days, w) (\<lambda>expiry w.
                   let t = create_tx uuid c req server now expiry
                   in cfd_tryS (repo_insert (svc_store V) (svc_json V) t w) (\<lambda>_ w.
                        (Inr t, record_event (event_for TxCreated t c) w))))))"

definition svc_begin_upload ::
  "service \<Rightarrow> caller \<Rightarrow> transaction_id \<Rightarrow> relative_path \<Rightarrow> world \<Rightarrow> pending_upload result \<times> world" where
  "svc_begin_upload V c i p w0 =
     (let w = lock_for i w0
      in case repo_find w i of
           None \<Rightarrow> (not_found i, w)
         | Some t \<Rightarrow>
             if \<not> may_write c t then (forbidden i, w)
             else
               cfd_tryS (require_mutable (state t), w) (\<lambda>_ w.
               cfd_tryS (on_disk (begin_upload (svc_store V) i p) w) (\<lambda>u w.
                 (Inr \<lparr>pu_id = i, pu_caller = c, pu_upload = u\<rparr>, w))))"

definition pending_write ::
  "service \<Rightarrow> pending_upload \<Rightarrow> byte list \<Rightarrow> world \<Rightarrow> unit result \<times> pending_upload \<times> world" where
  "pending_write V pu chunk w =
     (let (r, u, d) = upload_write (svc_store V) (pu_upload pu) chunk (disk_of w)
      in (r, pu\<lparr>pu_upload := u\<rparr>, w\<lparr>disk_of := d\<rparr>))"

text \<open>\<open>finish\<close>; the upload object goes on existing and is dropped by its owner afterwards.\<close>

definition pending_finish ::
  "service \<Rightarrow> pending_upload \<Rightarrow> sha256_digest option \<Rightarrow> world \<Rightarrow> file_entry result \<times> pending_upload \<times> world" where
  "pending_finish V pu expected w0 =
     (let i = pu_id pu; w = lock_for i w0
      in case repo_find w i of
           None \<Rightarrow> (not_found i, pu, w)
         | Some t \<Rightarrow>
             (case require_mutable (state t) of
                Inl e \<Rightarrow> (Inl e, pu, w)
              | Inr _ \<Rightarrow>
                  let (r, u, d) = upload_commit (svc_store V) (pu_upload pu) expected (disk_of w);
                      pu = pu\<lparr>pu_upload := u\<rparr>; w = w\<lparr>disk_of := d\<rparr>
                  in case r of
                       Inl e \<Rightarrow> (Inl e, pu, w)
                     | Inr stored \<Rightarrow>
                         let entry = \<lparr>fe_path = sf_path stored, fe_size = sf_size stored, fe_sha256 = sf_sha256 stored\<rparr>;
                             t = t\<lparr>files := upsert_file (files t) entry\<rparr>
                         in case repo_save (svc_store V) (svc_json V) t w of
                              (Inl e, w) \<Rightarrow> (Inl e, pu, w)
                            | (Inr _, w) \<Rightarrow>
                                let ev = (event_for FileAdded t (pu_caller pu))\<lparr>ev_file := Some (fe_path entry),
                                      ev_size := Some (fe_size entry), ev_sha256 := Some (to_hex (fe_sha256 entry))\<rparr>
                                in (Inr entry, pu, record_event ev w)))"

definition pending_drop :: "pending_upload \<Rightarrow> world \<Rightarrow> world" where
  "pending_drop pu w = w\<lparr>disk_of := upload_drop (pu_upload pu) (disk_of w)\<rparr>"

definition svc_remove_file ::
  "service \<Rightarrow> caller \<Rightarrow> transaction_id \<Rightarrow> relative_path \<Rightarrow> world \<Rightarrow> unit result \<times> world" where
  "svc_remove_file V c i p w0 =
     (let w = lock_for i w0
      in case repo_find w i of
           None \<Rightarrow> (not_found i, w)
         | Some t \<Rightarrow>
             if \<not> may_write c t then (forbidden i, w)
             else
               cfd_tryS (require_mutable (state t), w) (\<lambda>_ w.
                 case erase_file p (files t) of
                   None \<Rightarrow> (fail NotFound (''no such file: '' @ p), w)
                 | Some fs \<Rightarrow>
                     cfd_tryS (on_disk (remove_file (svc_store V) i p) w) (\<lambda>_ w.
                       let t = t\<lparr>files := fs\<rparr>
                       in cfd_tryS (repo_save (svc_store V) (svc_json V) t w) (\<lambda>_ w.
                            (Inr (), record_event ((event_for FileRemoved t c)\<lparr>ev_file := Some p\<rparr>) w)))))"

text \<open>The check of \<open>commit\<close> that the bytes on disk are the ones that were uploaded.\<close>

fun verify_files :: "service \<Rightarrow> transaction_id \<Rightarrow> file_entry list \<Rightarrow> world \<Rightarrow> unit result \<times> world" where
  "verify_files V i [] w = (Inr (), w)"
| "verify_files V i (f # fs) w =
     cfd_tryS (on_disk (hash_file (svc_store V) i (fe_path f)) w) (\<lambda>actual w.
       if sf_size actual \<noteq> fe_size f \<or> sf_sha256 actual \<noteq> fe_sha256 f
       then (fail Integrity (''file changed on disk: '' @ fe_path f), w)
       else verify_files V i fs w)"

definition run_hook :: "service \<Rightarrow> transaction \<Rightarrow> world \<Rightarrow> world" where
  "run_hook V t w = (if on_committed (svc_options V) then w\<lparr>hooks := hooks w @ [t]\<rparr> else w)"

definition svc_commit ::
  "service \<Rightarrow> timestamp \<Rightarrow> caller \<Rightarrow> transaction_id \<Rightarrow> world \<Rightarrow> transaction result \<times> world" where
  "svc_commit V now c i w0 =
     (let w = lock_for i w0
      in case repo_find w i of
           None \<Rightarrow> (not_found i, w)
         | Some t \<Rightarrow>
             if \<not> may_write c t then (forbidden i, w)
             else
               cfd_tryS (check_transition (state t) Committed, w) (\<lambda>_ w.
               cfd_tryS (verify_files V i (files t) w) (\<lambda>_ w.
                 let t = t\<lparr>state := Committed, committed_at := Some now\<rparr>
                 in cfd_tryS (repo_save_manifest (svc_store V) (svc_json V) t w) (\<lambda>_ w.
                    cfd_tryS (repo_save (svc_store V) (svc_json V) t w) (\<lambda>_ w.
                      let ty = (if is_origin_peer c t then Received else EvCommitted)
                      in (Inr t, run_hook V t (record_event (file_event ty t c) w)))))))"

subsection \<open>Model: reading\<close>

definition svc_get :: "service \<Rightarrow> caller \<Rightarrow> transaction_id \<Rightarrow> world \<Rightarrow> transaction result" where
  "svc_get V c i w =
     (case repo_find w i of
        None \<Rightarrow> not_found i
      | Some t \<Rightarrow> if \<not> may_read c t (is_recipient (svc_options V)) then forbidden i else Inr t)"

definition svc_list :: "service \<Rightarrow> caller \<Rightarrow> box \<Rightarrow> world \<Rightarrow> transaction list" where
  "svc_list V c b w =
     (if is_peer c then []
      else newest_first (repo_find_if (\<lambda>t.
        if b = BoxOut then is_sender c t
        else is_target c t (is_recipient (svc_options V)) \<and> (state t = Committed \<or> state t = Delivered)) w))"

definition svc_open_download ::
  "service \<Rightarrow> caller \<Rightarrow> transaction_id \<Rightarrow> relative_path \<Rightarrow> world \<Rightarrow> download result \<times> world" where
  "svc_open_download V c i p w =
     (case repo_find w i of
        None \<Rightarrow> (not_found i, w)
      | Some t \<Rightarrow>
          if \<not> may_read c t (is_recipient (svc_options V)) then (forbidden i, w)
          else
            cfd_tryS (require_readable (state t), w) (\<lambda>_ w.
              if find_file (files t) p = None then (fail NotFound (''no such file: '' @ p), w)
              else on_disk (open_read (svc_store V) i p) w))"

subsection \<open>Model: peers, the forwarder and retention\<close>

definition receive_tx :: "caller \<Rightarrow> receive_request \<Rightarrow> transaction" where
  "receive_tx c req =
     \<lparr>tx_id = rr_id req, sender = rr_sender req, target_user = rr_target_user req, target_server = [],
      origin_server = caller_name c, comment = rr_comment req, state = Open, created_at = rr_created_at req,
      expires = rr_expires_at req, committed_at = None, delivered_at = None, files = []\<rparr>"

definition svc_receive :: "service \<Rightarrow> caller \<Rightarrow> receive_request \<Rightarrow> world \<Rightarrow> transaction result \<times> world" where
  "svc_receive V c req w =
     (if \<not> is_peer c then (fail Forbidden ''only peers can push transactions'', w)
      else if rr_sender req = [] \<or> rr_target_user req = []
      then (fail Validation ''sender and target_user are required'', w)
      else if rr_expires_at req \<le> rr_created_at req
      then (fail Validation ''expires_at must be after created_at'', w)
      else
        cfd_tryS (check_comment (rr_comment req) (max_comment_length (svc_options V)), w) (\<lambda>_ w.
        cfd_tryS (run_check (check_destination (svc_options V)) (rr_target_user req) [], w) (\<lambda>_ w.
          let w = lock_for (rr_id req) w; t = receive_tx c req
          in cfd_tryS (repo_insert (svc_store V) (svc_json V) t w) (\<lambda>_ w. (Inr t, w)))))"

definition svc_list_outgoing :: "world \<Rightarrow> transaction_id list" where
  "svc_list_outgoing w = map tx_id (sort_key (\<lambda>t. (committed_at t, tx_id t)) (repo_find_if is_outgoing w))"

definition svc_outgoing :: "transaction_id \<Rightarrow> world \<Rightarrow> transaction result" where
  "svc_outgoing i w =
     (case repo_find w i of
        None \<Rightarrow> not_found i
      | Some t \<Rightarrow>
          if \<not> is_outgoing t
          then fail Conflict (''transaction '' @ i @ '' is '' @ state_name (state t) @ '', not waiting to be forwarded'')
          else Inr t)"

definition svc_mark_delivered :: "service \<Rightarrow> timestamp \<Rightarrow> transaction_id \<Rightarrow> world \<Rightarrow> unit result \<times> world" where
  "svc_mark_delivered V now i w0 =
     (let w = lock_for i w0
      in case repo_find w i of
           None \<Rightarrow> (not_found i, w)
         | Some t \<Rightarrow>
             cfd_tryS (check_transition (state t) Delivered, w) (\<lambda>_ w.
               let t = t\<lparr>state := Delivered, delivered_at := Some now\<rparr>
               in cfd_tryS (repo_save (svc_store V) (svc_json V) t w) (\<lambda>_ w.
                    (Inr (), record_event (file_event Forwarded t system_caller) w))))"

definition svc_list_expired :: "timestamp \<Rightarrow> world \<Rightarrow> transaction_id list" where
  "svc_list_expired now w = map tx_id (repo_find_if (\<lambda>t. is_expired (expires t) now) w)"

definition svc_destroy ::
  "service \<Rightarrow> transaction_id \<Rightarrow> biz_event_type \<Rightarrow> caller \<Rightarrow> world \<Rightarrow> unit result \<times> world" where
  "svc_destroy V i ty actor w0 =
     (let w = lock_for i w0
      in case repo_find w i of
           None \<Rightarrow> (not_found i, w)
         | Some t \<Rightarrow>
             cfd_tryS
               (if state t \<noteq> Expired
                then cfd_tryS (check_transition (state t) Expired, w) (\<lambda>_ w.
                       let t = t\<lparr>state := Expired\<rparr>
                       in cfd_tryS (repo_save (svc_store V) (svc_json V) t w) (\<lambda>_ w. (Inr t, w)))
                else (Inr t, w)) (\<lambda>t w.
             cfd_tryS (repo_remove (svc_store V) i w) (\<lambda>_ w.
               let w = record_event (event_for ty t actor) w
               in (Inr (), w\<lparr>locks := removeAll i (locks w)\<rparr>))))"

definition svc_expire :: "service \<Rightarrow> transaction_id \<Rightarrow> world \<Rightarrow> unit result \<times> world" where
  "svc_expire V i w = svc_destroy V i EvExpired system_caller w"

subsection \<open>Model: administrators\<close>

definition svc_admin_list :: "caller \<Rightarrow> admin_filter \<Rightarrow> world \<Rightarrow> transaction list" where
  "svc_admin_list c f w =
     (if \<not> is_admin c then []
      else newest_first (repo_find_if (\<lambda>t.
        (af_user f = [] \<or> sender t = af_user f \<or> target_user t = af_user f) \<and>
        (case af_state f of None \<Rightarrow> True | Some st \<Rightarrow> state t = st) \<and>
        (case af_from f of None \<Rightarrow> True | Some ts \<Rightarrow> ts \<le> created_at t) \<and>
        (case af_to f of None \<Rightarrow> True | Some ts \<Rightarrow> created_at t < ts)) w))"

definition svc_admin_get :: "caller \<Rightarrow> transaction_id \<Rightarrow> world \<Rightarrow> transaction result" where
  "svc_admin_get c i w =
     (if \<not> is_admin c then forbidden i
      else (case repo_find w i of None \<Rightarrow> not_found i | Some t \<Rightarrow> Inr t))"

definition svc_admin_delete :: "service \<Rightarrow> caller \<Rightarrow> transaction_id \<Rightarrow> world \<Rightarrow> unit result \<times> world" where
  "svc_admin_delete V c i w = (if \<not> is_admin c then (forbidden i, w) else svc_destroy V i AdminDeleted c w)"

definition svc_set_retention ::
  "service \<Rightarrow> caller \<Rightarrow> transaction_id \<Rightarrow> int \<Rightarrow> world \<Rightarrow> transaction result \<times> world" where
  "svc_set_retention V c i days w0 =
     (if \<not> is_admin c then (forbidden i, w0)
      else if days < 1 \<or> max_retention_days (svc_options V) < days
      then (fail Validation (''days must be 1..'' @ dec_int (max_retention_days (svc_options V)) @ '', got '' @
              dec_int days), w0)
      else
        (let w = lock_for i w0
         in case repo_find w i of
              None \<Rightarrow> (not_found i, w)
            | Some t \<Rightarrow>
                if state t = Expired then (fail Gone ''transaction has expired'', w)
                else
                  cfd_tryS (expires_at (created_at t) days, w) (\<lambda>expiry w.
                    let t = t\<lparr>expires := expiry\<rparr>
                    in cfd_tryS (repo_save (svc_store V) (svc_json V) t w) (\<lambda>_ w.
                         (Inr t, record_event ((event_for RetentionChanged t c)\<lparr>ev_retention_days := Some days\<rparr>) w)))))"

end
