(* ===== verification/Tx_Invariant.thy ===== *)
theory Tx_Invariant
  imports Tx_Service
begin

section \<open>The invariant of the transaction service\<close>

text \<open>
  What holds of the index and the disk between two operations: every transaction of the index is
  valid, its \<^verbatim>\<open>meta.json\<close> is on disk unless it is being deleted, and every file of a committed or
  delivered transaction is on disk with the size and the digest the transaction records. Uploads
  in progress are described by a second invariant. Both are kept by every repository call.
\<close>

subsection \<open>Definitions\<close>

text \<open>
  Times for which every expiry the service can compute still has a text form: the years 0 to 9988,
  ten years and some days below the last year \<open>format_iso8601\<close> can write.
\<close>

definition clock_ok :: "timestamp \<Rightarrow> bool" where
  "clock_ok now \<longleftrightarrow> iso_range now \<and> iso_range (now + 86400 * kMaxRetentionDays)"

definition published :: "transaction \<Rightarrow> bool" where
  "published t \<longleftrightarrow> state t = Committed \<or> state t = Delivered"

definition stored_as ::
  "store \<Rightarrow> (byte list \<Rightarrow> sha256_digest) \<Rightarrow> disk \<Rightarrow> transaction_id \<Rightarrow> file_entry \<Rightarrow> bool" where
  "stored_as S sha d i f \<longleftrightarrow>
     (\<exists>bs. payload S d i (fe_path f) = Some bs \<and> length bs = fe_size f \<and> sha bs = fe_sha256 f)"

definition tx_ok ::
  "service \<Rightarrow> (byte list \<Rightarrow> sha256_digest) \<Rightarrow> disk \<Rightarrow> transaction_id \<Rightarrow> transaction \<Rightarrow> bool" where
  "tx_ok V sha d i t \<longleftrightarrow>
     tx_id t = i \<and> wf_tx t \<and> clock_ok (created_at t) \<and>
     is_directory d (transaction_dir (svc_store V) i) \<and>
     (if state t = Expired
      then doc_text (svc_store V) d i Meta \<in> {None, Some (encode_meta (svc_json V) t)}
      else has_transaction (svc_store V) i d \<and>
        doc_text (svc_store V) d i Meta = Some (encode_meta (svc_json V) t)) \<and>
     (published t \<longrightarrow>
        (\<forall>f \<in> set (files t). stored_as (svc_store V) sha d i f) \<and>
        doc_text (svc_store V) d i Manifest = Some (encode_manifest (svc_json V) t))"

definition tx_inv ::
  "service \<Rightarrow> (byte list \<Rightarrow> sha256_digest) \<Rightarrow> (transaction_id \<times> transaction) list \<Rightarrow> disk \<Rightarrow> bool" where
  "tx_inv V sha ix d \<longleftrightarrow>
     distinct (map fst ix) \<and> (\<forall>i t. map_of ix i = Some t \<longrightarrow> tx_ok V sha d i t) \<and>
     (\<forall>i. map_of ix i = None \<longrightarrow> doc_text (svc_store V) d i Meta = None)"

definition pend_ok :: "store \<Rightarrow> disk \<Rightarrow> pending_upload \<Rightarrow> bool" where
  "pend_ok S d pu \<longleftrightarrow>
     (let u = pu_upload pu
      in valid_path (up_path u) \<and> valid_utf8 (up_path u) \<and>
         final_path u = under (up_path u) (files_dir S (pu_id pu)) \<and>
         (\<exists>n < tmp_counter d. tmp_path u = tmp_dir S @ [tmp_name (pu_id pu) n]) \<and>
         (up_done u \<or> (\<exists>cs. up_holds u d cs)))"

abbreviation pend_tmp :: "pending_upload \<Rightarrow> fs_path" where
  "pend_tmp pu \<equiv> tmp_path (pu_upload pu)"

definition pend_inv :: "store \<Rightarrow> disk \<Rightarrow> pending_upload list \<Rightarrow> bool" where
  "pend_inv S d ps \<longleftrightarrow> (\<forall>pu \<in> set ps. pend_ok S d pu) \<and> distinct (map pend_tmp ps)"

text \<open>The temporary files that exist already are as before.\<close>

definition tmp_kept :: "store \<Rightarrow> disk \<Rightarrow> disk \<Rightarrow> bool" where
  "tmp_kept S d d' \<longleftrightarrow>
     tmp_counter d \<le> tmp_counter d' \<and>
     (\<forall>i n. n < tmp_counter d \<longrightarrow>
        file_bytes d' (tmp_dir S @ [tmp_name i n]) = file_bytes d (tmp_dir S @ [tmp_name i n]))"

subsection \<open>Preservation on the disk\<close>

lemma tmp_kept_refl [simp, intro]: "tmp_kept S d d"
  by (simp add: tmp_kept_def)

lemma tmp_kept_trans: "tmp_kept S d d' \<Longrightarrow> tmp_kept S d' d'' \<Longrightarrow> tmp_kept S d d''"
  by (auto simp: tmp_kept_def)

lemma tmp_kept_same: "same_disk d d' \<Longrightarrow> tmp_kept S d d'"
  by (simp add: tmp_kept_def same_disk_views) (simp add: same_disk_def)

lemma in_tx_tmp_dir: "in_tmp S q \<Longrightarrow> \<not> in_tx S i q"
  using in_tx_not_tmp by blast

lemma tmp_kept_agree: "agree (in_tx S i) d d' \<Longrightarrow> tmp_counter d' = tmp_counter d \<Longrightarrow> tmp_kept S d d'"
  by (auto simp: tmp_kept_def in_tx_tmp_dir intro!: agree_file)

lemma tmp_kept_write_document:
  assumes "write_document S i dc c d = (r, d')"
  shows "tmp_kept S d d'"
proof -
  have "doc_path S i dc \<noteq> tmp_dir S @ [n]" for n
    using doc_path_not_tmp [of S i dc] in_tmp_name [of S n] by metis
  moreover have "tmp_name j n \<noteq> tmp_name i (tmp_counter d)" if "n < tmp_counter d" for j n
    using tmp_name_inject that by blast
  ultimately show ?thesis
    using write_document_frame [OF assms] unfolding tmp_kept_def by (metis last_snoc)
qed

lemma pend_ok_kept: "pend_ok S d pu \<Longrightarrow> tmp_kept S d d' \<Longrightarrow> pend_ok S d' pu"
  by (auto simp: pend_ok_def tmp_kept_def up_holds_def Let_def) (metis order_less_le_trans)+

lemma pend_inv_kept: "pend_inv S d ps \<Longrightarrow> tmp_kept S d d' \<Longrightarrow> pend_inv S d' ps"
  using pend_ok_kept by (auto simp: pend_inv_def)

lemma stored_as_payload:
  "(\<And>p. payload S d' i p = payload S d i p) \<Longrightarrow> stored_as S sha d' i f = stored_as S sha d i f"
  by (simp add: stored_as_def)

lemma tx_ok_same: "tx_same (svc_store V) j d d' \<Longrightarrow> tx_ok V sha d j t \<Longrightarrow> tx_ok V sha d' j t"
  using tx_same_views(3) [of "svc_store V" j d d']
  by (auto simp: tx_ok_def tx_same_views(1,2) stored_as_payload [OF tx_same_views(1)] tx_dirs_kept_def)

text \<open>One transaction changes on disk, the index does not.\<close>

lemma tx_inv_disk:
  assumes "tx_inv V sha ix d" "\<And>j. j \<noteq> i \<Longrightarrow> tx_same (svc_store V) j d d'"
    and "\<And>t. map_of ix i = Some t \<Longrightarrow> tx_ok V sha d i t \<Longrightarrow> tx_ok V sha d' i t"
    and "map_of ix i = None \<Longrightarrow> doc_text (svc_store V) d i Meta = None \<Longrightarrow> doc_text (svc_store V) d' i Meta = None"
  shows "tx_inv V sha ix d'"
  unfolding tx_inv_def
proof (intro conjI allI impI)
  show "distinct (map fst ix)" using assms(1) by (simp add: tx_inv_def)
  fix j
  show "tx_ok V sha d' j t" if "map_of ix j = Some t" for t
    using assms that tx_ok_same [OF assms(2)] by (cases "j = i") (auto simp: tx_inv_def)
  show "doc_text (svc_store V) d' j Meta = None" if "map_of ix j = None"
    using assms that tx_same_views(2) [OF assms(2)] by (cases "j = i") (auto simp: tx_inv_def)
qed

lemma tx_inv_same: "tx_inv V sha ix d \<Longrightarrow> same_disk d d' \<Longrightarrow> tx_inv V sha ix d'"
  using tx_inv_disk [of V sha ix d _ d'] tx_same_disk [of d d'] tx_ok_same [OF tx_same_disk]
  by (metis tx_same_views(2))

text \<open>One transaction changes on disk and in the index.\<close>

lemma tx_inv_update:
  assumes "tx_inv V sha ix d" "\<And>j. j \<noteq> i \<Longrightarrow> tx_same (svc_store V) j d d'" "tx_ok V sha d' i t"
  shows "tx_inv V sha (AList.update i t ix) d'"
  unfolding tx_inv_def
proof (intro conjI allI impI)
  show "distinct (map fst (AList.update i t ix))"
    using assms(1) by (simp add: tx_inv_def distinct_update)
  fix j
  show "tx_ok V sha d' j t'" if "map_of (AList.update i t ix) j = Some t'" for t'
    using assms that tx_ok_same [OF assms(2)] by (cases "j = i") (auto simp: tx_inv_def)
  show "doc_text (svc_store V) d' j Meta = None" if "map_of (AList.update i t ix) j = None"
    using assms that tx_same_views(2) [OF assms(2)] by (cases "j = i") (auto simp: tx_inv_def)
qed

subsection \<open>Preservation by the repository\<close>

lemma doc_text_grown: "grown d d' \<Longrightarrow> doc_text S d' i dc = doc_text S d i dc"
  by (simp add: doc_text_def grown_file)

lemma doc_text_shrunk: "shrunk A d d' \<Longrightarrow> doc_text S d' i dc \<in> {None, doc_text S d i dc}"
  unfolding doc_text_def shrunk_def file_bytes_def
  by (drule spec [of _ "doc_path S i dc"]) (auto split: option.splits)

lemma repo_tmp_kept:
  "repo_insert S J t w = (r1, w') \<Longrightarrow> tmp_kept S (disk_of w) (disk_of w')"
  "repo_save S J t w = (r2, w') \<Longrightarrow> tmp_kept S (disk_of w) (disk_of w')"
  "repo_save_manifest S J t w = (r3, w') \<Longrightarrow> tmp_kept S (disk_of w) (disk_of w')"
  "repo_remove S i w = (r4, w') \<Longrightarrow> tmp_kept S (disk_of w) (disk_of w')"
proof -
  have rm: "tmp_kept S d d'" if "remove_transaction S i d = (r, d')" for r i d d'
    using remove_transaction_effect(1,2) [OF that] tmp_kept_agree shrunk_agree by blast
  have cr: "tmp_kept S d d'" if "create_transaction S i d = (r, d')" for r i d d'
    using create_transaction_effect(2,4) [OF that] tmp_kept_agree by blast
  show "tmp_kept S (disk_of w) (disk_of w')" if "repo_insert S J t w = (r1, w')"
    using that
  proof (cases rule: repo_insert_cases)
    case (put e d1 d2 r3 d3)
    from tmp_kept_trans [OF tmp_kept_trans [OF cr [OF put(3)] tmp_kept_write_document [OF put(4)]] rm [OF put(5)]]
    show ?thesis by (simp add: put(6))
  next
    case (ok d1 d2)
    from tmp_kept_trans [OF cr [OF ok(3)] tmp_kept_write_document [OF ok(4)]] show ?thesis by (simp add: ok(5))
  qed (use cr in auto)
  show "repo_save S J t w = (r2, w') \<Longrightarrow> tmp_kept S (disk_of w) (disk_of w')"
    by (erule repo_save_cases) (auto dest!: tmp_kept_write_document)
  show "repo_save_manifest S J t w = (r3, w') \<Longrightarrow> tmp_kept S (disk_of w) (disk_of w')"
    by (auto simp: repo_save_manifest_def on_disk_eq dest!: tmp_kept_write_document)
  show "repo_remove S i w = (r4, w') \<Longrightarrow> tmp_kept S (disk_of w) (disk_of w')"
    by (erule repo_remove_cases) (auto dest!: rm)
qed

lemma tx_inv_insert:
  assumes "tx_inv V sha (index w) (disk_of w)" "wf_tx t" "clock_ok (created_at t)" "state t = Open"
    and "repo_insert (svc_store V) (svc_json V) t w = (r, w')"
  shows "tx_inv V sha (index w') (disk_of w')"
proof -
  let ?S = "svc_store V"
  note o = repo_insert_tx(1) [OF assms(5)]
  show ?thesis
    using assms(5)
  proof (cases rule: repo_insert_cases)
    case exists
    with assms(1) show ?thesis by simp
  next
    case (create e d)
    have "doc_text ?S d (tx_id t) Meta = doc_text ?S (disk_of w) (tx_id t) Meta"
      using doc_text_grown create_transaction_effect(1) [OF create(3)] by blast
    then have "tx_inv V sha (index w) d"
      by (intro tx_inv_disk [OF assms(1), of "tx_id t"]) (use o create in auto)
    then show ?thesis using create by simp
  next
    case (put e d1 d2 r3 d3)
    have "doc_text ?S (disk_of w) (tx_id t) Meta = None"
      using put(1) assms(1) by (simp add: tx_inv_def)
    then have "doc_text ?S d2 (tx_id t) Meta = None"
      using doc_text_grown [OF create_transaction_effect(1) [OF put(3)]] write_document_tx(4) [OF put(4)] by simp
    then have "doc_text ?S d3 (tx_id t) Meta = None"
      using doc_text_shrunk [OF remove_transaction_effect(1) [OF put(5)], of ?S "tx_id t" Meta] by simp
    then have "tx_inv V sha (index w) d3"
      by (intro tx_inv_disk [OF assms(1), of "tx_id t"]) (use o put in auto)
    then show ?thesis using put by simp
  next
    case (ok d1 d2)
    have "tx_ok V sha (disk_of w') (tx_id t) t"
      using repo_insert_tx(2) [OF assms(5) ok(2)] assms by (simp add: tx_ok_def published_def)
    moreover have "index w' = AList.update (tx_id t) t (index w)" using ok by simp
    ultimately show ?thesis using tx_inv_update [OF assms(1) o] by simp
  qed
qed

lemma tx_inv_save:
  assumes "tx_inv V sha (index w) (disk_of w)" "repo_find w (tx_id t) = Some t0"
    and "wf_tx t" "clock_ok (created_at t)" "state t0 = Expired \<Longrightarrow> state t = Expired"
    and "published t \<Longrightarrow> (\<forall>f \<in> set (files t). stored_as (svc_store V) sha (disk_of w) (tx_id t) f) \<and>
      doc_text (svc_store V) (disk_of w) (tx_id t) Manifest = Some (encode_manifest (svc_json V) t)"
    and "repo_save (svc_store V) (svc_json V) t w = (r, w')"
  shows "tx_inv V sha (index w') (disk_of w')"
proof -
  let ?S = "svc_store V"
  have t0: "tx_ok V sha (disk_of w) (tx_id t) t0"
    using assms(1,2) by (simp add: tx_inv_def repo_find_def)
  note e = repo_save_tx [OF assms(7)]
  show ?thesis
    using assms(7)
  proof (cases rule: repo_save_cases)
    case none
    with assms(1) show ?thesis by simp
  next
    case (put er d)
    have ok': "tx_ok V sha (disk_of w') (tx_id t) t0"
      using t0 e(2,4,5) put(2) by (auto simp: tx_ok_def tx_dirs_kept_def stored_as_payload [OF e(3)] split: if_splits)
    have "tx_inv V sha (index w) (disk_of w')"
      by (rule tx_inv_disk [OF assms(1), of "tx_id t"]) (use e(1) ok' assms(2) in \<open>auto simp: repo_find_def\<close>)
    then show ?thesis using put by simp
  next
    case (ok d)
    have "tx_ok V sha (disk_of w') (tx_id t) t"
      using t0 e(2,4,5) ok(2) assms(3-6) by (auto simp: tx_ok_def tx_dirs_kept_def stored_as_payload [OF e(3)] split: if_splits)
    moreover have "index w' = AList.update (tx_id t) t (index w)" using ok by simp
    ultimately show ?thesis using tx_inv_update [OF assms(1) e(1)] by simp
  qed
qed

lemma tx_inv_save_manifest:
  assumes "tx_inv V sha (index w) (disk_of w)" "repo_find w (tx_id t) = Some t0" "state t0 = Open"
    and "repo_save_manifest (svc_store V) (svc_json V) t w = (r, w')"
  shows "tx_inv V sha (index w') (disk_of w')"
proof -
  note e = repo_save_manifest_tx [OF assms(4)]
  have t0: "map_of (index w) (tx_id t) = Some t0" using assms(2) by (simp add: repo_find_def)
  show ?thesis
    unfolding e(6)
  proof (rule tx_inv_disk [OF assms(1), of "tx_id t"])
    show "tx_ok V sha (disk_of w') (tx_id t) t'" if "map_of (index w) (tx_id t) = Some t'"
      "tx_ok V sha (disk_of w) (tx_id t) t'" for t'
      using that t0 assms(3) e by (simp add: tx_ok_def tx_dirs_kept_def published_def)
  qed (use e in simp_all)
qed

lemma tx_inv_remove:
  assumes "tx_inv V sha (index w) (disk_of w)" "repo_find w i = Some t0" "state t0 = Expired"
    and "repo_remove (svc_store V) i w = (r, w')"
  shows "tx_inv V sha (index w') (disk_of w')"
proof -
  let ?S = "svc_store V"
  note o = repo_remove_tx(1) [OF assms(4)]
  have t0: "map_of (index w) i = Some t0" using assms(2) by (simp add: repo_find_def)
  show ?thesis
    using assms(4)
  proof (cases rule: repo_remove_cases)
    case (failed e d)
    have s: "doc_text ?S d i Meta \<in> {None, doc_text ?S (disk_of w) i Meta}"
      by (rule doc_text_shrunk [OF remove_transaction_effect(1) [OF failed(2)]])
    have "tx_inv V sha (index w) d"
    proof (rule tx_inv_disk [OF assms(1), of i])
      show "tx_ok V sha d i t" if "map_of (index w) i = Some t" "tx_ok V sha (disk_of w) i t" for t
        using that t0 assms(3) s remove_transaction_effect(4) [OF failed(2)] by (auto simp: tx_ok_def published_def)
    qed (use o failed t0 in simp_all)
    then show ?thesis using failed by simp
  next
    case (ok d)
    have n: "doc_text ?S d i Meta = None"
      using remove_transaction_effect(3) [OF ok(2) refl, of "doc_path ?S i Meta"]
      by (simp add: doc_text_def file_bytes_def)
    have k: "tx_same ?S j (disk_of w) d" if "j \<noteq> i" for j
      using o [OF that] ok(3) by simp
    have "tx_inv V sha (AList.delete i (index w)) d"
      unfolding tx_inv_def
    proof (intro conjI allI impI)
      show "distinct (map fst (AList.delete i (index w)))"
        using assms(1) by (simp add: tx_inv_def distinct_delete)
      fix j
      show "tx_ok V sha d j t" if "map_of (AList.delete i (index w)) j = Some t" for t
        using that assms(1) tx_ok_same [OF k] by (auto simp: tx_inv_def split: if_splits)
      show "doc_text ?S d j Meta = None" if "map_of (AList.delete i (index w)) j = None"
        using that n assms(1) tx_same_views(2) [OF k] by (cases "j = i") (auto simp: tx_inv_def)
    qed
    then show ?thesis using ok by simp
  qed
qed

end
