(* ===== verification/Tx_Operations.thy ===== *)
theory Tx_Operations
  imports Tx_Invariant
begin

section \<open>The operations of the service keep the invariant\<close>

text \<open>
  For every operation of \<open>Tx_Service\<close>: the ways it can end (\<open>..._cases\<close>), with the transaction
  it found, the calls it made and the state it left, and that it keeps the invariant of
  \<open>Tx_Invariant\<close> whatever disk calls fail on the way.
\<close>

subsection \<open>The operations keep the invariant\<close>

text \<open>Only the index and the disk matter; locks, log and hooks do not.\<close>

lemma world_simps [simp]:
  "index (lock_for i w) = index w" "disk_of (lock_for i w) = disk_of w" "repo_find (lock_for i w) j = repo_find w j"
  "blog (lock_for i w) = blog w" "hooks (lock_for i w) = hooks w"
  "index (record_event e w) = index w" "disk_of (record_event e w) = disk_of w"
  "hooks (record_event e w) = hooks w" "blog (record_event e w) = blog w @ [e]"
  "index (run_hook V t w) = index w" "disk_of (run_hook V t w) = disk_of w" "blog (run_hook V t w) = blog w"
  by (simp_all add: lock_for_def record_event_def run_hook_def repo_find_def)

definition keeps :: "service \<Rightarrow> (byte list \<Rightarrow> sha256_digest) \<Rightarrow> world \<Rightarrow> world \<Rightarrow> bool" where
  "keeps V sha w w' \<longleftrightarrow>
     (tx_inv V sha (index w) (disk_of w) \<longrightarrow> tx_inv V sha (index w') (disk_of w')) \<and>
     tmp_kept (svc_store V) (disk_of w) (disk_of w')"

lemma keeps_same: "index w' = index w \<Longrightarrow> disk_of w' = disk_of w \<Longrightarrow> keeps V sha w w'"
  by (simp add: keeps_def)

lemma iso_range_between: "iso_range a \<Longrightarrow> iso_range c \<Longrightarrow> a \<le> b \<Longrightarrow> b \<le> c \<Longrightarrow> iso_range b"
  by (simp add: iso_range_def)

lemma clock_ok_expiry: "clock_ok created \<Longrightarrow> expires_at created n = Inr e \<Longrightarrow> iso_range e"
  unfolding clock_ok_def expires_at_Inr kMaxRetentionDays_def
  by (elim conjE, erule iso_range_between) auto

lemma valid_utf8_Nil [simp]: "valid_utf8 []"
  by simp

lemma wf_files_Nil [simp]: "wf_files []"
  by (simp add: wf_files_iff)

definition create_server :: "service \<Rightarrow> create_request \<Rightarrow> string" where
  "create_server V req =
     (if cr_target_server req = [] \<or> cr_target_server req = local_server (svc_options V) then []
      else cr_target_server req)"

definition create_days :: "service \<Rightarrow> create_request \<Rightarrow> int" where
  "create_days V req =
     (if cr_retention_days req = 0 then default_retention_days (svc_options V) else cr_retention_days req)"

definition create_ok :: "service \<Rightarrow> caller \<Rightarrow> create_request \<Rightarrow> bool" where
  "create_ok V c req \<longleftrightarrow>
     \<not> is_peer c \<and> cr_target_user req \<noteq> [] \<and> 0 \<le> cr_retention_days req \<and>
     cr_retention_days req \<le> max_retention_days (svc_options V) \<and>
     check_comment (cr_comment req) (max_comment_length (svc_options V)) = Inr () \<and>
     run_check (check_destination (svc_options V)) (cr_target_user req) (create_server V req) = Inr ()"

lemma svc_create_cases:
  assumes "svc_create V now uuid c req w = (r, w')"
  obtains (refused) e where "r = Inl e" "w' = w"
  | (failed) expiry e where "create_ok V c req" "expires_at now (create_days V req) = Inr expiry" "r = Inl e"
      "repo_insert (svc_store V) (svc_json V) (create_tx uuid c req (create_server V req) now expiry) w = (Inl e, w')"
  | (ok) t expiry w1 where "create_ok V c req" "expires_at now (create_days V req) = Inr expiry"
      "t = create_tx uuid c req (create_server V req) now expiry"
      "repo_insert (svc_store V) (svc_json V) t w = (Inr (), w1)" "r = Inr t"
      "w' = record_event (event_for TxCreated t c) w1"
proof (cases "create_ok V c req")
  case False
  then have "\<exists>e. r = Inl e \<and> w' = w"
    using assms unfolding create_ok_def svc_create_def Let_def create_server_def [symmetric]
    by (auto elim!: cfd_tryS_elim simp: fail_def create_server_def split: if_splits)
  then show ?thesis using refused by blast
next
  case True
  let ?e = "expires_at now (create_days V req)"
  show ?thesis
  proof (cases ?e)
    case (Inl e)
    then have "r = Inl e \<and> w' = w"
      using assms True by (auto simp: svc_create_def create_ok_def create_server_def create_days_def Let_def split: if_splits)
    then show ?thesis using refused by blast
  next
    case (Inr expiry)
    let ?t = "create_tx uuid c req (create_server V req) now expiry"
    obtain r1 w1 where i: "repo_insert (svc_store V) (svc_json V) ?t w = (r1, w1)" by fastforce
    have s: "svc_create V now uuid c req w =
        cfd_tryS (repo_insert (svc_store V) (svc_json V) ?t w) (\<lambda>_ w. (Inr ?t, record_event (event_for TxCreated ?t c) w))"
      using True Inr unfolding svc_create_def Let_def create_ok_def create_server_def create_days_def by simp
    show ?thesis
    proof (cases r1)
      case (Inl e)
      then show ?thesis using failed True Inr i s assms by simp
    next
      case r1: (Inr u)
      then show ?thesis using ok [OF True Inr refl, of w1] i s assms by simp
    qed
  qed
qed

lemma wf_create_tx:
  assumes "expires_at now (create_days V req) = Inr expiry" "valid_id uuid" "clock_ok now" "caller_name c \<noteq> []"
    "create_ok V c req" "list_all valid_utf8 [caller_name c, cr_target_user req, cr_target_server req, cr_comment req]"
  shows "wf_tx (create_tx uuid c req (create_server V req) now expiry)"
  using assms clock_ok_expiry [OF assms(3,1)]
  by (auto simp: wf_tx_def create_tx_def create_server_def create_ok_def clock_ok_def)

lemma keeps_insert:
  assumes "repo_insert (svc_store V) (svc_json V) t w = (r, w1)" "wf_tx t" "clock_ok (created_at t)" "state t = Open"
    "index w' = index w1" "disk_of w' = disk_of w1"
  shows "keeps V sha w w'"
  using tx_inv_insert [OF _ assms(2-4,1)] repo_tmp_kept(1) [OF assms(1)] assms(5,6) by (simp add: keeps_def)

lemma svc_create_keeps:
  assumes "svc_create V now uuid c req w = (r, w')"
    and "valid_id uuid" "clock_ok now" "caller_name c \<noteq> []"
    and "list_all valid_utf8 [caller_name c, cr_target_user req, cr_target_server req, cr_comment req]"
  shows "keeps V sha w w'"
  using assms(1)
proof (cases rule: svc_create_cases)
  case (failed expiry e)
  show ?thesis
    using wf_create_tx [OF failed(2) assms(2-4) failed(1) assms(5)] assms(3)
    by (intro keeps_insert [OF failed(4)]) (simp_all add: create_tx_def)
next
  case (ok t expiry w1)
  show ?thesis
    using wf_create_tx [OF ok(2) assms(2-4) ok(1) assms(5)] assms(3) ok(3,6)
    by (intro keeps_insert [OF ok(4)]) (simp_all add: create_tx_def)
qed (simp add: keeps_same)

definition receive_ok :: "service \<Rightarrow> caller \<Rightarrow> receive_request \<Rightarrow> bool" where
  "receive_ok V c req \<longleftrightarrow>
     is_peer c \<and> rr_sender req \<noteq> [] \<and> rr_target_user req \<noteq> [] \<and> rr_created_at req < rr_expires_at req \<and>
     check_comment (rr_comment req) (max_comment_length (svc_options V)) = Inr () \<and>
     run_check (check_destination (svc_options V)) (rr_target_user req) [] = Inr ()"

lemma svc_receive_cases:
  assumes "svc_receive V c req w = (r, w')"
  obtains (refused) e where "r = Inl e" "w' = w"
  | (failed) e where "receive_ok V c req" "r = Inl e"
      "repo_insert (svc_store V) (svc_json V) (receive_tx c req) (lock_for (rr_id req) w) = (Inl e, w')"
  | (ok) "receive_ok V c req" "r = Inr (receive_tx c req)"
      "repo_insert (svc_store V) (svc_json V) (receive_tx c req) (lock_for (rr_id req) w) = (Inr (), w')"
proof (cases "receive_ok V c req")
  case False
  then have "\<exists>e. r = Inl e \<and> w' = w"
    using assms unfolding receive_ok_def svc_receive_def Let_def
    by (auto elim!: cfd_tryS_elim simp: fail_def split: if_splits)
  then show ?thesis using refused by blast
next
  case True
  have s: "svc_receive V c req w =
      cfd_tryS (repo_insert (svc_store V) (svc_json V) (receive_tx c req) (lock_for (rr_id req) w)) (\<lambda>_ w. (Inr (receive_tx c req), w))"
    using True unfolding svc_receive_def Let_def receive_ok_def by simp
  obtain r1 w1 where "repo_insert (svc_store V) (svc_json V) (receive_tx c req) (lock_for (rr_id req) w) = (r1, w1)"
    by fastforce
  then show ?thesis using s assms True failed ok by (cases r1) auto
qed

lemma svc_receive_keeps:
  assumes "svc_receive V c req w = (r, w')"
    and "valid_id (rr_id req)" "clock_ok (rr_created_at req)" "iso_range (rr_expires_at req)"
    and "list_all valid_utf8 [caller_name c, rr_sender req, rr_target_user req, rr_comment req]"
  shows "keeps V sha w w'"
proof -
  have i: "keeps V sha w w'" if "receive_ok V c req"
    "repo_insert (svc_store V) (svc_json V) (receive_tx c req) (lock_for (rr_id req) w) = (r1, w')" for r1
  proof -
    have "wf_tx (receive_tx c req)"
      using that(1) assms(2-5) by (simp add: wf_tx_def receive_tx_def receive_ok_def clock_ok_def)
    then have "keeps V sha (lock_for (rr_id req) w) w'"
      by (intro keeps_insert [OF that(2)]) (simp_all add: receive_tx_def assms(3))
    then show ?thesis by (simp add: keeps_def)
  qed
  show ?thesis
    using assms(1) by (cases rule: svc_receive_cases) (auto simp: keeps_same i)
qed

text \<open>Calls that start with a lookup share their first part.\<close>

lemma tx_inv_find: "tx_inv V sha (index w) (disk_of w) \<Longrightarrow> repo_find w i = Some t \<Longrightarrow> tx_ok V sha (disk_of w) i t"
  by (simp add: tx_inv_def repo_find_def)

lemma keeps_save:
  assumes "repo_save (svc_store V) (svc_json V) t w1 = (r, w2)" "repo_find w i = Some t0"
    "index w1 = index w" "tx_id t = tx_id t0" "index w' = index w2" "disk_of w' = disk_of w2"
    "tmp_kept (svc_store V) (disk_of w) (disk_of w1)"
    "tx_inv V sha (index w) (disk_of w) \<Longrightarrow> tx_inv V sha (index w1) (disk_of w1) \<and> wf_tx t \<and>
      clock_ok (created_at t) \<and> (state t0 = Expired \<longrightarrow> state t = Expired) \<and>
      (published t \<longrightarrow> (\<forall>f \<in> set (files t). stored_as (svc_store V) sha (disk_of w1) i f) \<and>
        doc_text (svc_store V) (disk_of w1) i Manifest = Some (encode_manifest (svc_json V) t))"
  shows "keeps V sha w w'"
proof -
  have "tx_inv V sha (index w2) (disk_of w2)" if i: "tx_inv V sha (index w) (disk_of w)"
  proof -
    have e: "tx_id t = i" using tx_inv_find [OF i assms(2)] assms(4) by (simp add: tx_ok_def)
    have "repo_find w1 (tx_id t) = Some t0" using assms(2,3) e by (simp add: repo_find_def)
    from tx_inv_save [OF _ this _ _ _ _ assms(1)] assms(8) [OF i] show ?thesis by (auto simp: e)
  qed
  moreover have "tmp_kept (svc_store V) (disk_of w) (disk_of w2)"
    using tmp_kept_trans [OF assms(7) repo_tmp_kept(2) [OF assms(1)]] .
  ultimately show ?thesis using assms(5,6) by (simp add: keeps_def)
qed

lemma tx_ok_parts:
  assumes "tx_ok V sha d i t"
  shows "tx_id t = i" "wf_tx t" "clock_ok (created_at t)" "wf_files (files t)" "valid_id i"
  using assms by (simp_all add: tx_ok_def wf_tx_def) blast+

lemma wf_tx_files: "wf_tx t \<Longrightarrow> wf_files fs \<Longrightarrow> wf_tx (t\<lparr>files := fs\<rparr>)"
  by (simp add: wf_tx_def)

lemma wf_files_erase: "wf_files fs \<Longrightarrow> erase_file p fs = Some gs \<Longrightarrow> wf_files gs"
  using erase_file_Some [of p fs gs] by (auto simp: wf_files_iff list_all_iff)

lemma wf_files_upsert: "wf_files fs \<Longrightarrow> wf_entry e \<Longrightarrow> wf_files (upsert_file fs e)"
  by (auto simp: wf_files_iff sorted_upsert_file set_upsert_file list_all_iff)

lemma svc_remove_file_cases:
  assumes "svc_remove_file V c i p w = (r, w')"
  obtains (refused) e where "r = Inl e" "w' = lock_for i w"
  | (disk) t fs e d where "repo_find w i = Some t" "may_write c t" "state t = Open" "erase_file p (files t) = Some fs"
      "remove_file (svc_store V) i p (disk_of w) = (Inl e, d)" "r = Inl e" "w' = (lock_for i w)\<lparr>disk_of := d\<rparr>"
  | (save) t fs d r2 w2 where "repo_find w i = Some t" "may_write c t" "state t = Open" "erase_file p (files t) = Some fs"
      "remove_file (svc_store V) i p (disk_of w) = (Inr (), d)"
      "repo_save (svc_store V) (svc_json V) (t\<lparr>files := fs\<rparr>) ((lock_for i w)\<lparr>disk_of := d\<rparr>) = (r2, w2)"
      "r = r2"
      "w' = (if is_ok r2 then record_event ((event_for FileRemoved (t\<lparr>files := fs\<rparr>) c)\<lparr>ev_file := Some p\<rparr>) w2 else w2)"
proof -
  consider "repo_find w i = None" | t where "repo_find w i = Some t" "\<not> (may_write c t \<and> state t = Open)"
    | t where "repo_find w i = Some t" "may_write c t" "state t = Open" "erase_file p (files t) = None"
    | t fs where "repo_find w i = Some t" "may_write c t" "state t = Open" "erase_file p (files t) = Some fs"
    by (cases "repo_find w i"; cases "erase_file p (files (the (repo_find w i)))") auto
  then show ?thesis
  proof cases
    case 1
    then show ?thesis using refused assms by (auto simp: svc_remove_file_def not_found_def fail_def)
  next
    case (2 t)
    then show ?thesis
      using refused assms
      by (cases "state t") (auto simp: svc_remove_file_def forbidden_def fail_def Let_def split: if_splits)
  next
    case (3 t)
    then show ?thesis using refused assms by (auto simp: svc_remove_file_def fail_def)
  next
    case (4 t fs)
    obtain r1 d where d: "remove_file (svc_store V) i p (disk_of w) = (r1, d)" by fastforce
    obtain r2 w2 where s: "repo_save (svc_store V) (svc_json V) (t\<lparr>files := fs\<rparr>) ((lock_for i w)\<lparr>disk_of := d\<rparr>) = (r2, w2)"
      by fastforce
    show ?thesis
    proof (cases r1)
      case (Inl e)
      then show ?thesis
        using 4 d assms by (intro disk [OF 4]) (auto simp: svc_remove_file_def on_disk_def)
    next
      case (Inr u)
      then show ?thesis
        using 4 d s assms
        by (intro save [OF 4, of d r2 w2]) (cases r2; auto simp: svc_remove_file_def on_disk_def)+
    qed
  qed
qed

lemma tx_ok_open:
  assumes "tx_ok V sha d i t" "state t = Open" "tx_dirs_kept (svc_store V) i d d'"
    "doc_text (svc_store V) d' i Meta = doc_text (svc_store V) d i Meta"
  shows "tx_ok V sha d' i t"
  using assms by (simp add: tx_ok_def tx_dirs_kept_def published_def)

text \<open>
  A change below the files directory of an open transaction, such as a file stored or removed.
\<close>

lemma tx_inv_payload:
  assumes "tx_inv V sha ix d" "map_of ix i = Some t" "state t = Open"
    and "\<And>j. tx_dirs_kept (svc_store V) j d d'"
    and "\<And>q. (\<nexists>p. q = under p (files_dir (svc_store V) i)) \<Longrightarrow> \<not> in_tmp (svc_store V) q \<Longrightarrow> file_bytes d' q = file_bytes d q"
  shows "tx_inv V sha ix d'"
proof (rule tx_inv_disk [OF assms(1), of i])
  let ?S = "svc_store V"
  show "tx_same ?S j d d'" if "j \<noteq> i" for j
  proof -
    have "file_bytes d' q = file_bytes d q" if "in_tx ?S j q" for q
    proof (rule assms(5))
      show "\<nexists>p. q = under p (files_dir ?S i)"
        using in_tx_unique [OF that, of i] in_tx_under [of ?S i] \<open>j \<noteq> i\<close> by auto
      show "\<not> in_tmp ?S q" using in_tx_not_tmp [OF that] .
    qed
    then show ?thesis using assms(4) by (simp add: tx_same_def)
  qed
  have "doc_text ?S d' i Meta = doc_text ?S d i Meta"
    unfolding doc_text_def using assms(5) [of "doc_path ?S i Meta"] under_neq_doc_path by (metis doc_path_not_tmp)
  then show "tx_ok V sha d i t' \<Longrightarrow> tx_ok V sha d' i t'" if "map_of ix i = Some t'" for t'
    using tx_ok_open assms(2-4) that by simp
qed (use assms(2) in simp)

lemma under_neq_tmp [simp]: "tmp_dir S @ [n] \<noteq> under p (files_dir S i)" "under p (files_dir S i) \<noteq> tmp_dir S @ [n]"
  using under_not_tmp [of S p i] in_tmp_name [of S n] by metis+

lemma svc_remove_file_keeps:
  assumes "svc_remove_file V c i p w = (r, w')"
  shows "keeps V sha w w'"
  using assms
proof (cases rule: svc_remove_file_cases)
  case refused
  then show ?thesis by (simp add: keeps_same)
next
  let ?S = "svc_store V"
  have tmp: "tmp_kept ?S d d'" if "remove_file ?S i p d = (r1, d')" for r1 d d'
    using remove_file_effect(1,3) [OF that] by (simp add: tmp_kept_def)
  have inv: "tx_inv V sha (index w) d'" if "remove_file ?S i p (disk_of w) = (r1, d')"
    "tx_inv V sha (index w) (disk_of w)" "repo_find w i = Some t" "state t = Open" for r1 d' t
    by (rule tx_inv_payload [OF that(2) that(3) [unfolded repo_find_def] that(4)])
      (use remove_file_effect(2,3) [OF that(1)] in auto)
  {
    case (disk t fs e d)
    then show ?thesis using tmp inv by (simp add: keeps_def)
  next
    case (save t fs d r2 w2)
    show ?thesis
    proof (rule keeps_save [OF save(6), of w i t])
      show "tmp_kept ?S (disk_of w) (disk_of ((lock_for i w)\<lparr>disk_of := d\<rparr>))"
        using tmp [OF save(5)] by simp
      assume "tx_inv V sha (index w) (disk_of w)"
      from inv [OF save(5) this save(1,3)] tx_ok_parts [OF tx_inv_find [OF this save(1)]] save(3,4)
      show "tx_inv V sha (index ((lock_for i w)\<lparr>disk_of := d\<rparr>)) (disk_of ((lock_for i w)\<lparr>disk_of := d\<rparr>)) \<and>
          wf_tx (t\<lparr>files := fs\<rparr>) \<and> clock_ok (created_at (t\<lparr>files := fs\<rparr>)) \<and>
          (state t = Expired \<longrightarrow> state (t\<lparr>files := fs\<rparr>) = Expired) \<and>
          (published (t\<lparr>files := fs\<rparr>) \<longrightarrow> (\<forall>f \<in> set (files (t\<lparr>files := fs\<rparr>)).
             stored_as ?S sha (disk_of ((lock_for i w)\<lparr>disk_of := d\<rparr>)) i f) \<and>
             doc_text ?S (disk_of ((lock_for i w)\<lparr>disk_of := d\<rparr>)) i Manifest =
               Some (encode_manifest (svc_json V) (t\<lparr>files := fs\<rparr>)))"
        by (simp add: wf_tx_files wf_files_erase published_def)
    qed (use save in \<open>simp_all split: if_splits\<close>)
  }
qed

subsection \<open>Commit\<close>

lemma verify_files_effect:
  assumes "verify_files V i fs w = (r, w')" "evp_sound (evp_of (svc_store V)) sha"
  shows "index w' = index w \<and> blog w' = blog w \<and> hooks w' = hooks w \<and> locks w' = locks w \<and>
    same_disk (disk_of w) (disk_of w') \<and> (r = Inr () \<longrightarrow> (\<forall>f \<in> set fs. stored_as (svc_store V) sha (disk_of w) i f))"
  using assms(1)
proof (induction fs arbitrary: w)
  case (Cons f fs)
  let ?S = "svc_store V"
  obtain x d where h: "hash_file ?S i (fe_path f) (disk_of w) = (x, d)" by fastforce
  note he = hash_file_effect [OF h]
  show ?case
  proof (cases x)
    case (Inl e)
    then show ?thesis using Cons.prems h he(1) by (auto simp: on_disk_def)
  next
    case (Inr sf)
    obtain bs cs where b: "payload ?S (disk_of w) i (fe_path f) = Some bs" "concat cs = bs"
      "evp_digest_final (evp_of ?S) cs = Some (sf_sha256 sf)" "sf_size sf = length bs"
      using he(2) [OF Inr] by blast
    have dg: "sf_sha256 sf = sha bs" using b assms(2) by (auto simp: evp_sound_def)
    show ?thesis
    proof (cases "sf_size sf \<noteq> fe_size f \<or> sf_sha256 sf \<noteq> fe_sha256 f")
      case True
      then show ?thesis using Cons.prems h Inr he(1) by (auto simp: on_disk_def)
    next
      case False
      then have "verify_files V i fs (w\<lparr>disk_of := d\<rparr>) = (r, w')"
        using Cons.prems h Inr by (simp add: on_disk_def)
      note ih = Cons.IH [OF this]
      have f: "stored_as ?S sha (disk_of w) i f"
        using False b dg by (auto simp: stored_as_def)
      have p: "payload ?S d = payload ?S (disk_of w)" using same_disk_views(2) [OF he(1)] .
      show ?thesis
        using ih f same_disk_trans [OF he(1)] by (auto simp: stored_as_def p)
    qed
  qed
qed simp

definition commit_tx :: "timestamp \<Rightarrow> transaction \<Rightarrow> transaction" where
  "commit_tx now t = t\<lparr>state := Committed, committed_at := Some now\<rparr>"

lemma svc_commit_cases:
  assumes "svc_commit V now c i w = (r, w')"
  obtains (refused) e where "r = Inl e" "w' = lock_for i w"
  | (verify) t e where "repo_find w i = Some t" "may_write c t" "state t = Open" "r = Inl e"
      "verify_files V i (files t) (lock_for i w) = (Inl e, w')"
  | (manifest) t w1 e where "repo_find w i = Some t" "may_write c t" "state t = Open" "r = Inl e"
      "verify_files V i (files t) (lock_for i w) = (Inr (), w1)"
      "repo_save_manifest (svc_store V) (svc_json V) (commit_tx now t) w1 = (Inl e, w')"
  | (save) t w1 w2 e where "repo_find w i = Some t" "may_write c t" "state t = Open" "r = Inl e"
      "verify_files V i (files t) (lock_for i w) = (Inr (), w1)"
      "repo_save_manifest (svc_store V) (svc_json V) (commit_tx now t) w1 = (Inr (), w2)"
      "repo_save (svc_store V) (svc_json V) (commit_tx now t) w2 = (Inl e, w')"
  | (ok) t w1 w2 w3 where "repo_find w i = Some t" "may_write c t" "state t = Open" "r = Inr (commit_tx now t)"
      "verify_files V i (files t) (lock_for i w) = (Inr (), w1)"
      "repo_save_manifest (svc_store V) (svc_json V) (commit_tx now t) w1 = (Inr (), w2)"
      "repo_save (svc_store V) (svc_json V) (commit_tx now t) w2 = (Inr (), w3)"
      "w' = run_hook V (commit_tx now t) (record_event (file_event
         (if is_origin_peer c (commit_tx now t) then Received else EvCommitted) (commit_tx now t) c) w3)"
proof (cases "\<exists>t. repo_find w i = Some t \<and> may_write c t \<and> state t = Open")
  case False
  then have "\<exists>e. r = Inl e \<and> w' = lock_for i w"
  proof (cases "repo_find w i")
    case None
    then show ?thesis using assms by (auto simp: svc_commit_def not_found_def fail_def)
  next
    case (Some t)
    then show ?thesis
      using False assms by (cases "state t") (auto simp: svc_commit_def forbidden_def fail_def Let_def
          check_transition_def split: if_splits)
  qed
  then show ?thesis using refused by blast
next
  case True
  then obtain t where t: "repo_find w i = Some t" "may_write c t" "state t = Open" by blast
  let ?t = "commit_tx now t"
  have s: "svc_commit V now c i w =
      cfd_tryS (verify_files V i (files t) (lock_for i w)) (\<lambda>_ w.
      cfd_tryS (repo_save_manifest (svc_store V) (svc_json V) ?t w) (\<lambda>_ w.
      cfd_tryS (repo_save (svc_store V) (svc_json V) ?t w) (\<lambda>_ w.
        (Inr ?t, run_hook V ?t (record_event (file_event (if is_origin_peer c ?t then Received else EvCommitted) ?t c) w)))))"
    using t by (simp add: svc_commit_def commit_tx_def check_transition_def Let_def)
  obtain r1 w1 where v: "verify_files V i (files t) (lock_for i w) = (r1, w1)" by fastforce
  obtain r2 w2 where m: "repo_save_manifest (svc_store V) (svc_json V) ?t w1 = (r2, w2)" by fastforce
  obtain r3 w3 where sv: "repo_save (svc_store V) (svc_json V) ?t w2 = (r3, w3)" by fastforce
  note all = assms [unfolded s] v m sv
  show ?thesis
  proof (cases r1)
    case (Inl e)
    with all show ?thesis by (intro verify [OF t, of e]) auto
  next
    case r1: (Inr u1)
    show ?thesis
    proof (cases r2)
      case (Inl e)
      with all r1 show ?thesis by (intro manifest [OF t, of e w1]) auto
    next
      case r2: (Inr u2)
      show ?thesis
      proof (cases r3)
        case (Inl e)
        with all r1 r2 show ?thesis by (intro save [OF t, of e w1 w2]) auto
      next
        case (Inr u3)
        with all r1 r2 show ?thesis by (intro ok [OF t, of w1 w2 w3]) auto
      qed
    qed
  qed
qed

lemma wf_commit_tx: "wf_tx t \<Longrightarrow> iso_range now \<Longrightarrow> wf_tx (commit_tx now t)"
  by (simp add: wf_tx_def commit_tx_def)

lemma commit_tx_simps [simp]:
  "tx_id (commit_tx now t) = tx_id t" "files (commit_tx now t) = files t" "state (commit_tx now t) = Committed"
  "created_at (commit_tx now t) = created_at t" "origin_server (commit_tx now t) = origin_server t"
  "sender (commit_tx now t) = sender t" "target_user (commit_tx now t) = target_user t"
  "target_server (commit_tx now t) = target_server t"
  by (simp_all add: commit_tx_def)

lemma svc_commit_keeps:
  assumes "svc_commit V now c i w = (r, w')" "evp_sound (evp_of (svc_store V)) sha" "iso_range now"
  shows "keeps V sha w w'"
proof -
  let ?S = "svc_store V" and ?J = "svc_json V"
  have vf: "keeps V sha w w1 \<and> index w1 = index w"
    if "verify_files V i (files t) (lock_for i w) = (r1, w1)" for t r1 w1
    using verify_files_effect [OF that assms(2)] tx_inv_same tmp_kept_same by (auto simp: keeps_def)
  have mf: "keeps V sha w w2 \<and> index w2 = index w"
    if "repo_find w i = Some t" "state t = Open" "verify_files V i (files t) (lock_for i w) = (Inr (), w1)"
      "repo_save_manifest ?S ?J (commit_tx now t) w1 = (r2, w2)" for t w1 r2 w2
  proof -
    note v = vf [OF that(3)]
    have "tx_inv V sha (index w2) (disk_of w2)" if i: "tx_inv V sha (index w) (disk_of w)"
    proof (rule tx_inv_save_manifest [OF _ _ \<open>state t = Open\<close> \<open>repo_save_manifest ?S ?J _ w1 = _\<close>])
      show "tx_inv V sha (index w1) (disk_of w1)" using v i unfolding keeps_def by blast
      show "repo_find w1 (tx_id (commit_tx now t)) = Some t"
        using v tx_ok_parts(1) [OF tx_inv_find [OF i]] \<open>repo_find w i = Some t\<close> by (simp add: repo_find_def)
    qed
    moreover have "tmp_kept ?S (disk_of w) (disk_of w2)"
      using v repo_tmp_kept(3) [OF that(4)] tmp_kept_trans by (auto simp: keeps_def)
    ultimately show ?thesis using v repo_save_manifest_tx(6) [OF that(4)] by (simp add: keeps_def)
  qed
  have sv: "keeps V sha w w''"
    if t: "repo_find w i = Some t" "state t = Open" and v: "verify_files V i (files t) (lock_for i w) = (Inr (), w1)"
      and m: "repo_save_manifest ?S ?J (commit_tx now t) w1 = (Inr (), w2)"
      and s: "repo_save ?S ?J (commit_tx now t) w2 = (r3, w3)"
      and e: "index w'' = index w3" "disk_of w'' = disk_of w3" for t w1 w2 r3 w3 w''
  proof (rule keeps_save [OF s t(1)])
    note mk = mf [OF t v m]
    show "index w2 = index w" using mk by blast
    show "tmp_kept ?S (disk_of w) (disk_of w2)" using mk by (simp add: keeps_def)
    assume inv: "tx_inv V sha (index w) (disk_of w)"
    note ok = tx_ok_parts [OF tx_inv_find [OF inv t(1)]]
    note ve = verify_files_effect [OF v assms(2)]
    have "stored_as ?S sha (disk_of w2) i f" if "f \<in> set (files t)" for f
      using ve that stored_as_payload [OF repo_save_manifest_tx(3) [OF m]]
        stored_as_payload [of ?S "disk_of w1" i "disk_of w"] same_disk_views(2) [of "disk_of w" "disk_of w1" ?S]
      by (simp add: ok(1))
    moreover have "doc_text ?S (disk_of w2) i Manifest = Some (encode_manifest ?J (commit_tx now t))"
      using repo_save_manifest_tx(5) [OF m] ok(1) by simp
    moreover have "tx_inv V sha (index w2) (disk_of w2)" using mk inv unfolding keeps_def by blast
    ultimately show "tx_inv V sha (index w2) (disk_of w2) \<and> wf_tx (commit_tx now t) \<and>
        clock_ok (created_at (commit_tx now t)) \<and> (state t = Expired \<longrightarrow> state (commit_tx now t) = Expired) \<and>
        (published (commit_tx now t) \<longrightarrow> (\<forall>f \<in> set (files (commit_tx now t)). stored_as ?S sha (disk_of w2) i f) \<and>
          doc_text ?S (disk_of w2) i Manifest = Some (encode_manifest ?J (commit_tx now t)))"
      using ok wf_commit_tx assms(3) t(2) by simp
  qed (use e in simp_all)
  show ?thesis
    using assms(1)
  proof (cases rule: svc_commit_cases)
    case (save t w1 w2 e)
    show ?thesis using sv [OF save(1,3,5,6,7)] by simp
  next
    case (ok t w1 w2 w3)
    show ?thesis using sv [OF ok(1,3,5,6,7)] ok(8) by simp
  next
    case (verify t e)
    show ?thesis using vf [OF verify(5)] by blast
  next
    case (manifest t w1 e)
    show ?thesis using mf [OF manifest(1,3,5,6)] by blast
  next
    case refused
    then show ?thesis by (simp add: keeps_same)
  qed
qed

subsection \<open>Delivery, deletion and retention\<close>

lemma encode_manifest_cong: "tx_id t = tx_id t' \<Longrightarrow> files t = files t' \<Longrightarrow> encode_manifest J t = encode_manifest J t'"
  by (simp add: encode_manifest_def manifest_object_def)

text \<open>Operations that save a transaction with the same files and nothing before it.\<close>

lemma keeps_resave:
  assumes "repo_save (svc_store V) (svc_json V) t' (lock_for i w) = (r, w1)" "repo_find w i = Some t"
    "index w' = index w1" "disk_of w' = disk_of w1"
    "tx_id t' = tx_id t" "files t' = files t" "created_at t' = created_at t"
    "wf_tx t \<Longrightarrow> clock_ok (created_at t) \<Longrightarrow> wf_tx t'"
    "state t = Expired \<Longrightarrow> state t' = Expired" "published t' \<Longrightarrow> published t"
  shows "keeps V sha w w'"
proof (rule keeps_save [OF assms(1,2)])
  assume inv: "tx_inv V sha (index w) (disk_of w)"
  have t: "tx_ok V sha (disk_of w) i t" by (rule tx_inv_find [OF inv assms(2)])
  have p: "(\<forall>f \<in> set (files t). stored_as (svc_store V) sha (disk_of w) i f) \<and>
      doc_text (svc_store V) (disk_of w) i Manifest = Some (encode_manifest (svc_json V) t)" if "published t'"
    using t assms(10) [OF that] by (simp add: tx_ok_def)
  show "tx_inv V sha (index (lock_for i w)) (disk_of (lock_for i w)) \<and> wf_tx t' \<and> clock_ok (created_at t') \<and>
      (state t = Expired \<longrightarrow> state t' = Expired) \<and>
      (published t' \<longrightarrow> (\<forall>f \<in> set (files t'). stored_as (svc_store V) sha (disk_of (lock_for i w)) i f) \<and>
        doc_text (svc_store V) (disk_of (lock_for i w)) i Manifest = Some (encode_manifest (svc_json V) t'))"
    unfolding world_simps assms(6,7) encode_manifest_cong [OF assms(5,6)]
    using inv tx_ok_parts(3) [OF t] assms(8) [OF tx_ok_parts(2,3) [OF t]] assms(9) p by blast
qed (simp_all add: assms(3-5))

definition deliver_tx :: "timestamp \<Rightarrow> transaction \<Rightarrow> transaction" where
  "deliver_tx now t = t\<lparr>state := Delivered, delivered_at := Some now\<rparr>"

lemma svc_mark_delivered_cases:
  assumes "svc_mark_delivered V now i w = (r, w')"
  obtains (refused) e where "r = Inl e" "w' = lock_for i w"
  | (save) t w1 where "repo_find w i = Some t" "state t = Committed"
      "repo_save (svc_store V) (svc_json V) (deliver_tx now t) (lock_for i w) = (r, w1)"
      "w' = (if is_ok r then record_event (file_event Forwarded (deliver_tx now t) system_caller) w1 else w1)"
proof (cases "\<exists>t. repo_find w i = Some t \<and> state t = Committed")
  case False
  then have "\<exists>e. r = Inl e \<and> w' = lock_for i w"
  proof (cases "repo_find w i")
    case (Some t)
    then show ?thesis
      using False assms by (cases "state t") (auto simp: svc_mark_delivered_def check_transition_def fail_def Let_def)
  qed (use assms in \<open>auto simp: svc_mark_delivered_def not_found_def fail_def\<close>)
  then show ?thesis using refused by blast
next
  case True
  then obtain t where t: "repo_find w i = Some t" "state t = Committed" by blast
  obtain r1 w1 where s: "repo_save (svc_store V) (svc_json V) (deliver_tx now t) (lock_for i w) = (r1, w1)" by fastforce
  have "svc_mark_delivered V now i w = cfd_tryS (r1, w1)
      (\<lambda>_ w. (Inr (), record_event (file_event Forwarded (deliver_tx now t) system_caller) w))"
    using t s by (simp add: svc_mark_delivered_def deliver_tx_def check_transition_def Let_def)
  with assms s show ?thesis by (intro save [OF t, of w1]) (cases r1; auto)+
qed

lemma svc_mark_delivered_keeps:
  assumes "svc_mark_delivered V now i w = (r, w')" "iso_range now"
  shows "keeps V sha w w'"
  using assms(1)
proof (cases rule: svc_mark_delivered_cases)
  case (save t w1)
  show ?thesis
    by (rule keeps_resave [OF save(3,1)])
      (use save(2,4) assms(2) in \<open>auto simp: deliver_tx_def wf_tx_def published_def\<close>)
qed (simp add: keeps_same)

definition expire_tx :: "transaction \<Rightarrow> transaction" where
  "expire_tx t = t\<lparr>state := Expired\<rparr>"

lemma svc_destroy_cases:
  assumes "svc_destroy V i ty actor w = (r, w')"
  obtains (refused) e where "r = Inl e" "w' = lock_for i w" "repo_find w i = None"
  | (save) t e where "repo_find w i = Some t" "state t \<noteq> Expired" "r = Inl e"
      "repo_save (svc_store V) (svc_json V) (expire_tx t) (lock_for i w) = (Inl e, w')"
  | (remove) t w1 w2 where "repo_find w i = Some t"
      "if state t = Expired then w1 = lock_for i w
       else repo_save (svc_store V) (svc_json V) (expire_tx t) (lock_for i w) = (Inr (), w1)"
      "repo_remove (svc_store V) i w1 = (r, w2)"
      "w' = (if is_ok r then (record_event (event_for ty (expire_tx t) actor) w2)
               \<lparr>locks := removeAll i (locks w2)\<rparr> else w2)"
proof (cases "repo_find w i")
  case None
  then show ?thesis using refused assms by (auto simp: svc_destroy_def not_found_def fail_def)
next
  case (Some t)
  let ?w = "lock_for i w"
  have rm: "cfd_tryS (repo_remove (svc_store V) i w1) (\<lambda>_ w. let w = record_event (event_for ty t' actor) w
        in (Inr (), w\<lparr>locks := removeAll i (locks w)\<rparr>)) = (r, w') \<Longrightarrow>
      \<exists>w2. repo_remove (svc_store V) i w1 = (r, w2) \<and>
        w' = (if is_ok r then (record_event (event_for ty t' actor) w2)\<lparr>locks := removeAll i (locks w2)\<rparr> else w2)"
    for w1 t'
    by (elim cfd_tryS_elim) (auto simp: Let_def record_event_def)
  show ?thesis
  proof (cases "state t = Expired")
    case True
    then have e: "expire_tx t = t" by (simp add: expire_tx_def)
    have "cfd_tryS (repo_remove (svc_store V) i ?w) (\<lambda>_ w. let w = record_event (event_for ty t actor) w
        in (Inr (), w\<lparr>locks := removeAll i (locks w)\<rparr>)) = (r, w')"
      using assms Some True by (simp add: svc_destroy_def Let_def)
    from rm [OF this] True Some e show ?thesis by (auto intro: remove [OF Some, of ?w])
  next
    case False
    then have tr: "check_transition (state t) Expired = Inr ()" by (cases "state t") (auto simp: check_transition_def)
    obtain r1 w1 where s: "repo_save (svc_store V) (svc_json V) (expire_tx t) ?w = (r1, w1)" by fastforce
    show ?thesis
    proof (cases r1)
      case (Inl e)
      then show ?thesis
        using assms Some False s tr by (intro save [OF Some False, of e]) (auto simp: svc_destroy_def expire_tx_def Let_def)
    next
      case (Inr u)
      have "cfd_tryS (repo_remove (svc_store V) i w1) (\<lambda>_ w. let w = record_event (event_for ty (expire_tx t) actor) w
          in (Inr (), w\<lparr>locks := removeAll i (locks w)\<rparr>)) = (r, w')"
        using assms Some False s tr Inr by (simp add: svc_destroy_def expire_tx_def Let_def)
      from rm [OF this] False s Inr show ?thesis by (auto intro: remove [OF Some, of w1])
    qed
  qed
qed

lemma expire_tx_simps [simp]:
  "tx_id (expire_tx t) = tx_id t" "state (expire_tx t) = Expired" "created_at (expire_tx t) = created_at t"
  "wf_tx (expire_tx t) = wf_tx t" "published (expire_tx t) = False"
  by (simp_all add: expire_tx_def wf_tx_def published_def)

lemma svc_destroy_keeps:
  assumes "svc_destroy V i ty actor w = (r, w')"
  shows "keeps V sha w w'"
proof -
  have sv: "keeps V sha w w1"
    if "repo_find w i = Some t" "repo_save (svc_store V) (svc_json V) (expire_tx t) (lock_for i w) = (r1, w1)" for t r1 w1
    by (rule keeps_resave [OF that(2,1)]) (auto simp: expire_tx_def wf_tx_def published_def)
  show ?thesis
    using assms
  proof (cases rule: svc_destroy_cases)
    case (save t e)
    show ?thesis by (rule sv [OF save(1,4)])
  next
    case (remove t w1 w2)
    have k: "keeps V sha w w1"
      using remove(2) sv [OF remove(1)] by (auto simp: keeps_same split: if_splits)
    have "tx_inv V sha (index w2) (disk_of w2)" if i: "tx_inv V sha (index w) (disk_of w)"
    proof -
      have id: "tx_id t = i" by (rule tx_ok_parts(1) [OF tx_inv_find [OF i remove(1)]])
      have "\<exists>t1. repo_find w1 i = Some t1 \<and> state t1 = Expired"
      proof (cases "state t = Expired")
        case True
        then show ?thesis using remove(1,2) by simp
      next
        case False
        then have "repo_find w1 = (repo_find (lock_for i w))(tx_id (expire_tx t) \<mapsto> expire_tx t)"
          using remove(2) txs.sav_ok by fastforce
        then show ?thesis by (simp add: id)
      qed
      then obtain t1 where "repo_find w1 i = Some t1" "state t1 = Expired" by blast
      from tx_inv_remove [OF _ this remove(3)] k i show ?thesis by (simp add: keeps_def)
    qed
    moreover have "tmp_kept (svc_store V) (disk_of w) (disk_of w2)"
      using k repo_tmp_kept(4) [OF remove(3)] tmp_kept_trans by (auto simp: keeps_def)
    ultimately show ?thesis using remove(4) by (simp add: keeps_def)
  qed (simp add: keeps_same)
qed

lemma svc_set_retention_cases:
  assumes "svc_set_retention V c i days w = (r, w')"
  obtains (refused) e where "r = Inl e" "w' = w \<or> w' = lock_for i w"
  | (save) t expiry r1 w1 where "is_admin c" "1 \<le> days" "days \<le> max_retention_days (svc_options V)"
      "repo_find w i = Some t" "state t \<noteq> Expired" "expires_at (created_at t) days = Inr expiry"
      "repo_save (svc_store V) (svc_json V) (t\<lparr>expires := expiry\<rparr>) (lock_for i w) = (r1, w1)"
      "r = (case r1 of Inl e \<Rightarrow> Inl e | Inr _ \<Rightarrow> Inr (t\<lparr>expires := expiry\<rparr>))"
      "w' = (if is_ok r1 then record_event ((event_for RetentionChanged (t\<lparr>expires := expiry\<rparr>) c)
         \<lparr>ev_retention_days := Some days\<rparr>) w1 else w1)"
proof (cases "\<exists>t expiry. is_admin c \<and> 1 \<le> days \<and> days \<le> max_retention_days (svc_options V) \<and>
    repo_find w i = Some t \<and> state t \<noteq> Expired \<and> expires_at (created_at t) days = Inr expiry")
  case False
  then have "\<exists>e. r = Inl e \<and> (w' = w \<or> w' = lock_for i w)"
    using assms
    by (auto simp: svc_set_retention_def Let_def forbidden_def not_found_def fail_def not_less
        split: if_splits option.splits elim!: cfd_tryS_elim)
  then show ?thesis using refused by blast
next
  case True
  then obtain t expiry where t: "is_admin c" "1 \<le> days" "days \<le> max_retention_days (svc_options V)"
    "repo_find w i = Some t" "state t \<noteq> Expired" "expires_at (created_at t) days = Inr expiry" by blast
  obtain r1 w1 where s: "repo_save (svc_store V) (svc_json V) (t\<lparr>expires := expiry\<rparr>) (lock_for i w) = (r1, w1)" by fastforce
  have "svc_set_retention V c i days w = cfd_tryS (r1, w1) (\<lambda>_ w. (Inr (t\<lparr>expires := expiry\<rparr>),
      record_event ((event_for RetentionChanged (t\<lparr>expires := expiry\<rparr>) c)\<lparr>ev_retention_days := Some days\<rparr>) w))"
    using t s by (simp add: svc_set_retention_def Let_def)
  with assms s show ?thesis by (intro save [OF t, of r1 w1]) (cases r1; auto)+
qed

lemma svc_set_retention_keeps:
  assumes "svc_set_retention V c i days w = (r, w')"
  shows "keeps V sha w w'"
  using assms
proof (cases rule: svc_set_retention_cases)
  case (save t expiry r1 w1)
  show ?thesis
    by (rule keeps_resave [OF save(7,4)])
      (use save(9) clock_ok_expiry [OF _ save(6)] in \<open>auto simp: wf_tx_def published_def\<close>)
qed (auto simp: keeps_same)

subsection \<open>Uploads in progress\<close>

definition tmp_kept_but :: "store \<Rightarrow> fs_path \<Rightarrow> disk \<Rightarrow> disk \<Rightarrow> bool" where
  "tmp_kept_but S q0 d d' \<longleftrightarrow>
     tmp_counter d \<le> tmp_counter d' \<and>
     (\<forall>i n. n < tmp_counter d \<longrightarrow> tmp_dir S @ [tmp_name i n] \<noteq> q0 \<longrightarrow>
        file_bytes d' (tmp_dir S @ [tmp_name i n]) = file_bytes d (tmp_dir S @ [tmp_name i n]))"

lemma tmp_kept_but_trans: "tmp_kept_but S q d d' \<Longrightarrow> tmp_kept S d' d'' \<Longrightarrow> tmp_kept_but S q d d''"
  by (auto simp: tmp_kept_but_def tmp_kept_def)

lemma pend_ok_kept_but: "pend_ok S d pu \<Longrightarrow> tmp_kept_but S q d d' \<Longrightarrow> pend_tmp pu \<noteq> q \<Longrightarrow> pend_ok S d' pu"
  by (auto simp: pend_ok_def tmp_kept_but_def up_holds_def Let_def) (metis order_less_le_trans)+

lemma pend_inv_change:
  assumes "pend_inv S d (ps1 @ pu # ps2)" "tmp_kept_but S (pend_tmp pu) d d'"
  shows "pend_inv S d' (ps1 @ ps2)"
    "pend_ok S d' pu' \<Longrightarrow> pend_tmp pu' = pend_tmp pu \<Longrightarrow> pend_inv S d' (ps1 @ pu' # ps2)"
proof -
  have "pend_ok S d' p" if "p \<in> set ps1 \<union> set ps2" for p
  proof (rule pend_ok_kept_but [OF _ assms(2)])
    show "pend_ok S d p" using assms(1) that by (auto simp: pend_inv_def)
    show "pend_tmp p \<noteq> pend_tmp pu" using assms(1) that by (auto simp: pend_inv_def image_iff)
  qed
  then show "pend_inv S d' (ps1 @ ps2)"
    "pend_ok S d' pu' \<Longrightarrow> pend_tmp pu' = pend_tmp pu \<Longrightarrow> pend_inv S d' (ps1 @ pu' # ps2)"
    using assms(1) by (auto simp: pend_inv_def)
qed

lemma pend_ok_tmp: "pend_ok S d pu \<Longrightarrow> in_tmp S (pend_tmp pu)"
  by (auto simp: pend_ok_def Let_def)

lemma tx_inv_all_same: "tx_inv V sha ix d \<Longrightarrow> (\<And>j. tx_same (svc_store V) j d d') \<Longrightarrow> tx_inv V sha ix d'"
  using tx_ok_same tx_same_views(2) unfolding tx_inv_def by metis

lemma agree_tmp:
  assumes "agree (\<lambda>q. q = q0) d d'" "in_tmp S q0" "tmp_counter d \<le> tmp_counter d'" "dirs_kept d d'"
  shows "tx_same S j d d'" "tmp_kept_but S q0 d d'"
proof -
  have f: "file_bytes d' q = file_bytes d q" if "q \<noteq> q0" for q
    using agree_file [OF assms(1)] that by simp
  then show "tmp_kept_but S q0 d d'" using assms(3) by (simp add: tmp_kept_but_def)
  have "q \<noteq> q0" if "in_tx S j q" for q using that assms(2) in_tx_not_tmp by blast
  with f show "tx_same S j d d'" using tx_dirs_keptI [OF assms(4)] by (simp add: tx_same_def)
qed

lemma svc_begin_upload_cases:
  assumes "svc_begin_upload V c i p w = (r, w')"
  obtains (refused) e where "r = Inl e" "w' = lock_for i w"
  | (started) t x d where "repo_find w i = Some t" "may_write c t" "state t = Open"
      "begin_upload (svc_store V) i p (disk_of w) = (x, d)" "w' = (lock_for i w)\<lparr>disk_of := d\<rparr>"
      "r = (case x of Inl e \<Rightarrow> Inl e | Inr u \<Rightarrow> Inr \<lparr>pu_id = i, pu_caller = c, pu_upload = u\<rparr>)"
proof (cases "\<exists>t. repo_find w i = Some t \<and> may_write c t \<and> state t = Open")
  case False
  then have "\<exists>e. r = Inl e \<and> w' = lock_for i w"
  proof (cases "repo_find w i")
    case (Some t)
    then show ?thesis
      using False assms
      by (cases "state t") (auto simp: svc_begin_upload_def forbidden_def fail_def Let_def split: if_splits)
  qed (use assms in \<open>auto simp: svc_begin_upload_def not_found_def fail_def\<close>)
  then show ?thesis using refused by blast
next
  case True
  then obtain t where t: "repo_find w i = Some t" "may_write c t" "state t = Open" by blast
  obtain x d where b: "begin_upload (svc_store V) i p (disk_of w) = (x, d)" by fastforce
  have "svc_begin_upload V c i p w = cfd_tryS (x, (lock_for i w)\<lparr>disk_of := d\<rparr>)
      (\<lambda>u w. (Inr \<lparr>pu_id = i, pu_caller = c, pu_upload = u\<rparr>, w))"
    using t b by (simp add: svc_begin_upload_def on_disk_def Let_def)
  with assms b show ?thesis by (intro started [OF t b]) (cases x; auto)+
qed

lemma svc_begin_upload_keeps:
  assumes "svc_begin_upload V c i p w = (r, w')" "valid_path p" "valid_utf8 p"
  shows "keeps V sha w w'"
    "pend_inv (svc_store V) (disk_of w) ps \<Longrightarrow>
      pend_inv (svc_store V) (disk_of w') (case r of Inl _ \<Rightarrow> ps | Inr pu \<Rightarrow> pu # ps)"
proof -
  let ?S = "svc_store V"
  have "keeps V sha w w' \<and> (pend_inv ?S (disk_of w) ps \<longrightarrow>
      pend_inv ?S (disk_of w') (case r of Inl _ \<Rightarrow> ps | Inr pu \<Rightarrow> pu # ps))"
    using assms(1)
  proof (cases rule: svc_begin_upload_cases)
    case (refused e)
    then show ?thesis by (simp add: keeps_same)
  next
    case (started t x d)
    note b = started(4) [unfolded begin_upload_def]
    let ?tmp = "tmp_dir ?S @ [tmp_name i (tmp_counter (disk_of w))]"
    have a: "agree (\<lambda>q. q = ?tmp) (disk_of w) d" "tmp_counter (disk_of w) \<le> tmp_counter d"
      using begin_write_agree [OF b] by blast+
    note s = agree_tmp [OF a(1) in_tmp_name a(2) begin_write_dirs [OF b]]
    have new: "tmp_name j n \<noteq> tmp_name i (tmp_counter (disk_of w))" if "n < tmp_counter (disk_of w)" for j n
      using tmp_name_inject that by blast
    then have t: "tmp_kept ?S (disk_of w) d"
      using s(2) by (simp add: tmp_kept_but_def tmp_kept_def)
    have k: "keeps V sha w w'"
      using tx_inv_all_same s(1) t started(5) by (simp add: keeps_def)
    have "pend_inv ?S d (case r of Inl _ \<Rightarrow> ps | Inr pu \<Rightarrow> pu # ps)" if ps: "pend_inv ?S (disk_of w) ps"
    proof (cases x)
      case (Inl e)
      then show ?thesis using pend_inv_kept [OF ps t] started(6) by simp
    next
      case (Inr u)
      let ?pu = "\<lparr>pu_id = i, pu_caller = c, pu_upload = u\<rparr>"
      note o = begin_write_ok [OF b [unfolded Inr]]
      have "pend_ok ?S d ?pu"
        using o assms(2,3) by (auto simp: pend_ok_def Let_def)
      moreover have "pend_tmp pu \<noteq> ?tmp" if "pu \<in> set ps" for pu
        using ps that new by (auto simp: pend_inv_def pend_ok_def Let_def)
      then have "pend_tmp ?pu \<notin> pend_tmp ` set ps" using o(2) by (metis imageE pending_upload.select_convs(3))
      ultimately have "pend_inv ?S d (?pu # ps)"
        using pend_inv_kept [OF ps t] by (simp add: pend_inv_def)
      then show ?thesis using Inr started(6) by simp
    qed
    then show ?thesis using k started(5) by simp
  qed
  then show "keeps V sha w w'"
    "pend_inv ?S (disk_of w) ps \<Longrightarrow> pend_inv ?S (disk_of w') (case r of Inl _ \<Rightarrow> ps | Inr pu \<Rightarrow> pu # ps)"
    by blast+
qed

text \<open>
  Steps on one upload change its temporary file and keep the transactions.
\<close>

definition steps_upload ::
  "service \<Rightarrow> (byte list \<Rightarrow> sha256_digest) \<Rightarrow> pending_upload \<Rightarrow> world \<Rightarrow> world \<Rightarrow> bool" where
  "steps_upload V sha pu w w' \<longleftrightarrow>
     (tx_inv V sha (index w) (disk_of w) \<longrightarrow> tx_inv V sha (index w') (disk_of w')) \<and>
     tmp_kept_but (svc_store V) (pend_tmp pu) (disk_of w) (disk_of w')"

lemma pend_ok_done: "pend_ok S d pu \<Longrightarrow> up_done u \<Longrightarrow> up_path u = up_path (pu_upload pu) \<Longrightarrow>
    final_path u = final_path (pu_upload pu) \<Longrightarrow> tmp_path u = pend_tmp pu \<Longrightarrow> tmp_counter d \<le> tmp_counter d' \<Longrightarrow>
    pend_ok S d' (pu\<lparr>pu_upload := u\<rparr>)"
  by (auto simp: pend_ok_def Let_def intro: order_less_le_trans)

lemma steps_upload_same:
  "index w' = index w \<Longrightarrow> disk_of w' = disk_of w \<Longrightarrow> steps_upload V sha pu w w'"
  by (simp add: steps_upload_def tmp_kept_but_def)

lemma steps_uploadI:
  assumes "\<And>j. tx_same (svc_store V) j (disk_of w) d" "tmp_kept_but (svc_store V) (pend_tmp pu) (disk_of w) d"
    "index w' = index w" "disk_of w' = d"
  shows "steps_upload V sha pu w w'"
  unfolding steps_upload_def assms(3,4) using tx_inv_all_same [OF _ assms(1)] assms(2) by blast

lemma pending_write_keeps:
  assumes "pending_write V pu chunk w = (r, pu', w')" "pend_ok (svc_store V) (disk_of w) pu"
  shows "steps_upload V sha pu w w' \<and> pend_ok (svc_store V) (disk_of w') pu' \<and> pend_tmp pu' = pend_tmp pu"
proof -
  let ?S = "svc_store V" and ?u = "pu_upload pu"
  obtain u d where wr: "upload_write ?S ?u chunk (disk_of w) = (r, u, d)"
    and e: "pu' = pu\<lparr>pu_upload := u\<rparr>" "w' = w\<lparr>disk_of := d\<rparr>"
    using assms(1) by (auto simp: pending_write_def split: prod.splits)
  note we = upload_write_effect [OF wr]
  show ?thesis
  proof (cases "up_done ?u")
    case True
    then have "d = disk_of w" "u = ?u" using wr by (simp_all add: upload_write_def)
    then show ?thesis using assms(2) e by (simp add: steps_upload_same)
  next
    case False
    then obtain cs where cs: "up_holds ?u (disk_of w) cs"
      using assms(2) by (auto simp: pend_ok_def Let_def)
    have c: "tmp_counter d = tmp_counter (disk_of w)" using we by simp
    note s = agree_tmp [OF _ pend_ok_tmp [OF assms(2)] _ upload_write_dirs [OF wr cs]]
    have "steps_upload V sha pu w w'"
      by (rule steps_uploadI [of V w d]) (use s we c e in simp_all)
    moreover have "pend_ok ?S d (pu\<lparr>pu_upload := u\<rparr>)"
    proof (cases r)
      case (Inl er)
      then show ?thesis using upload_write_fail [OF wr [unfolded Inl]] assms(2) we c by (intro pend_ok_done) auto
    next
      case (Inr v)
      obtain cs' where "up_holds u d cs'" using upload_write_ok [OF wr [unfolded Inr] cs] by blast
      then show ?thesis using assms(2) we c by (auto simp: pend_ok_def Let_def)
    qed
    ultimately show ?thesis using e we by simp
  qed
qed

lemma pending_drop_keeps:
  assumes "pend_ok (svc_store V) (disk_of w) pu"
  shows "steps_upload V sha pu w (pending_drop pu w)"
proof (cases "up_done (pu_upload pu)")
  case True
  then show ?thesis by (simp add: pending_drop_def steps_upload_same)
next
  case False
  let ?u = "pu_upload pu" and ?d = "upload_drop (pu_upload pu) (disk_of w)"
  obtain cs where cs: "up_holds ?u (disk_of w) cs" using assms False by (auto simp: pend_ok_def Let_def)
  note e = upload_drop_effect [of ?u "disk_of w"]
  have "dirs_kept (disk_of w) ?d" using dirs_kept_file [OF e(1)] cs by (simp add: up_holds_def)
  note s = agree_tmp [OF e(1) pend_ok_tmp [OF assms] _ this]
  show ?thesis by (rule steps_uploadI [of V w ?d]) (use s e(2) in \<open>simp_all add: pending_drop_def\<close>)
qed

lemma upload_commit_paths:
  assumes "upload_commit S u x d = (r, u', d')"
  shows "up_path u' = up_path u \<and> final_path u' = final_path u"
proof -
  have p: "up_path u' = up_path u \<and> final_path u' = final_path u" if "upload_publish u g d = (r, u', d')" for u g d r u' d'
    using that by (auto simp: upload_publish_def split: prod.splits option.splits if_splits)
  have "up_path u' = up_path u \<and> final_path u' = final_path u" if "upload_finish S u x d = (r, u', d')" for u x d r u' d'
    using that by (cases rule: upload_finish_cases) (auto dest!: p)
  then show ?thesis
    using assms by (auto simp: upload_commit_def upload_discard_def split: if_splits prod.splits sum.splits)
qed

definition entry_of :: "stored_file \<Rightarrow> file_entry" where
  "entry_of sf = \<lparr>fe_path = sf_path sf, fe_size = sf_size sf, fe_sha256 = sf_sha256 sf\<rparr>"

definition added_event :: "transaction \<Rightarrow> caller \<Rightarrow> file_entry \<Rightarrow> biz_event" where
  "added_event t c e =
     (event_for FileAdded t c)\<lparr>ev_file := Some (fe_path e), ev_size := Some (fe_size e),
       ev_sha256 := Some (to_hex (fe_sha256 e))\<rparr>"

lemma pending_finish_cases:
  assumes "pending_finish V pu x w = (r, pu', w')"
  obtains (refused) e where "r = Inl e" "pu' = pu" "w' = lock_for (pu_id pu) w"
      "\<nexists>t. repo_find w (pu_id pu) = Some t \<and> state t = Open"
  | (commit) t e u d where "repo_find w (pu_id pu) = Some t" "state t = Open"
      "upload_commit (svc_store V) (pu_upload pu) x (disk_of w) = (Inl e, u, d)" "r = Inl e"
      "pu' = pu\<lparr>pu_upload := u\<rparr>" "w' = (lock_for (pu_id pu) w)\<lparr>disk_of := d\<rparr>"
  | (save) t sf u d r2 w2 where "repo_find w (pu_id pu) = Some t" "state t = Open"
      "upload_commit (svc_store V) (pu_upload pu) x (disk_of w) = (Inr sf, u, d)"
      "repo_save (svc_store V) (svc_json V) (t\<lparr>files := upsert_file (files t) (entry_of sf)\<rparr>)
         ((lock_for (pu_id pu) w)\<lparr>disk_of := d\<rparr>) = (r2, w2)"
      "r = (case r2 of Inl e \<Rightarrow> Inl e | Inr _ \<Rightarrow> Inr (entry_of sf))" "pu' = pu\<lparr>pu_upload := u\<rparr>"
      "w' = (if is_ok r2 then record_event (added_event (t\<lparr>files := upsert_file (files t) (entry_of sf)\<rparr>)
         (pu_caller pu) (entry_of sf)) w2 else w2)"
proof (cases "\<exists>t. repo_find w (pu_id pu) = Some t \<and> state t = Open")
  case False
  then have "\<exists>e. r = Inl e \<and> pu' = pu \<and> w' = lock_for (pu_id pu) w"
  proof (cases "repo_find w (pu_id pu)")
    case (Some t)
    then show ?thesis
      using False assms by (cases "state t") (auto simp: pending_finish_def fail_def Let_def)
  qed (use assms in \<open>auto simp: pending_finish_def not_found_def fail_def Let_def\<close>)
  then show ?thesis using refused False by blast
next
  case True
  then obtain t where t: "repo_find w (pu_id pu) = Some t" "state t = Open" by blast
  let ?w = "lock_for (pu_id pu) w"
  obtain y u d where c: "upload_commit (svc_store V) (pu_upload pu) x (disk_of w) = (y, u, d)" by (metis prod_cases3)
  show ?thesis
  proof (cases y)
    case (Inl e)
    then show ?thesis
      using assms t c by (intro commit [OF t, of e u d]) (auto simp: pending_finish_def Let_def)
  next
    case (Inr sf)
    let ?t = "t\<lparr>files := upsert_file (files t) (entry_of sf)\<rparr>"
    obtain r2 w2 where s: "repo_save (svc_store V) (svc_json V) ?t (?w\<lparr>disk_of := d\<rparr>) = (r2, w2)" by fastforce
    have "pending_finish V pu x w =
        (case (r2, w2) of (Inl e, w) \<Rightarrow> (Inl e, pu\<lparr>pu_upload := u\<rparr>, w)
         | (Inr _, w) \<Rightarrow> (Inr (entry_of sf), pu\<lparr>pu_upload := u\<rparr>,
             record_event (added_event ?t (pu_caller pu) (entry_of sf)) w))"
      unfolding s [symmetric] using t c Inr
      by (simp add: pending_finish_def Let_def entry_of_def added_event_def split: prod.split sum.split)
    then show ?thesis
      using assms t c Inr s by (intro save [OF t, of sf u d r2 w2]) (cases r2; auto)+
  qed
qed

lemma pending_finish_keeps:
  assumes "pending_finish V pu x w = (r, pu', w')" "pend_ok (svc_store V) (disk_of w) pu"
    and "up_size (pu_upload pu) < 2 ^ 64"
  shows "steps_upload V sha pu w w' \<and> pend_ok (svc_store V) (disk_of w') pu' \<and> pend_tmp pu' = pend_tmp pu"
  using assms(1)
proof (cases rule: pending_finish_cases)
  case (refused e)
  then show ?thesis using assms(2) by (simp add: steps_upload_same)
next
  let ?S = "svc_store V" and ?u = "pu_upload pu"
  case (commit t e u d)
  note ce = upload_commit_fail [OF commit(3)]
  have keep: "up_path u = up_path ?u \<and> final_path u = final_path ?u"
    using commit(3) upload_commit_paths by blast
  show ?thesis
  proof (cases "up_done ?u")
    case True
    then have "d = disk_of w" "u = ?u" using commit(3) by (simp_all add: upload_commit_def)
    then show ?thesis using assms(2) commit by (simp add: steps_upload_same)
  next
    case False
    then obtain cs where cs: "up_holds ?u (disk_of w) cs" using assms(2) by (auto simp: pend_ok_def Let_def)
    have "tx_same ?S j (disk_of w) d" for j
      unfolding tx_same_def
    proof (intro conjI allI impI)
      show "file_bytes d q = file_bytes (disk_of w) q" if "in_tx ?S j q" for q
        using ce(4) [of q] pend_ok_tmp [OF assms(2)] in_tx_not_tmp [OF that] by fastforce
      show "tx_dirs_kept ?S j (disk_of w) d"
        using tx_dirs_keptI [OF ce(5) [OF cs]] .
    qed
    moreover have "tmp_kept_but ?S (pend_tmp pu) (disk_of w) d"
      using ce(3,4) by (simp add: tmp_kept_but_def)
    ultimately have "steps_upload V sha pu w w'"
      by (rule steps_uploadI) (simp_all add: commit(6))
    moreover have "pend_ok ?S d (pu\<lparr>pu_upload := u\<rparr>)"
      using ce(1,2,3) keep assms(2) by (intro pend_ok_done) auto
    ultimately show ?thesis using commit(5,6) ce(2) by simp
  qed
next
  let ?S = "svc_store V" and ?u = "pu_upload pu"
  case (save t sf u d r2 w2)
  have "\<not> up_done ?u" using save(3) by (auto simp: upload_commit_def upload_finished_def)
  then obtain cs where cs: "up_holds ?u (disk_of w) cs" using assms(2) by (auto simp: pend_ok_def Let_def)
  note ce = upload_commit_ok [OF save(3) cs]
  have keep: "up_path u = up_path ?u \<and> final_path u = final_path ?u"
    using save(3) upload_commit_paths by blast
  obtain g where g: "length g = 32" "sf = \<lparr>sf_path = up_path ?u, sf_size = length (concat cs), sf_sha256 = g\<rparr>"
    using ce(1) by blast
  have entry: "wf_entry (entry_of sf)"
    using assms(2,3) g cs by (simp add: wf_entry_def entry_of_def pend_ok_def up_holds_def Let_def)
  have fin: "final_path ?u = under (up_path ?u) (files_dir ?S (pu_id pu))"
    using assms(2) by (simp add: pend_ok_def Let_def)
  let ?w1 = "(lock_for (pu_id pu) w)\<lparr>disk_of := d\<rparr>" and ?t = "t\<lparr>files := upsert_file (files t) (entry_of sf)\<rparr>"
  have inv1: "tx_inv V sha (index w) d" if i: "tx_inv V sha (index w) (disk_of w)"
  proof (rule tx_inv_payload [OF i save(1) [unfolded repo_find_def] save(2)])
    show "tx_dirs_kept ?S j (disk_of w) d" for j
      using tx_dirs_keptI [OF ce(5)] .
    show "file_bytes d q = file_bytes (disk_of w) q"
      if "\<nexists>p. q = under p (files_dir ?S (pu_id pu))" "\<not> in_tmp ?S q" for q
    proof -
      have "q \<noteq> final_path ?u" "q \<noteq> tmp_path ?u"
        using that fin pend_ok_tmp [OF assms(2)] by auto
      then show ?thesis using ce(6) [of q] by simp
    qed
  qed
  have tmp: "tmp_kept_but ?S (pend_tmp pu) (disk_of w) d"
    using ce(4,6) fin by (simp add: tmp_kept_but_def)
  have k: "keeps V sha ?w1 w'"
  proof (rule keeps_save [OF save(4)])
    show "repo_find ?w1 (pu_id pu) = Some t" using save(1) by (simp add: repo_find_def)
    assume inv: "tx_inv V sha (index ?w1) (disk_of ?w1)"
    have "wf_tx t" "clock_ok (created_at t)" "wf_files (files t)"
      using tx_ok_parts [OF tx_inv_find [OF inv \<open>repo_find ?w1 (pu_id pu) = Some t\<close>]] by blast+
    then show "tx_inv V sha (index ?w1) (disk_of ?w1) \<and> wf_tx ?t \<and> clock_ok (created_at ?t) \<and>
        (state t = Expired \<longrightarrow> state ?t = Expired) \<and>
        (published ?t \<longrightarrow> (\<forall>f \<in> set (files ?t). stored_as ?S sha (disk_of ?w1) (pu_id pu) f) \<and>
          doc_text ?S (disk_of ?w1) (pu_id pu) Manifest = Some (encode_manifest (svc_json V) ?t))"
      using inv save(2) wf_tx_files wf_files_upsert entry by (simp add: published_def)
  qed (use save(7) in simp_all)
  have "steps_upload V sha pu w w'"
    using k inv1 tmp_kept_but_trans [OF tmp] by (simp add: steps_upload_def keeps_def)
  moreover have "pend_ok ?S d (pu\<lparr>pu_upload := u\<rparr>)"
    using ce(2,3,4) keep assms(2) by (intro pend_ok_done) auto
  then have "pend_ok ?S (disk_of w') (pu\<lparr>pu_upload := u\<rparr>)"
    by (rule pend_ok_kept) (use k in \<open>simp add: keeps_def\<close>)
  ultimately show ?thesis using save(6) ce(3) by simp
qed

end
