(* ===== verification/Tx_System.thy ===== *)
theory Tx_System
  imports Tx_Operations
begin

section \<open>The transaction service as a system\<close>

text \<open>
  Clients, peers, administrators, the forwarder, retention and the operating system as one
  system: an \<open>action\<close> is one operation of the service, one operation on an upload in progress,
  the end of the process, a start, or a change of what the disk does next. Any action may follow
  any other. Disk calls fail by the schedule of the disk, which the environment may replace at
  every moment; a process killed inside an operation is a schedule in which every later call
  fails, followed by \<open>Crash\<close>.
\<close>

subsection \<open>Model: actions\<close>

datatype action =
    Create timestamp transaction_id caller create_request
  | Receive caller receive_request
  | BeginUpload caller transaction_id relative_path
  | WriteChunk nat "byte list"
  | FinishUpload nat "sha256_digest option"
  | DropUpload nat
  | RemoveFile caller transaction_id relative_path
  | Commit timestamp caller transaction_id
  | OpenDownload caller transaction_id relative_path
  | MarkDelivered timestamp transaction_id
  | Expire transaction_id
  | AdminDelete caller transaction_id
  | SetRetention caller transaction_id int
  | Crash
  | Start
  | Disk "(errno \<times> nat) option list"

text \<open>
  \<open>up\<close>: the process serves requests. While it does not, the index is the one of its last run.
\<close>

record sys =
  up :: bool
  run :: world
  pending :: "pending_upload list"

definition replace_nth :: "nat \<Rightarrow> 'a list \<Rightarrow> 'a list \<Rightarrow> 'a list" where
  "replace_nth n ys xs = take n xs @ ys @ drop (Suc n) xs"

text \<open>\<open>FileStore::open\<close> and \<open>TransactionRepository::load\<close>, in the order of \<^verbatim>\<open>main.cpp\<close>.\<close>

definition sys_start :: "service \<Rightarrow> sys \<Rightarrow> sys" where
  "sys_start V s =
     (let w = run s
      in case store_open (svc_store V) (disk_of w) of
           (Inl _, d) \<Rightarrow> s\<lparr>run := w\<lparr>disk_of := d\<rparr>\<rparr>
         | (Inr _, d) \<Rightarrow>
             (case repo_load (svc_store V) (svc_json V) (w\<lparr>index := [], disk_of := d\<lparr>tmp_counter := 0\<rparr>\<rparr>) of
                (Inl _, w') \<Rightarrow> s\<lparr>run := w\<lparr>disk_of := disk_of w'\<rparr>\<rparr>
              | (Inr _, w') \<Rightarrow> s\<lparr>up := True, run := w'\<lparr>locks := [], hooks := []\<rparr>, pending := []\<rparr>))"

fun sys_do :: "service \<Rightarrow> action \<Rightarrow> sys \<Rightarrow> sys" where
  "sys_do V (Create now uuid c req) s = s\<lparr>run := snd (svc_create V now uuid c req (run s))\<rparr>"
| "sys_do V (Receive c req) s = s\<lparr>run := snd (svc_receive V c req (run s))\<rparr>"
| "sys_do V (BeginUpload c i p) s =
     (let (r, w) = svc_begin_upload V c i p (run s)
      in s\<lparr>run := w, pending := (case r of Inl _ \<Rightarrow> pending s | Inr pu \<Rightarrow> pu # pending s)\<rparr>)"
| "sys_do V (WriteChunk n bs) s =
     (let (_, pu, w) = pending_write V (pending s ! n) bs (run s)
      in s\<lparr>run := w, pending := replace_nth n [pu] (pending s)\<rparr>)"
| "sys_do V (FinishUpload n x) s =
     (let (_, pu, w) = pending_finish V (pending s ! n) x (run s)
      in s\<lparr>run := w, pending := replace_nth n [pu] (pending s)\<rparr>)"
| "sys_do V (DropUpload n) s =
     s\<lparr>run := pending_drop (pending s ! n) (run s), pending := replace_nth n [] (pending s)\<rparr>"
| "sys_do V (RemoveFile c i p) s = s\<lparr>run := snd (svc_remove_file V c i p (run s))\<rparr>"
| "sys_do V (Commit now c i) s = s\<lparr>run := snd (svc_commit V now c i (run s))\<rparr>"
| "sys_do V (OpenDownload c i p) s = s\<lparr>run := snd (svc_open_download V c i p (run s))\<rparr>"
| "sys_do V (MarkDelivered now i) s = s\<lparr>run := snd (svc_mark_delivered V now i (run s))\<rparr>"
| "sys_do V (Expire i) s = s\<lparr>run := snd (svc_expire V i (run s))\<rparr>"
| "sys_do V (AdminDelete c i) s = s\<lparr>run := snd (svc_admin_delete V c i (run s))\<rparr>"
| "sys_do V (SetRetention c i days) s = s\<lparr>run := snd (svc_set_retention V c i days (run s))\<rparr>"
| "sys_do V Crash s = s\<lparr>up := False, pending := []\<rparr>"
| "sys_do V Start s = sys_start V s"
| "sys_do V (Disk fs) s = s\<lparr>run := (run s)\<lparr>disk_of := (disk_of (run s))\<lparr>faults := fs\<rparr>\<rparr>\<rparr>"

text \<open>
  When an action can happen. The arguments come checked from the callers of the service: ids and
  paths are parsed (\<open>TransactionId::parse\<close>, \<open>RelativePath::parse\<close>) and strings come out of
  JSON documents, which are UTF-8. The clock stays between the years 0 and 9999, and a file
  is smaller than \<^term>\<open>2 ^ 64\<close> bytes.
\<close>

fun sys_can :: "action \<Rightarrow> sys \<Rightarrow> bool" where
  "sys_can (Create now uuid c req) s \<longleftrightarrow> up s \<and> valid_id uuid \<and> clock_ok now \<and> caller_name c \<noteq> [] \<and>
     list_all valid_utf8 [caller_name c, cr_target_user req, cr_target_server req, cr_comment req]"
| "sys_can (Receive c req) s \<longleftrightarrow> up s \<and> valid_id (rr_id req) \<and> clock_ok (rr_created_at req) \<and>
     iso_range (rr_expires_at req) \<and>
     list_all valid_utf8 [caller_name c, rr_sender req, rr_target_user req, rr_comment req]"
| "sys_can (BeginUpload c i p) s \<longleftrightarrow> up s \<and> valid_path p \<and> valid_utf8 p"
| "sys_can (WriteChunk n bs) s \<longleftrightarrow> up s \<and> n < length (pending s)"
| "sys_can (FinishUpload n x) s \<longleftrightarrow> up s \<and> n < length (pending s) \<and> up_size (pu_upload (pending s ! n)) < 2 ^ 64"
| "sys_can (DropUpload n) s \<longleftrightarrow> up s \<and> n < length (pending s)"
| "sys_can (Commit now c i) s \<longleftrightarrow> up s \<and> iso_range now"
| "sys_can (MarkDelivered now i) s \<longleftrightarrow> up s \<and> iso_range now"
| "sys_can Start s \<longleftrightarrow> \<not> up s"
| "sys_can (Disk fs) s \<longleftrightarrow> True"
| "sys_can _ s \<longleftrightarrow> up s"

text \<open>The first start happens on a disk without transactions.\<close>

definition sys_fresh :: "service \<Rightarrow> sys \<Rightarrow> bool" where
  "sys_fresh V s \<longleftrightarrow> \<not> up s \<and> pending s = [] \<and> index (run s) = [] \<and> tree (disk_of (run s)) = []"

inductive sys_step :: "service \<Rightarrow> sys \<Rightarrow> sys \<Rightarrow> bool" for V where
  act: "sys_can a s \<Longrightarrow> sys_step V s (sys_do V a s)"

inductive sys_reach :: "service \<Rightarrow> sys \<Rightarrow> bool" for V where
  fresh: "sys_fresh V s \<Longrightarrow> sys_reach V s"
| step: "sys_reach V s \<Longrightarrow> sys_step V s s' \<Longrightarrow> sys_reach V s'"

inductive_cases sys_stepE: "sys_step V s s'"

text \<open>A run of the system, for concrete executions.\<close>

fun sys_run :: "service \<Rightarrow> action list \<Rightarrow> sys \<Rightarrow> sys" where
  "sys_run V [] s = s"
| "sys_run V (a # as) s = sys_run V as (sys_do V a s)"

fun sys_runs :: "service \<Rightarrow> action list \<Rightarrow> sys \<Rightarrow> bool" where
  "sys_runs V [] s \<longleftrightarrow> True"
| "sys_runs V (a # as) s \<longleftrightarrow> sys_can a s \<and> sys_runs V as (sys_do V a s)"

lemma sys_run_reach: "sys_reach V s \<Longrightarrow> sys_runs V as s \<Longrightarrow> sys_reach V (sys_run V as s)"
  by (induction as arbitrary: s) (auto intro: sys_reach.step sys_step.act)


subsection \<open>Starting the process\<close>

lemma grown_tx_same: "grown d d' \<Longrightarrow> tx_same S j d d'"
  by (simp add: tx_same_def grown_file tx_dirs_kept_def has_transaction_def grown_dir)

lemma shrunk_tmp_same:
  assumes "shrunk (\<lambda>q. q = tmp_dir S \<or> below q (tmp_dir S)) d d'"
  shows "tx_same S j d d'"
proof -
  have n: "\<not> (q = tmp_dir S \<or> below q (tmp_dir S))" if "in_tx S j q" for q
    using that in_tx_not_tmp [OF that]
    by (auto simp: in_tmp_def in_tx_iff tmp_dir_def kTransactionsDir_def kTmpDir_def)
  have "in_tx S j (files_dir S j)" "in_tx S j (transaction_dir S j)"
    by (simp_all add: in_tx_iff files_dir_simps transaction_dir_def transactions_dir_def)
  then show ?thesis
    using agree_file [OF shrunk_agree [OF assms]] agree_dir [OF shrunk_agree [OF assms]] n
    by (simp add: tx_same_def tx_dirs_kept_def has_transaction_def)
qed

lemma store_open_same:
  assumes "store_open S d = (r, d')"
  shows "tx_same S j d d'"
proof -
  obtain e1 d1 where a: "create_directories (transactions_dir S) d = (e1, d1)" by fastforce
  obtain e2 n d2 where b: "remove_all (tmp_dir S) d1 = ((e2, n), d2)" by (metis prod.collapse)
  obtain e3 d3 where c: "create_directories (tmp_dir S) d2 = (e3, d3)" by fastforce
  have "tx_same S j d d1" "tx_same S j d1 d2" "tx_same S j d2 d3"
    using grown_tx_same [OF create_directories_grown(1) [OF a]] shrunk_tmp_same [OF remove_all_shrunk(1) [OF b]]
      grown_tx_same [OF create_directories_grown(1) [OF c]] .
  note t = this(1) tx_same_trans [OF this(1,2)] tx_same_trans [OF tx_same_trans [OF this(1,2)] this(3)]
  have "d' = d1 \<or> d' = d2 \<or> d' = d3"
    using assms a b c by (auto simp: store_open_def split: option.splits)
  then show ?thesis using t by blast
qed

lemma repo_load_same:
  assumes "repo_load S J w = (r, w')"
  shows "same_disk (disk_of w) (disk_of w')"
proof -
  obtain x d1 where l: "list_transactions S (disk_of w) = (x, d1)" by fastforce
  note s = list_transactions_effect(1) [OF l]
  show ?thesis
  proof (cases x)
    case (Inl e)
    then show ?thesis using assms l s by (auto simp: repo_load_def on_disk_def)
  next
    case (Inr ids)
    obtain y d2 where m: "load_loop S J ids [] d1 = (y, d2)" by fastforce
    then have "disk_of w' = d2"
      using assms l Inr by (cases y) (auto simp: repo_load_def on_disk_def)
    then show ?thesis using s load_loop_effect [OF m] same_disk_trans by blast
  qed
qed

lemma load_loop_distinct:
  "load_loop S J ids loaded d = (Inr ix, d') \<Longrightarrow> distinct (map fst loaded) \<Longrightarrow> distinct (map fst ix)"
proof (induction ids arbitrary: loaded d)
  case (Cons i ids)
  obtain x d1 where rd: "read_document S i Meta d = (x, d1)" by fastforce
  then obtain s t where "x = Inr s" "decode_meta J s = Inr t" "tx_id t = i"
    using Cons.prems(1) by (cases x) (auto split: sum.splits if_splits)
  then have l: "load_loop S J ids (if map_of loaded i = None then loaded @ [(i, t)] else loaded) d1 = (Inr ix, d')"
    using Cons.prems(1) rd by simp
  show ?case
    by (rule Cons.IH [OF l]) (use Cons.prems(2) in \<open>auto simp: map_of_eq_None_iff image_iff\<close>)
qed simp

lemma repo_load_distinct:
  assumes "repo_load S J w = (Inr u, w')"
  shows "distinct (map fst (index w'))"
proof -
  obtain ids d1 ix d2 where "load_loop S J ids [] d1 = (Inr ix, d2)" "index w' = ix"
    using assms by (auto simp: repo_load_def try_simps on_disk_eq)
  then show ?thesis using load_loop_distinct by fastforce
qed

text \<open>
  What \<open>load\<close> finds on a disk left by an earlier run is what that run had in its index.
\<close>

lemma load_finds:
  assumes "json_sound (svc_json V)" "tx_inv V sha ix (disk_of w)"
    and "repo_load (svc_store V) (svc_json V) w = (Inr u, w')"
  shows "repo_find w' i = map_of ix i"
proof (cases "map_of ix i")
  case None
  then have "meta_at (svc_store V) (svc_json V) (disk_of w) i = None"
    using assms(2) by (simp add: tx_inv_def meta_at_def)
  then show ?thesis using repo_load_ok(2) [OF assms(3), of i] None by simp
next
  case (Some t)
  then have t: "tx_ok V sha (disk_of w) i t" using assms(2) by (simp add: tx_inv_def)
  then have "valid_id i" "is_directory (disk_of w) (transaction_dir (svc_store V) i)"
    using tx_ok_parts(5) [OF t] by (simp_all add: tx_ok_def)
  then obtain t' where m: "meta_at (svc_store V) (svc_json V) (disk_of w) i = Some t'"
    and r: "repo_find w' i = Some t'"
    using repo_load_ok(2,3) [OF assms(3), of i] by auto
  have "doc_text (svc_store V) (disk_of w) i Meta = Some (encode_meta (svc_json V) t)"
    using t m by (auto simp: tx_ok_def meta_at_def split: if_splits)
  then have "meta_at (svc_store V) (svc_json V) (disk_of w) i = Some t"
    using meta_text.dec_enc [of "svc_json V" t] assms(1) tx_ok_parts(2) [OF t] by (simp add: meta_at_def)
  then show ?thesis using m r Some by simp
qed

lemma load_keeps:
  assumes "json_sound (svc_json V)" "tx_inv V sha ix (disk_of w)"
    and "repo_load (svc_store V) (svc_json V) w = (Inr u, w')"
  shows "tx_inv V sha (index w') (disk_of w')"
proof -
  have m: "map_of (index w') = map_of ix"
    using load_finds [OF assms] by (simp add: fun_eq_iff repo_find_def)
  have "tx_inv V sha ix (disk_of w')"
    by (rule tx_inv_all_same [OF assms(2) tx_same_disk [OF repo_load_ok(1) [OF assms(3)]]])
  then show ?thesis using m repo_load_distinct [OF assms(3)] by (simp add: tx_inv_def)
qed


subsection \<open>The invariant\<close>

definition sys_inv :: "service \<Rightarrow> (byte list \<Rightarrow> sha256_digest) \<Rightarrow> sys \<Rightarrow> bool" where
  "sys_inv V sha s \<longleftrightarrow>
     tx_inv V sha (index (run s)) (disk_of (run s)) \<and>
     pend_inv (svc_store V) (disk_of (run s)) (pending s) \<and> (\<not> up s \<longrightarrow> pending s = [])"

lemma sys_inv_keeps:
  "sys_inv V sha s \<Longrightarrow> up s \<Longrightarrow> keeps V sha (run s) w \<Longrightarrow> sys_inv V sha (s\<lparr>run := w\<rparr>)"
  using pend_inv_kept by (auto simp: sys_inv_def keeps_def)

lemma replace_nth_split:
  "n < length xs \<Longrightarrow> xs = take n xs @ xs ! n # drop (Suc n) xs"
  by (rule id_take_nth_drop)

lemma pend_inv_replace:
  assumes "pend_inv S d ps" "n < length ps" "tmp_kept_but S (pend_tmp (ps ! n)) d d'"
    "pend_ok S d' pu" "pend_tmp pu = pend_tmp (ps ! n)"
  shows "pend_inv S d' (replace_nth n [pu] ps)"
proof -
  have p: "pend_inv S d (take n ps @ ps ! n # drop (Suc n) ps)"
    using assms(1) replace_nth_split [OF assms(2)] by simp
  have "distinct (map pend_tmp (take n ps @ ps ! n # drop (Suc n) ps))"
    using p unfolding pend_inv_def by blast
  then show ?thesis
    using pend_inv_change [OF p assms(3)] assms(4,5) by (auto simp: replace_nth_def pend_inv_def)
qed

lemma pend_inv_nth: "pend_inv S d ps \<Longrightarrow> n < length ps \<Longrightarrow> pend_ok S d (ps ! n)"
  by (simp add: pend_inv_def)

lemma pend_inv_drop:
  assumes "pend_inv S d ps" "n < length ps" "tmp_kept_but S (pend_tmp (ps ! n)) d d'"
  shows "pend_inv S d' (replace_nth n [] ps)"
proof -
  have p: "pend_inv S d (take n ps @ ps ! n # drop (Suc n) ps)"
    using assms(1) replace_nth_split [OF assms(2)] by simp
  show ?thesis using pend_inv_change [OF p assms(3)] by (simp add: replace_nth_def)
qed

lemma sys_inv_upload:
  assumes "sys_inv V sha s" "up s" "n < length (pending s)"
    and "steps_upload V sha (pending s ! n) (run s) w" "pend_ok (svc_store V) (disk_of w) pu"
    and "pend_tmp pu = pend_tmp (pending s ! n)"
  shows "sys_inv V sha (s\<lparr>run := w, pending := replace_nth n [pu] (pending s)\<rparr>)"
  using assms pend_inv_replace [OF _ assms(3) _ assms(5,6), of "disk_of (run s)"]
  by (simp add: sys_inv_def steps_upload_def)

lemma svc_open_download_cases:
  assumes "svc_open_download V c i p w = (r, w')"
  obtains (refused) e where "r = Inl e" "w' = w"
  | (started) t f d where "repo_find w i = Some t" "may_read c t (is_recipient (svc_options V))" "published t"
      "find_file (files t) p = Some f" "open_read (svc_store V) i p (disk_of w) = (r, d)" "w' = w\<lparr>disk_of := d\<rparr>"
proof (cases "\<exists>t f. repo_find w i = Some t \<and> may_read c t (is_recipient (svc_options V)) \<and> published t \<and>
    find_file (files t) p = Some f")
  case True
  then obtain t f where t: "repo_find w i = Some t" "may_read c t (is_recipient (svc_options V))" "published t"
    "find_file (files t) p = Some f" by blast
  then have "require_readable (state t) = Inr ()" by (auto simp: published_def)
  then have "on_disk (open_read (svc_store V) i p) w = (r, w')"
    using assms t by (simp add: svc_open_download_def)
  then show ?thesis using started [OF t] unfolding on_disk_eq by blast
next
  case False
  then have "(\<exists>e. r = Inl e) \<and> w' = w"
    using assms
    by (cases "repo_find w i"; cases "require_readable (state (the (repo_find w i)))")
      (auto simp: svc_open_download_def not_found_def forbidden_def fail_def require_readable_iff published_def
        split: if_splits)
  then show ?thesis using refused by blast
qed

lemma svc_open_download_keeps:
  assumes "svc_open_download V c i p w = (r, w')"
  shows "keeps V sha w w'"
  using assms
proof (cases rule: svc_open_download_cases)
  case (started t f d)
  have s: "same_disk (disk_of w) d" by (rule open_read_effect(1) [OF started(5)])
  show ?thesis
    unfolding keeps_def using tx_inv_all_same [OF _ tx_same_disk [OF s]] tmp_kept_same [OF s] started(6) by simp
qed (simp add: keeps_same)

lemma svc_admin_delete_keeps: "keeps V sha w (snd (svc_admin_delete V c i w))"
  using svc_destroy_keeps [OF prod.collapse [symmetric]]
  by (simp add: svc_admin_delete_def keeps_same)

lemma tmp_counter_tx_same: "tx_same S j d (d'\<lparr>tmp_counter := n\<rparr>) = tx_same S j d d'"
  by (simp add: tx_same_def tx_dirs_kept_def file_bytes_def has_transaction_def is_directory_def)

lemma sys_start_keeps:
  assumes "json_sound (svc_json V)" "sys_inv V sha s" "\<not> up s"
  shows "sys_inv V sha (sys_start V s)"
proof -
  let ?S = "svc_store V" and ?w = "run s"
  have ps: "pending s = []" and inv: "tx_inv V sha (index ?w) (disk_of ?w)"
    using assms(2,3) by (simp_all add: sys_inv_def)
  have emp: "pend_inv ?S d []" for d by (simp add: pend_inv_def)
  obtain r d where o: "store_open ?S (disk_of ?w) = (r, d)" by fastforce
  have i1: "tx_inv V sha (index ?w) d"
    by (rule tx_inv_all_same [OF inv store_open_same [OF o]])
  have i2: "tx_inv V sha (index ?w) (d\<lparr>tmp_counter := 0\<rparr>)"
    by (rule tx_inv_all_same [OF i1]) (simp add: tmp_counter_tx_same)
  obtain r2 w2 where l: "repo_load ?S (svc_json V) (?w\<lparr>index := [], disk_of := d\<lparr>tmp_counter := 0\<rparr>\<rparr>) = (r2, w2)"
    by fastforce
  show ?thesis
  proof (cases r)
    case (Inl e)
    then show ?thesis using o i1 ps emp assms(3) by (simp add: sys_start_def sys_inv_def)
  next
    case (Inr u)
    show ?thesis
    proof (cases r2)
      case (Inl e)
      have "tx_inv V sha (index ?w) (disk_of w2)"
        by (rule tx_inv_all_same [OF i2 tx_same_disk]) (use repo_load_same [OF l] in simp)
      then show ?thesis using o l Inr Inl ps emp assms(3) by (simp add: sys_start_def sys_inv_def)
    next
      case r2: (Inr u2)
      have "tx_inv V sha (index w2) (disk_of w2)"
        by (rule load_keeps [OF assms(1) _ l [unfolded r2]]) (use i2 in simp)
      then show ?thesis using o l Inr r2 emp by (simp add: sys_start_def sys_inv_def)
    qed
  qed
qed


text \<open>Every action keeps the invariant.\<close>

lemma sys_do_keeps:
  assumes "sys_inv V sha s" "sys_can a s" "evp_sound (evp_of (svc_store V)) sha" "json_sound (svc_json V)"
  shows "sys_inv V sha (sys_do V a s)"
proof -
  let ?S = "svc_store V" and ?w = "run s"
  have k: "sys_inv V sha (s\<lparr>run := snd x\<rparr>)" if "up s" "\<And>r w'. x = (r, w') \<Longrightarrow> keeps V sha ?w w'"
    for x :: "'r \<times> world"
    using sys_inv_keeps [OF assms(1) that(1)] that(2) [OF surjective_pairing] by blast
  show ?thesis
  proof (cases a)
    case (Create now uuid c req)
    then show ?thesis using assms(2) svc_create_keeps by (auto intro!: k)
  next
    case (Receive c req)
    then show ?thesis using assms(2) svc_receive_keeps by (auto intro!: k)
  next
    case (BeginUpload c i p)
    obtain r w where b: "svc_begin_upload V c i p ?w = (r, w)" by fastforce
    have "keeps V sha ?w w"
      and "pend_inv ?S (disk_of ?w) (pending s) \<Longrightarrow>
        pend_inv ?S (disk_of w) (case r of Inl _ \<Rightarrow> pending s | Inr pu \<Rightarrow> pu # pending s)"
      using svc_begin_upload_keeps [OF b] assms(2) BeginUpload by simp_all
    then show ?thesis using assms(1,2) BeginUpload b by (simp add: sys_inv_def keeps_def)
  next
    case (WriteChunk n bs)
    obtain r pu w where b: "pending_write V (pending s ! n) bs ?w = (r, pu, w)" using prod_cases3 by blast
    have n: "up s" "n < length (pending s)" using assms(2) WriteChunk by simp_all
    then have p: "pend_ok ?S (disk_of ?w) (pending s ! n)"
      using assms(1) pend_inv_nth by (auto simp: sys_inv_def)
    show ?thesis
      using sys_inv_upload [OF assms(1) n] pending_write_keeps [OF b p, of sha] b WriteChunk by simp
  next
    case (FinishUpload n x)
    obtain r pu w where b: "pending_finish V (pending s ! n) x ?w = (r, pu, w)" using prod_cases3 by blast
    have n: "up s" "n < length (pending s)" "up_size (pu_upload (pending s ! n)) < 2 ^ 64"
      using assms(2) FinishUpload by simp_all
    then have p: "pend_ok ?S (disk_of ?w) (pending s ! n)"
      using assms(1) pend_inv_nth by (auto simp: sys_inv_def)
    show ?thesis
      using sys_inv_upload [OF assms(1) n(1,2)] pending_finish_keeps [OF b p n(3), of sha] b FinishUpload by simp
  next
    case (DropUpload n)
    have n: "up s" "n < length (pending s)" using assms(2) DropUpload by simp_all
    then have p: "pend_ok ?S (disk_of ?w) (pending s ! n)"
      using assms(1) pend_inv_nth by (auto simp: sys_inv_def)
    show ?thesis
      using assms(1) n pending_drop_keeps [OF p, of sha] pend_inv_drop [OF _ n(2)] DropUpload
      by (auto simp: sys_inv_def steps_upload_def)
  next
    case (RemoveFile c i p)
    then show ?thesis using assms(2) svc_remove_file_keeps by (auto intro!: k)
  next
    case (Commit now c i)
    then show ?thesis using assms(2,3) svc_commit_keeps by (auto intro!: k)
  next
    case (OpenDownload c i p)
    then show ?thesis using assms(2) svc_open_download_keeps by (auto intro!: k)
  next
    case (MarkDelivered now i)
    then show ?thesis using assms(2) svc_mark_delivered_keeps by (auto intro!: k)
  next
    case (Expire i)
    then show ?thesis using assms(2) svc_destroy_keeps by (auto simp: svc_expire_def intro!: k)
  next
    case (AdminDelete c i)
    then show ?thesis using assms(1,2) sys_inv_keeps svc_admin_delete_keeps by simp
  next
    case (SetRetention c i days)
    then show ?thesis using assms(2) svc_set_retention_keeps by (auto intro!: k)
  next
    case Crash
    then show ?thesis using assms(1) by (simp add: sys_inv_def pend_inv_def)
  next
    case Start
    then show ?thesis using sys_start_keeps [OF assms(4,1)] assms(2) by simp
  next
    case (Disk fs)
    have "same_disk (disk_of ?w) ((disk_of ?w)\<lparr>faults := fs\<rparr>)" by (simp add: same_disk_def)
    note s = tx_inv_all_same [OF _ tx_same_disk [OF this]] pend_inv_kept [OF _ tmp_kept_same [OF this]]
    then show ?thesis using assms(1) Disk by (simp add: sys_inv_def)
  qed
qed

lemma sys_fresh_inv: "sys_fresh V s \<Longrightarrow> sys_inv V sha s"
  by (simp add: sys_fresh_def sys_inv_def tx_inv_def pend_inv_def doc_text_def file_bytes_def)

lemma sys_reach_inv:
  assumes "sys_reach V s" "evp_sound (evp_of (svc_store V)) sha" "json_sound (svc_json V)"
  shows "sys_inv V sha s"
  using assms(1)
proof induction
  case (step s s')
  then show ?case using sys_do_keeps [OF step.IH _ assms(2,3)] by (auto elim: sys_stepE)
qed (rule sys_fresh_inv)


subsection \<open>The abstract machine\<close>

text \<open>
  What the service promises, without disks, locks, uploads and crashes: a map of transactions in
  which a transaction is created open and empty, has its files edited while it is open, is
  committed, delivered and expired, in that order, and never changes otherwise until it is removed.
\<close>

type_synonym tx_view = "transaction_id \<rightharpoonup> transaction"

inductive abs_step :: "tx_view \<Rightarrow> tx_view \<Rightarrow> bool" where
  create: "m (tx_id t) = None \<Longrightarrow> state t = Open \<Longrightarrow> files t = [] \<Longrightarrow> abs_step m (m(tx_id t \<mapsto> t))"
| edit: "m i = Some t \<Longrightarrow> state t = Open \<Longrightarrow> abs_step m (m(i \<mapsto> t\<lparr>files := fs\<rparr>))"
| commit: "m i = Some t \<Longrightarrow> state t = Open \<Longrightarrow> abs_step m (m(i \<mapsto> commit_tx now t))"
| deliver: "m i = Some t \<Longrightarrow> state t = Committed \<Longrightarrow> abs_step m (m(i \<mapsto> deliver_tx now t))"
| retain: "m i = Some t \<Longrightarrow> state t \<noteq> Expired \<Longrightarrow> abs_step m (m(i \<mapsto> t\<lparr>expires := e\<rparr>))"
| expire: "m i = Some t \<Longrightarrow> state t \<noteq> Expired \<Longrightarrow> abs_step m (m(i \<mapsto> expire_tx t))"
| remove: "m i = Some t \<Longrightarrow> abs_step m (m(i := None))"

definition view :: "sys \<Rightarrow> tx_view" where
  "view s = repo_find (run s)"

lemma repo_find_run [simp]: "repo_find (record_event e w) = repo_find w" "repo_find (run_hook V t w) = repo_find w"
  "repo_find (w\<lparr>locks := l\<rparr>) = repo_find w" "repo_find (w\<lparr>disk_of := d\<rparr>) = repo_find w"
  "repo_find (lock_for i w) = repo_find w"
  by (simp_all add: repo_find_def fun_eq_iff record_event_def run_hook_def lock_for_def)

lemma repo_save_view:
  assumes "repo_save S J t w = (r, w')"
  shows "repo_find w' = (if is_ok r then (repo_find w)(tx_id t \<mapsto> t) else repo_find w)"
  using assms txs.sav_ok [of S J t w "()" w'] txs.sav_fail [of S J t w _ w'] by (cases r) auto

lemma verify_files_view: "verify_files V i fs w = (r, w') \<Longrightarrow> repo_find w' = repo_find w"
proof (induction fs arbitrary: w)
  case (Cons f fs)
  obtain x d where h: "hash_file (svc_store V) i (fe_path f) (disk_of w) = (x, d)" by fastforce
  then show ?case
    using Cons.prems Cons.IH [of "w\<lparr>disk_of := d\<rparr>"] by (cases x) (auto simp: on_disk_def split: if_splits)
qed simp

text \<open>The lookups of the service carry the id they were asked for.\<close>

definition ids_ok :: "tx_view \<Rightarrow> bool" where
  "ids_ok m \<longleftrightarrow> (\<forall>i t. m i = Some t \<longrightarrow> tx_id t = i)"

lemma sys_inv_ids: "sys_inv V sha s \<Longrightarrow> ids_ok (view s)"
  by (auto simp: sys_inv_def tx_inv_def tx_ok_def ids_ok_def view_def repo_find_def)

definition abs_next :: "tx_view \<Rightarrow> tx_view \<Rightarrow> bool" where
  "abs_next m m' \<longleftrightarrow> m' = m \<or> abs_step m m'"

lemma abs_next_intros [simp, intro]: "abs_next m m" "abs_step m m' \<Longrightarrow> abs_next m m'"
  by (simp_all add: abs_next_def)

lemma svc_create_refines:
  assumes "svc_create V now uuid c req w = (r, w')"
  shows "abs_next (repo_find w) (repo_find w')"
  using assms
proof (cases rule: svc_create_cases)
  case (failed expiry e)
  then show ?thesis using txs.ins_fail [OF failed(4)] by simp
next
  case (ok t expiry w1)
  have "repo_find w (tx_id t) = None \<and> repo_find w' = (repo_find w)(tx_id t \<mapsto> t)"
    using txs.ins_ok [OF ok(4)] ok(6) by simp
  then show ?thesis using abs_step.create [of "repo_find w" t] ok(3) by (auto simp: create_tx_def)
qed simp

lemma svc_receive_refines:
  assumes "svc_receive V c req w = (r, w')"
  shows "abs_next (repo_find w) (repo_find w')"
  using assms
proof (cases rule: svc_receive_cases)
  case (failed e)
  then show ?thesis using txs.ins_fail [OF failed(3)] by simp
next
  case ok
  then show ?thesis
    using txs.ins_ok [OF ok(3)] abs_step.create [of "repo_find w" "receive_tx c req"] by (auto simp: receive_tx_def)
qed simp

lemma svc_begin_upload_refines:
  "svc_begin_upload V c i p w = (r, w') \<Longrightarrow> repo_find w' = repo_find w"
  by (erule svc_begin_upload_cases) simp_all

lemma svc_open_download_refines:
  "svc_open_download V c i p w = (r, w') \<Longrightarrow> repo_find w' = repo_find w"
  by (erule svc_open_download_cases) simp_all

lemma pending_finish_refines:
  assumes "pending_finish V pu x w = (r, pu', w')" "ids_ok (repo_find w)"
  shows "abs_next (repo_find w) (repo_find w')"
  using assms(1)
proof (cases rule: pending_finish_cases)
  case (save t sf u d r2 w2)
  have "tx_id t = pu_id pu" using save(1) assms(2) by (simp add: ids_ok_def)
  then show ?thesis using abs_step.edit [of "repo_find w" "pu_id pu" t, OF save(1,2)] repo_save_view [OF save(4)] save(7) by auto
qed simp_all

lemma svc_remove_file_refines:
  assumes "svc_remove_file V c i p w = (r, w')" "ids_ok (repo_find w)"
  shows "abs_next (repo_find w) (repo_find w')"
  using assms(1)
proof (cases rule: svc_remove_file_cases)
  case (save t fs d r2 w2)
  have "tx_id t = i" using save(1) assms(2) by (simp add: ids_ok_def)
  then show ?thesis using abs_step.edit [of "repo_find w" i t, OF save(1,3)] repo_save_view [OF save(6)] save(8) by auto
qed simp_all

lemma svc_commit_refines:
  assumes "svc_commit V now c i w = (r, w')" "ids_ok (repo_find w)"
  shows "abs_next (repo_find w) (repo_find w')"
proof -
  have m: "repo_find w2 = repo_find w1" if "repo_save_manifest (svc_store V) (svc_json V) t w1 = (x, w2)" for t w1 w2 x
    using repo_save_manifest_tx(6) [OF that] by (simp add: repo_find_def fun_eq_iff)
  show ?thesis
    using assms(1)
  proof (cases rule: svc_commit_cases)
    case (verify t e)
    then show ?thesis using verify_files_view [OF verify(5)] by simp
  next
    case (manifest t w1 e)
    then show ?thesis using verify_files_view [OF manifest(5)] m [OF manifest(6)] by simp
  next
    case (save t w1 w2 e)
    then show ?thesis using verify_files_view [OF save(5)] m [OF save(6)] repo_save_view [OF save(7)] by simp
  next
    case (ok t w1 w2 w3)
    have "tx_id t = i" using ok(1) assms(2) by (simp add: ids_ok_def)
    then have "repo_find w' = (repo_find w)(i \<mapsto> commit_tx now t)"
      using ok(8) verify_files_view [OF ok(5)] m [OF ok(6)] repo_save_view [OF ok(7)] by simp
    then show ?thesis using abs_step.commit [of "repo_find w" i t, OF ok(1,3)] by auto
  qed simp
qed

lemma svc_mark_delivered_refines:
  assumes "svc_mark_delivered V now i w = (r, w')" "ids_ok (repo_find w)"
  shows "abs_next (repo_find w) (repo_find w')"
  using assms(1)
proof (cases rule: svc_mark_delivered_cases)
  case (save t w1)
  have "tx_id t = i" using save(1) assms(2) by (simp add: ids_ok_def)
  then show ?thesis
    using abs_step.deliver [of "repo_find w" i t, OF save(1,2)] repo_save_view [OF save(3)] save(4) by (auto simp: deliver_tx_def)
qed simp

lemma svc_set_retention_refines:
  assumes "svc_set_retention V c i days w = (r, w')" "ids_ok (repo_find w)"
  shows "abs_next (repo_find w) (repo_find w')"
  using assms(1)
proof (cases rule: svc_set_retention_cases)
  case (save t expiry r1 w1)
  have "tx_id t = i" using save(4) assms(2) by (simp add: ids_ok_def)
  then show ?thesis using abs_step.retain [of "repo_find w" i t, OF save(4,5)] repo_save_view [OF save(7)] save(9) by auto
qed auto

lemma svc_destroy_refines:
  assumes "svc_destroy V i ty actor w = (r, w')" "ids_ok (repo_find w)"
  shows "abs_next (repo_find w) (repo_find w')"
  using assms(1)
proof (cases rule: svc_destroy_cases)
  case (save t e)
  then show ?thesis using repo_save_view [OF save(4)] by simp
next
  case (remove t w1 w2)
  have t: "tx_id t = i" using remove(1) assms(2) by (simp add: ids_ok_def)
  have one: "repo_find w1 = repo_find w \<or> repo_find w1 = (repo_find w)(i \<mapsto> expire_tx t) \<and> state t \<noteq> Expired"
    using remove(2) repo_save_view [of "svc_store V" "svc_json V" "expire_tx t" "lock_for i w" "Inr ()" w1] t
    by (cases "state t = Expired") simp_all
  have "repo_find w' = repo_find w2" using remove(4) by simp
  also have "\<dots> = (if is_ok r then (repo_find w1)(i := None) else repo_find w1)"
    using txs.del_ok [of "svc_store V" i w1 "()" w2] txs.del_fail [of "svc_store V" i w1 _ w2] remove(3)
    by (cases r) auto
  finally have "repo_find w' = (repo_find w)(i := None) \<or> repo_find w' = repo_find w1"
    using one by (auto split: if_splits)
  then show ?thesis
    using one abs_step.remove [of "repo_find w" i t, OF remove(1)] abs_step.expire [of "repo_find w" i t, OF remove(1)]
    by auto
qed simp

lemma sys_start_view:
  assumes "json_sound (svc_json V)" "sys_inv V sha s"
  shows "view (sys_start V s) = view s"
proof -
  let ?S = "svc_store V" and ?w = "run s"
  obtain r d where o: "store_open ?S (disk_of ?w) = (r, d)" by fastforce
  have i1: "tx_inv V sha (index ?w) d"
    using assms(2) tx_inv_all_same [OF _ store_open_same [OF o]] by (simp add: sys_inv_def)
  have i2: "tx_inv V sha (index ?w) (d\<lparr>tmp_counter := 0\<rparr>)"
    by (rule tx_inv_all_same [OF i1]) (simp add: tmp_counter_tx_same)
  let ?w1 = "?w\<lparr>index := [], disk_of := d\<lparr>tmp_counter := 0\<rparr>\<rparr>"
  obtain r2 w2 where l: "repo_load ?S (svc_json V) ?w1 = (r2, w2)" by fastforce
  show ?thesis
  proof (cases r)
    case (Inl e)
    then show ?thesis using o by (simp add: sys_start_def view_def)
  next
    case (Inr u)
    show ?thesis
    proof (cases r2)
      case (Inl e)
      then show ?thesis using o l Inr by (simp add: sys_start_def view_def)
    next
      case r2: (Inr u2)
      have "repo_find w2 i = map_of (index ?w) i" for i
        by (rule load_finds [OF assms(1) _ l [unfolded r2]]) (use i2 in simp)
      then have "repo_find w2 = repo_find ?w" by (simp add: fun_eq_iff repo_find_def)
      moreover have "run (sys_start V s) = w2\<lparr>locks := [], hooks := []\<rparr>"
        using o l Inr r2 by (simp add: sys_start_def)
      ultimately show ?thesis by (simp add: view_def repo_find_def fun_eq_iff)
    qed
  qed
qed

lemma sys_do_refines:
  assumes "sys_inv V sha s" "sys_can a s" "json_sound (svc_json V)"
  shows "abs_next (view s) (view (sys_do V a s))"
proof -
  have i: "ids_ok (repo_find (run s))" using sys_inv_ids [OF assms(1)] by (simp add: view_def)
  have p: "x = (fst x, snd x)" for x :: "'a \<times> 'b" by simp
  show ?thesis
  proof (cases a)
    case (Create now uuid c req)
    then show ?thesis using svc_create_refines [OF p] by (simp add: view_def)
  next
    case (Receive c req)
    then show ?thesis using svc_receive_refines [OF p] by (simp add: view_def)
  next
    case (BeginUpload c j q)
    then show ?thesis using svc_begin_upload_refines [OF p] by (simp add: view_def split_beta)
  next
    case (FinishUpload n x)
    obtain r pu w where b: "pending_finish V (pending s ! n) x (run s) = (r, pu, w)" using prod_cases3 by blast
    then show ?thesis using pending_finish_refines [OF b i] FinishUpload by (simp add: view_def)
  next
    case (RemoveFile c j q)
    then show ?thesis using svc_remove_file_refines [OF p i] by (simp add: view_def)
  next
    case (Commit now c j)
    then show ?thesis using svc_commit_refines [OF p i] by (simp add: view_def)
  next
    case (OpenDownload c j q)
    then show ?thesis using svc_open_download_refines [OF p] by (simp add: view_def)
  next
    case (MarkDelivered now j)
    then show ?thesis using svc_mark_delivered_refines [OF p i] by (simp add: view_def)
  next
    case (Expire j)
    then show ?thesis using svc_destroy_refines [OF p i] by (simp add: view_def svc_expire_def)
  next
    case (AdminDelete c j)
    then show ?thesis using svc_destroy_refines [OF p i] by (simp add: view_def svc_admin_delete_def)
  next
    case (SetRetention c j days)
    then show ?thesis using svc_set_retention_refines [OF p i] by (simp add: view_def)
  next
    case Start
    then show ?thesis using sys_start_view [OF assms(3,1)] by simp
  qed (simp_all add: view_def pending_write_def pending_drop_def split_beta Let_def)
qed

subsection \<open>What the abstract machine keeps\<close>

definition evolves :: "transaction \<Rightarrow> transaction \<Rightarrow> bool" where
  "evolves t t' \<longleftrightarrow>
     tx_id t' = tx_id t \<and> sender t' = sender t \<and> target_user t' = target_user t \<and>
     target_server t' = target_server t \<and> origin_server t' = origin_server t \<and> comment t' = comment t \<and>
     created_at t' = created_at t \<and> state_rank (state t) \<le> state_rank (state t') \<and>
     (state t \<noteq> Open \<longrightarrow> files t' = files t \<and> committed_at t' = committed_at t)"

lemma evolves_refl [simp, intro]: "evolves t t"
  by (simp add: evolves_def)

lemma state_rank_Open: "state_rank st = 0 \<longleftrightarrow> st = Open"
  by (cases st) simp_all

lemma evolves_trans: "evolves t t' \<Longrightarrow> evolves t' t'' \<Longrightarrow> evolves t t''"
  using state_rank_Open [of "state t'"] state_rank_Open [of "state t"] by (fastforce simp: evolves_def)

lemma state_rank_le: "state_rank st \<le> 3"
  by (cases st) simp_all

lemma abs_step_evolves:
  assumes "abs_step m m'" "m i = Some t"
  shows "(\<exists>t'. m' i = Some t' \<and> evolves t t') \<or> m' i = None"
  using assms
  by (induction rule: abs_step.induct)
    (auto simp: evolves_def commit_tx_def deliver_tx_def expire_tx_def state_rank_le)


subsection \<open>Who may change a transaction\<close>

fun may_change :: "action \<Rightarrow> sys \<Rightarrow> transaction_id \<Rightarrow> transaction \<Rightarrow> bool" where
  "may_change (FinishUpload n x) s i t \<longleftrightarrow> pu_id (pending s ! n) = i \<and> state t = Open"
| "may_change (RemoveFile c j p) s i t \<longleftrightarrow> j = i \<and> may_write c t \<and> state t = Open"
| "may_change (Commit now c j) s i t \<longleftrightarrow> j = i \<and> may_write c t \<and> state t = Open"
| "may_change (MarkDelivered now j) s i t \<longleftrightarrow> j = i \<and> state t = Committed"
| "may_change (Expire j) s i t \<longleftrightarrow> j = i"
| "may_change (AdminDelete c j) s i t \<longleftrightarrow> j = i \<and> is_admin c"
| "may_change (SetRetention c j days) s i t \<longleftrightarrow> j = i \<and> is_admin c \<and> state t \<noteq> Expired"
| "may_change _ s i t \<longleftrightarrow> False"

lemma insert_keeps_view:
  assumes "repo_insert S J t0 w = (r, w')" "repo_find w i = Some t"
  shows "repo_find w' i = Some t"
  using assms txs.ins_ok [of S J t0 w "()" w'] txs.ins_fail [of S J t0 w _ w'] by (cases r) auto

lemma svc_create_view: "svc_create V now uuid c req w = (r, w') \<Longrightarrow> repo_find w i = Some t \<Longrightarrow> repo_find w' i = Some t"
  by (erule svc_create_cases) (auto dest: insert_keeps_view)

lemma svc_receive_view: "svc_receive V c req w = (r, w') \<Longrightarrow> repo_find w i = Some t \<Longrightarrow> repo_find w' i = Some t"
  by (erule svc_receive_cases) (auto dest: insert_keeps_view)

lemma pending_finish_view:
  assumes "pending_finish V pu x w = (r, pu', w')" "ids_ok (repo_find w)" "repo_find w i = Some t"
    and "pu_id pu \<noteq> i \<or> state t \<noteq> Open"
  shows "repo_find w' i = Some t"
  using assms(1)
proof (cases rule: pending_finish_cases)
  case (save t0 sf u d r2 w2)
  then show ?thesis using repo_save_view [OF save(4)] assms(2-4) by (auto simp: ids_ok_def)
qed (use assms(3) in simp_all)

lemma svc_remove_file_view:
  assumes "svc_remove_file V c j p w = (r, w')" "ids_ok (repo_find w)" "repo_find w i = Some t"
    and "\<not> (j = i \<and> may_write c t \<and> state t = Open)"
  shows "repo_find w' i = Some t"
  using assms(1)
proof (cases rule: svc_remove_file_cases)
  case (save t0 fs d r2 w2)
  then show ?thesis using repo_save_view [OF save(6)] assms(2-4) by (auto simp: ids_ok_def)
qed (use assms(3) in simp_all)

lemma save_manifest_view:
  "repo_save_manifest S J t w = (r, w') \<Longrightarrow> repo_find w' = repo_find w"
  using repo_save_manifest_tx(6) [of S J t w r w'] by (simp add: repo_find_def fun_eq_iff)

lemma svc_commit_view:
  assumes "svc_commit V now c j w = (r, w')" "ids_ok (repo_find w)" "repo_find w i = Some t"
    and "\<not> (j = i \<and> may_write c t \<and> state t = Open)"
  shows "repo_find w' i = Some t"
  using assms(1)
proof (cases rule: svc_commit_cases)
  case (verify t0 e)
  then show ?thesis using verify_files_view [OF verify(5)] assms(3) by simp
next
  case (manifest t0 w1 e)
  then show ?thesis using verify_files_view [OF manifest(5)] save_manifest_view [OF manifest(6)] assms(3) by simp
next
  case (save t0 w1 w2 e)
  then show ?thesis
    using verify_files_view [OF save(5)] save_manifest_view [OF save(6)] repo_save_view [OF save(7)] assms(3) by simp
next
  case (ok t0 w1 w2 w3)
  then show ?thesis
    using verify_files_view [OF ok(5)] save_manifest_view [OF ok(6)] repo_save_view [OF ok(7)] assms(2-4)
    by (auto simp: ids_ok_def)
qed (use assms(3) in simp)

lemma svc_mark_delivered_view:
  assumes "svc_mark_delivered V now j w = (r, w')" "ids_ok (repo_find w)" "repo_find w i = Some t"
    and "\<not> (j = i \<and> state t = Committed)"
  shows "repo_find w' i = Some t"
  using assms(1)
proof (cases rule: svc_mark_delivered_cases)
  case (save t0 w1)
  then show ?thesis using repo_save_view [OF save(3)] assms(2-4) by (auto simp: ids_ok_def deliver_tx_def)
qed (use assms(3) in simp)

lemma svc_set_retention_view:
  assumes "svc_set_retention V c j days w = (r, w')" "ids_ok (repo_find w)" "repo_find w i = Some t"
    and "\<not> (j = i \<and> is_admin c \<and> state t \<noteq> Expired)"
  shows "repo_find w' i = Some t"
  using assms(1)
proof (cases rule: svc_set_retention_cases)
  case (save t0 expiry r1 w1)
  then show ?thesis using repo_save_view [OF save(7)] assms(2-4) by (auto simp: ids_ok_def)
qed (use assms(3) in auto)

lemma svc_destroy_view:
  assumes "svc_destroy V j ty actor w = (r, w')" "ids_ok (repo_find w)" "repo_find w i = Some t" "j \<noteq> i"
  shows "repo_find w' i = Some t"
  using assms(1)
proof (cases rule: svc_destroy_cases)
  case (save t0 e)
  then show ?thesis using repo_save_view [OF save(4)] assms(3) by simp
next
  case (remove t0 w1 w2)
  have "tx_id t0 = j" using remove(1) assms(2) by (simp add: ids_ok_def)
  then have "repo_find w1 i = Some t"
    using remove(2) assms(3,4) repo_save_view [of "svc_store V" "svc_json V" "expire_tx t0" "lock_for j w" "Inr ()" w1]
    by (cases "state t0 = Expired") simp_all
  then have "repo_find w2 i = Some t" using txs.del_other [OF remove(3)] assms(4) by simp
  then show ?thesis using remove(4) by simp
qed (use assms(3) in simp)

lemma sys_do_view:
  assumes "sys_inv V sha s" "sys_can a s" "json_sound (svc_json V)" "view s i = Some t" "\<not> may_change a s i t"
  shows "view (sys_do V a s) i = Some t"
proof -
  have ids: "ids_ok (repo_find (run s))" using sys_inv_ids [OF assms(1)] by (simp add: view_def)
  have t: "repo_find (run s) i = Some t" using assms(4) by (simp add: view_def)
  have p: "x = (fst x, snd x)" for x :: "'a \<times> 'b" by simp
  note un = view_def [abs_def]
  show ?thesis
  proof (cases a)
    case (Create now uuid c req)
    then show ?thesis using svc_create_view [OF p t] by (simp add: un)
  next
    case (Receive c req)
    then show ?thesis using svc_receive_view [OF p t] by (simp add: un)
  next
    case (BeginUpload c j q)
    then show ?thesis using svc_begin_upload_refines [OF p] t by (simp add: un split_beta)
  next
    case (FinishUpload n x)
    obtain r pu w where b: "pending_finish V (pending s ! n) x (run s) = (r, pu, w)" using prod_cases3 by blast
    then show ?thesis using pending_finish_view [OF b ids t] FinishUpload assms(5) by (simp add: un)
  next
    case (RemoveFile c j q)
    then show ?thesis using svc_remove_file_view [OF p ids t] assms(5) by (simp add: un)
  next
    case (Commit now c j)
    then show ?thesis using svc_commit_view [OF p ids t] assms(5) by (simp add: un)
  next
    case (OpenDownload c j q)
    then show ?thesis using svc_open_download_refines [OF p] t by (simp add: un)
  next
    case (MarkDelivered now j)
    then show ?thesis using svc_mark_delivered_view [OF p ids t] assms(5) by (simp add: un)
  next
    case (Expire j)
    then show ?thesis using svc_destroy_view [OF p ids t] assms(5) by (simp add: un svc_expire_def)
  next
    case (AdminDelete c j)
    then show ?thesis using svc_destroy_view [OF p ids t] assms(5) t by (auto simp: un svc_admin_delete_def)
  next
    case (SetRetention c j days)
    then show ?thesis using svc_set_retention_view [OF p ids t] assms(5) by (simp add: un)
  next
    case Start
    then show ?thesis using sys_start_view [OF assms(3,1)] assms(4) by simp
  qed (use t in \<open>simp_all add: un pending_write_def pending_drop_def split_beta Let_def\<close>)
qed

end
