(* ===== verification/Tx_Restart.thy ===== *)
theory Tx_Restart
  imports Tx_System
begin

section \<open>A start on a disk without errors\<close>

text \<open>
  With no error of the disk ahead, \<open>FileStore::open\<close> and \<open>TransactionRepository::load\<close> succeed
  on the disk of an earlier run, unless a transaction directory has lost its \<^verbatim>\<open>meta.json\<close>.
\<close>

lemma next_fault_none: "faults d = [] \<Longrightarrow> next_fault d = (None, d)"
  by (simp add: next_fault_def)

lemma create_directories_there: "is_directory d p \<Longrightarrow> p \<noteq> [] \<Longrightarrow> create_directories p d = (None, d)"
  by (simp add: create_directories_def is_directory_def is_regular_file_def)

lemma create_directories_one:
  assumes "faults d = []" "node_at d p = None" "node_at d (butlast p) = Some Dir" "p \<noteq> []"
  shows "create_directories p d = (None, set_node p Dir d)"
proof -
  have "missing_dirs d (Suc (length p)) p = ([p], butlast p)"
    using assms by (cases p) simp_all
  then show ?thesis
    using assms by (simp add: create_directories_def is_regular_file_def create_directory_def next_fault_none is_directory_def)
qed

lemma remove_each_clean: "faults d = [] \<Longrightarrow> \<exists>d'. remove_each ps d = (None, d') \<and> faults d' = []"
  by (induction ps arbitrary: d) (simp_all add: next_fault_none drop_node_def)

lemma remove_all_clean: "faults d = [] \<Longrightarrow> \<exists>n d'. remove_all p d = ((None, n), d') \<and> faults d' = []"
  using remove_each_clean [of d "entries_of p d"] by (auto simp: remove_all_def)

lemma store_open_clean:
  assumes "faults d = []" "is_directory d (transactions_dir S)" "node_at d (root S) = Some Dir"
  obtains d' where "store_open S d = (Inr (), d')" "faults d' = []" "is_directory d' (transactions_dir S)"
    "\<And>q. q \<noteq> tmp_dir S \<Longrightarrow> is_directory d' q \<Longrightarrow> is_directory d q"
proof -
  obtain n d1 where m: "remove_all (tmp_dir S) d = ((None, n), d1)" and f: "faults d1 = []"
    using remove_all_clean [OF assms(1)] by blast
  note sh = remove_all_shrunk [OF m]
  have ne: "transactions_dir S \<noteq> []" by (simp add: transactions_dir_def)
  have "\<not> (root S = tmp_dir S \<or> below (root S) (tmp_dir S))"
    "\<not> (transactions_dir S = tmp_dir S \<or> below (transactions_dir S) (tmp_dir S))"
    by (auto simp: tmp_dir_def transactions_dir_def below_def kTmpDir_def kTransactionsDir_def)
  then have keep: "node_at d1 (root S) = Some Dir" "is_directory d1 (transactions_dir S)"
    using agree_node [OF shrunk_agree [OF sh(1)], of "root S"] assms(2,3)
      agree_dir [OF shrunk_agree [OF sh(1)], of "transactions_dir S"] by simp_all
  have "node_at d1 (tmp_dir S) = None" using sh(3) [OF refl] by blast
  then have "create_directories (tmp_dir S) d1 = (None, set_node (tmp_dir S) Dir d1)"
    using f keep by (intro create_directories_one) (simp_all add: tmp_dir_def)
  then have "store_open S d = (Inr (), set_node (tmp_dir S) Dir d1)"
    using create_directories_there [OF assms(2) ne] m by (simp add: store_open_def)
  moreover have "is_directory (set_node (tmp_dir S) Dir d1) (transactions_dir S)"
    using keep(2) by (simp add: is_directory_def set_node_def)
  moreover have "is_directory d q" if "q \<noteq> tmp_dir S" "is_directory (set_node (tmp_dir S) Dir d1) q" for q
  proof -
    have "is_directory d1 q" using that by (simp add: is_directory_def set_node_def)
    then show ?thesis using sh(1) [unfolded shrunk_def, rule_format, of q]
      by (auto simp: is_directory_def)
  qed
  ultimately show ?thesis using that f by (simp add: set_node_def)
qed

lemma doc_loop_clean:
  "faults d = [] \<Longrightarrow> h = File bs \<Longrightarrow> \<exists>s. doc_loop name h out d = (Inr s, d)"
proof (induction name h out d arbitrary: bs rule: doc_loop.induct)
  case (1 name h out d)
  have f: "fread kDocBuf h d = (Inr (take kDocBuf bs, File (drop kDocBuf bs)), d)"
    using "1.prems" by (simp add: fread_def next_fault_none)
  show ?case
  proof (cases "length (take kDocBuf bs) < kDocBuf")
    case True
    then show ?thesis using f by (auto simp: doc_loop.simps [of name h] split: if_splits)
  next
    case False
    from "1.IH" [OF f [symmetric] refl refl False "1.prems"(1) refl] f False
    show ?thesis by (simp add: doc_loop.simps [of name h])
  qed
qed

lemma read_document_clean:
  assumes "faults d = []" "doc_text S d i dc = Some s"
  shows "read_document S i dc d = (Inr s, d)"
proof -
  obtain bs where bs: "node_at d (doc_path S i dc) = Some (File bs)"
    using assms(2) by (auto simp: doc_text_def file_bytes_def split: option.splits node.splits)
  obtain s' where "doc_loop (file_name dc) (File bs) [] d = (Inr s', d)"
    using doc_loop_clean [OF assms(1) refl] by blast
  then have r: "read_document S i dc d = (Inr s', d)"
    using bs assms(1) by (simp add: read_document_def open_file_rb_def fopen_rb_def next_fault_none doc_path_def)
  then show ?thesis using read_document_effect(2) [OF r refl] assms(2) by simp
qed

lemma load_loop_clean:
  "faults d = [] \<Longrightarrow> \<forall>i \<in> set ids. \<exists>t. meta_at S J d i = Some t \<and> tx_id t = i \<Longrightarrow>
     \<exists>ix. load_loop S J ids loaded d = (Inr ix, d)"
proof (induction ids arbitrary: loaded)
  case (Cons i ids)
  then obtain t where t: "meta_at S J d i = Some t" "tx_id t = i" by auto
  then obtain s where s: "doc_text S d i Meta = Some s" "decode_meta J s = Inr t"
    by (auto simp: meta_at_def split: option.splits sum.splits)
  show ?case using Cons read_document_clean [OF Cons.prems(1) s(1)] s(2) t(2) by simp
qed simp

lemma walk_clean: "faults d = [] \<Longrightarrow> walk n d = (None, d)"
  by (induction n) (simp_all add: fs_sync_def syscall_def next_fault_none)

lemma repo_load_clean:
  assumes "faults (disk_of w) = []" "is_directory (disk_of w) (transactions_dir S)"
    and "\<And>i. valid_id i \<Longrightarrow> is_directory (disk_of w) (transaction_dir S i) \<Longrightarrow>
      \<exists>t. meta_at S J (disk_of w) i = Some t \<and> tx_id t = i"
  shows "\<exists>w'. repo_load S J w = (Inr (), w')"
proof -
  obtain ids where l: "list_transactions S (disk_of w) = (Inr ids, disk_of w)"
    using assms(1,2) by (simp add: list_transactions_def walk_clean Let_def del: walk.simps)
  have "\<forall>i \<in> set ids. \<exists>t. meta_at S J (disk_of w) i = Some t \<and> tx_id t = i"
    using list_transactions_effect(2) [OF l refl] assms(3) by blast
  from load_loop_clean [OF assms(1) this, of "[]"] obtain ix where
    "load_loop S J ids [] (disk_of w) = (Inr ix, disk_of w)" by blast
  then show ?thesis using l by (simp add: repo_load_def on_disk_def)
qed


text \<open>The disk of an earlier run on which no removal was interrupted.\<close>

lemma sys_start_succeeds:
  assumes "sys_inv V sha s" "json_sound (svc_json V)" "faults (disk_of (run s)) = []"
    and "is_directory (disk_of (run s)) (transactions_dir (svc_store V))"
    and "node_at (disk_of (run s)) (root (svc_store V)) = Some Dir"
    and "\<And>i. valid_id i \<Longrightarrow> is_directory (disk_of (run s)) (transaction_dir (svc_store V) i) \<Longrightarrow>
      doc_text (svc_store V) (disk_of (run s)) i Meta \<noteq> None"
  shows "up (sys_start V s)"
proof -
  let ?S = "svc_store V" and ?w = "run s"
  obtain d where o: "store_open ?S (disk_of ?w) = (Inr (), d)" "faults d = []" "is_directory d (transactions_dir ?S)"
    "\<And>q. q \<noteq> tmp_dir ?S \<Longrightarrow> is_directory d q \<Longrightarrow> is_directory (disk_of ?w) q"
    using store_open_clean [OF assms(3-5)] by blast
  let ?d = "d\<lparr>tmp_counter := 0\<rparr>"
  have "tx_same ?S j (disk_of ?w) ?d" for j
    using store_open_same [OF o(1), of j] by (simp add: tmp_counter_tx_same)
  from tx_inv_all_same [OF _ this] have inv: "tx_inv V sha (index ?w) ?d"
    using assms(1) by (simp add: sys_inv_def)
  have "\<exists>t. meta_at ?S (svc_json V) ?d i = Some t \<and> tx_id t = i"
    if i: "valid_id i" "is_directory ?d (transaction_dir ?S i)" for i
  proof -
    have "transaction_dir ?S i \<noteq> tmp_dir ?S"
      by (auto simp: transaction_dir_def transactions_dir_def tmp_dir_def)
    then have "is_directory (disk_of ?w) (transaction_dir ?S i)"
      using o(4) i(2) by (simp add: is_directory_def)
    then have "doc_text ?S ?d i Meta \<noteq> None"
      using assms(6) [OF i(1)] tx_same_views(2) [OF store_open_same [OF o(1)], of i Meta]
      by (simp add: doc_text_def file_bytes_def)
    moreover from this obtain t where t: "tx_ok V sha ?d i t"
      using inv unfolding tx_inv_def by (metis not_None_eq)
    ultimately have "doc_text ?S ?d i Meta = Some (encode_meta (svc_json V) t)"
      by (auto simp: tx_ok_def split: if_splits)
    then show ?thesis
      using meta_text.dec_enc [of "svc_json V" t] assms(2) tx_ok_parts(1,2) [OF t] by (simp add: meta_at_def)
  qed
  from repo_load_clean [of "?w\<lparr>index := [], disk_of := ?d\<rparr>" ?S "svc_json V"] this o(2,3)
  obtain w' where "repo_load ?S (svc_json V) (?w\<lparr>index := [], disk_of := ?d\<rparr>) = (Inr (), w')"
    by (auto simp: is_directory_def)
  then show ?thesis using o(1) by (simp add: sys_start_def)
qed

end
