(* ===== verification/Tx_Requests.thy ===== *)
theory Tx_Requests
  imports Tx_Restart "HOL-Library.Code_Target_Nat"
begin

section \<open>Requests: answers, refusals and the audit trail\<close>

text \<open>
  What the caller of one operation of the service is told: which requests are refused and with
  which error code, what a successful request has done, what the lists contain, and what goes
  into the business log.
\<close>

subsection \<open>The business log\<close>

lemma repo_insert_blog: "repo_insert S J t (w :: world) = (r, w') \<Longrightarrow> blog w' = blog w"
  by (erule repo_insert_cases) simp_all

lemma repo_save_blog: "repo_save S J t (w :: world) = (r, w') \<Longrightarrow> blog w' = blog w"
  by (erule repo_save_cases) simp_all

lemma repo_save_manifest_blog: "repo_save_manifest S J t (w :: world) = (r, w') \<Longrightarrow> blog w' = blog w"
  by (auto simp: repo_save_manifest_def on_disk_eq)

lemma repo_remove_blog: "repo_remove S i (w :: world) = (r, w') \<Longrightarrow> blog w' = blog w"
  by (erule repo_remove_cases) simp_all

lemma verify_files_blog: "verify_files V i fs w = (r, w') \<Longrightarrow> blog w' = blog w"
proof (induction fs arbitrary: w)
  case (Cons f fs)
  obtain x d where h: "hash_file (svc_store V) i (fe_path f) (disk_of w) = (x, d)" by fastforce
  then show ?case
    using Cons.prems Cons.IH [of "w\<lparr>disk_of := d\<rparr>"] by (cases x) (auto simp: on_disk_def split: if_splits)
qed simp

lemmas repo_blog = repo_insert_blog repo_save_blog repo_save_manifest_blog repo_remove_blog verify_files_blog

lemma svc_create_blog:
  "svc_create V now uuid c req w = (r, w') \<Longrightarrow>
     blog w' = blog w @ (case r of Inl _ \<Rightarrow> [] | Inr t \<Rightarrow> [event_for TxCreated t c])"
  by (erule svc_create_cases) (auto dest: repo_blog)

lemma svc_receive_blog: "svc_receive V c req w = (r, w') \<Longrightarrow> blog w' = blog w"
  by (erule svc_receive_cases) (auto dest: repo_blog)

lemma pending_finish_blog:
  "pending_finish V pu x w = (r, pu', w') \<Longrightarrow>
     (case r of Inl _ \<Rightarrow> blog w' = blog w
      | Inr f \<Rightarrow> \<exists>t. repo_find w' (tx_id t) = Some t \<and> blog w' = blog w @ [added_event t (pu_caller pu) f])"
proof (erule pending_finish_cases)
  fix t :: transaction and sf u d r2 w2
  let ?t = "t\<lparr>files := upsert_file (files t) (entry_of sf)\<rparr>"
  assume s: "repo_save (svc_store V) (svc_json V) ?t ((lock_for (pu_id pu) w)\<lparr>disk_of := d\<rparr>) = (r2, w2)"
    and r: "r = (case r2 of Inl e \<Rightarrow> Inl e | Inr _ \<Rightarrow> Inr (entry_of sf))"
    and w': "w' = (if is_ok r2 then record_event (added_event ?t (pu_caller pu) (entry_of sf)) w2 else w2)"
  show ?thesis
  proof (cases r2)
    case (Inr v)
    then have "repo_find w' (tx_id ?t) = Some ?t" using repo_save_view [OF s] w' by simp
    then show ?thesis using repo_blog(2) [OF s] Inr r w' by (auto intro!: exI [of _ ?t])
  qed (use repo_blog(2) [OF s] r w' in simp)
qed simp_all

lemma svc_remove_file_blog:
  "svc_remove_file V c i p w = (r, w') \<Longrightarrow>
     (case r of Inl _ \<Rightarrow> blog w' = blog w
      | Inr _ \<Rightarrow> \<exists>t. repo_find w' (tx_id t) = Some t \<and>
          blog w' = blog w @ [(event_for FileRemoved t c)\<lparr>ev_file := Some p\<rparr>])"
proof (erule svc_remove_file_cases)
  fix t :: transaction and fs d r2 w2
  let ?t = "t\<lparr>files := fs\<rparr>"
  assume s: "repo_save (svc_store V) (svc_json V) ?t ((lock_for i w)\<lparr>disk_of := d\<rparr>) = (r2, w2)" and r: "r = r2"
    and w': "w' = (if is_ok r2 then record_event ((event_for FileRemoved ?t c)\<lparr>ev_file := Some p\<rparr>) w2 else w2)"
  show ?thesis
  proof (cases r2)
    case (Inr v)
    then have "repo_find w' (tx_id ?t) = Some ?t" using repo_save_view [OF s] w' by simp
    then show ?thesis using repo_blog(2) [OF s] Inr r w' by (auto intro!: exI [of _ ?t])
  qed (use repo_blog(2) [OF s] r w' in simp)
qed simp_all

lemma svc_commit_blog:
  assumes "svc_commit V now c i w = (r, w')"
  shows "blog w' = blog w @ (case r of Inl _ \<Rightarrow> []
    | Inr t \<Rightarrow> [file_event (if is_origin_peer c t then Received else EvCommitted) t c])"
  using assms
proof (cases rule: svc_commit_cases)
  case (verify t e)
  then show ?thesis using repo_blog(5) [OF verify(5)] by simp
next
  case (manifest t w1 e)
  then show ?thesis using repo_blog(5) [OF manifest(5)] repo_blog(3) [OF manifest(6)] by simp
next
  case (save t w1 w2 e)
  then show ?thesis using repo_blog(5) [OF save(5)] repo_blog(3) [OF save(6)] repo_blog(2) [OF save(7)] by simp
next
  case (ok t w1 w2 w3)
  then show ?thesis using repo_blog(5) [OF ok(5)] repo_blog(3) [OF ok(6)] repo_blog(2) [OF ok(7)] by simp
qed simp

lemma svc_mark_delivered_blog:
  assumes "svc_mark_delivered V now i w = (r, w')"
  shows "case r of Inl _ \<Rightarrow> blog w' = blog w
    | Inr _ \<Rightarrow> \<exists>t. repo_find w' (tx_id t) = Some t \<and> state t = Delivered \<and>
        blog w' = blog w @ [file_event Forwarded t system_caller]"
  using assms
proof (cases rule: svc_mark_delivered_cases)
  case (save t w1)
  show ?thesis
  proof (cases r)
    case (Inr v)
    then have "repo_find w' (tx_id (deliver_tx now t)) = Some (deliver_tx now t)"
      using repo_save_view [OF save(3)] save(4) by simp
    then show ?thesis
      using repo_blog(2) [OF save(3)] Inr save(4) by (auto simp: deliver_tx_def intro!: exI [of _ "deliver_tx now t"])
  qed (use repo_blog(2) [OF save(3)] save(4) in simp)
qed simp

lemma svc_destroy_blog:
  assumes "svc_destroy V i ty actor w = (r, w')"
  shows "case r of Inl _ \<Rightarrow> blog w' = blog w
    | Inr _ \<Rightarrow> \<exists>t. repo_find w i = Some t \<and> repo_find w' i = None \<and>
        blog w' = blog w @ [event_for ty (expire_tx t) actor]"
  using assms
proof (cases rule: svc_destroy_cases)
  case (save t e)
  then show ?thesis using repo_blog(2) [OF save(4)] by simp
next
  case (remove t w1 w2)
  have "blog w1 = blog w"
    using remove(2) repo_blog(2) [of "svc_store V" "svc_json V" "expire_tx t" "lock_for i w" "Inr ()" w1]
    by (auto split: if_splits)
  then have b: "blog w2 = blog w" using repo_blog(4) [OF remove(3)] by simp
  show ?thesis
  proof (cases r)
    case (Inr v)
    then have "repo_find w' i = None" using txs.del_ok [OF remove(3) [unfolded Inr]] remove(4) by simp
    then show ?thesis using b Inr remove(1,4) by (auto simp: record_event_def)
  qed (use b remove(4) in simp)
qed simp

lemma svc_set_retention_blog:
  assumes "svc_set_retention V c i days w = (r, w')"
  shows "blog w' = blog w @ (case r of Inl _ \<Rightarrow> []
    | Inr t \<Rightarrow> [(event_for RetentionChanged t c)\<lparr>ev_retention_days := Some days\<rparr>])"
  using assms
proof (cases rule: svc_set_retention_cases)
  case (save t expiry r1 w1)
  then show ?thesis using repo_blog(2) [OF save(7)] by (cases r1) simp_all
qed auto



subsection \<open>Refusals\<close>

text \<open>Why a request to change, and a request to read, transaction \<open>i\<close> is refused, if it is.\<close>

definition write_refusal :: "caller \<Rightarrow> transaction_id \<Rightarrow> world \<Rightarrow> err_code option" where
  "write_refusal c i w =
     (case repo_find w i of
        None \<Rightarrow> Some NotFound
      | Some t \<Rightarrow>
          if \<not> may_write c t then Some Forbidden
          else if state t = Expired then Some Gone else if state t \<noteq> Open then Some Conflict else None)"

definition read_refusal :: "service \<Rightarrow> caller \<Rightarrow> transaction_id \<Rightarrow> relative_path \<Rightarrow> world \<Rightarrow> err_code option" where
  "read_refusal V c i p w =
     (case repo_find w i of
        None \<Rightarrow> Some NotFound
      | Some t \<Rightarrow>
          if \<not> may_read c t (is_recipient (svc_options V)) then Some Forbidden
          else if state t = Expired then Some Gone else if state t = Open then Some Conflict
          else if find_file (files t) p = None then Some NotFound else None)"

definition refused_with :: "err_code \<Rightarrow> 'a result \<Rightarrow> bool" where
  "refused_with e r \<longleftrightarrow> (case r of Inl x \<Rightarrow> code x = e | Inr _ \<Rightarrow> False)"

lemma refused_with_simps [simp]: "refused_with e (fail e' d) \<longleftrightarrow> e' = e" "refused_with e (Inl x) \<longleftrightarrow> code x = e"
  "\<not> refused_with e (Inr v)"
  by (simp_all add: refused_with_def fail_def)

lemma require_mutable_refusal:
  "st \<noteq> Open \<Longrightarrow> \<exists>x. require_mutable st = Inl x \<and> code x = (if st = Expired then Gone else Conflict)"
  by (cases st) (simp_all add: fail_def)

lemma write_refusal_cases:
  assumes "write_refusal c i w = Some e"
  obtains (none) "repo_find w i = None" "e = NotFound"
  | (access) t where "repo_find w i = Some t" "\<not> may_write c t" "e = Forbidden"
  | (closed) t where "repo_find w i = Some t" "may_write c t" "state t \<noteq> Open" "e = (if state t = Expired then Gone else Conflict)"
  using assms by (auto simp: write_refusal_def split: option.splits if_splits)

text \<open>
  C18. Requests to change a transaction are refused before anything happens. An upload, the removal
  of a file or a commit is refused with \<open>notfound\<close> when there is no such transaction,
  with \<open>forbidden\<close> when the caller is neither its sender nor the peer it came from, with \<open>gone\<close>
  when it has expired and with \<open>conflict\<close> when it is already committed or delivered; the
  repository, the disk and the log are as before.
\<close>

theorem write_refusals:
  assumes "write_refusal c i w = Some e"
  shows "refused_with e (fst (svc_begin_upload V c i p w)) \<and> snd (svc_begin_upload V c i p w) = lock_for i w \<and>
    refused_with e (fst (svc_remove_file V c i p w)) \<and> snd (svc_remove_file V c i p w) = lock_for i w \<and>
    refused_with e (fst (svc_commit V now c i w)) \<and> snd (svc_commit V now c i w) = lock_for i w"
  using assms
proof (cases rule: write_refusal_cases)
  case none
  then show ?thesis
    by (simp add: svc_begin_upload_def svc_remove_file_def svc_commit_def Let_def not_found_def)
next
  case (access t)
  then show ?thesis
    by (simp add: svc_begin_upload_def svc_remove_file_def svc_commit_def Let_def forbidden_def)
next
  case (closed t)
  obtain x where x: "require_mutable (state t) = Inl x" "code x = e"
    using require_mutable_refusal [OF closed(3)] closed(4) by blast
  have y: "check_transition (state t) Committed = fail e
      (''transaction is '' @ state_name (state t) @ '', cannot become '' @ state_name Committed)"
    using closed(3,4) by (cases "state t") (simp_all add: check_transition_def)
  show ?thesis
    using closed x y by (simp add: svc_begin_upload_def svc_remove_file_def svc_commit_def Let_def) (simp add: fail_def)
qed

definition sample_world :: world where
  "sample_world =
     \<lparr>index = [(sample_id, sample_tx)], disk_of = \<lparr>tree = [], faults = [], tmp_counter = 0\<rparr>,
      blog = [], locks = [], hooks = []\<rparr>"

definition stranger :: caller where
  "stranger = \<lparr>caller_name = ''eve'', is_peer = False, is_admin = True\<rparr>"

lemma sample_world_refuses: "write_refusal stranger sample_id sample_world = Some Forbidden"
  "\<And>V. is_recipient (svc_options V) = None \<Longrightarrow> read_refusal V stranger sample_id p sample_world = Some Forbidden"
  by (simp_all add: write_refusal_def read_refusal_def sample_world_def repo_find_def stranger_def sample_tx_def
      may_write_def may_read_def is_sender_def is_target_def is_origin_peer_def)

theorem write_refusals_witness:
  "\<forall>V. refused_with Forbidden (fst (svc_commit V 0 stranger sample_id sample_world))"
  using write_refusals [OF sample_world_refuses(1)] by simp

text \<open>
  C19. Files are read only by those who may. A download is refused with \<open>notfound\<close> when there is no
  such transaction or file, with \<open>forbidden\<close> when the caller is not the sender, a recipient or the peer
  it came from (being an administrator gives no access to files), with \<open>gone\<close> when it has
  expired and with \<open>conflict\<close> while it is open; nothing changes. Otherwise the file is opened.
\<close>

theorem read_refusals:
  "svc_open_download V c i p w =
     (case read_refusal V c i p w of
        None \<Rightarrow> on_disk (open_read (svc_store V) i p) w
      | Some e \<Rightarrow> (fst (svc_open_download V c i p w), w)) \<and>
   (case read_refusal V c i p w of
      None \<Rightarrow> True | Some e \<Rightarrow> refused_with e (fst (svc_open_download V c i p w)))"
proof (cases "repo_find w i")
  case None
  then show ?thesis by (simp add: svc_open_download_def read_refusal_def not_found_def)
next
  case (Some t)
  then show ?thesis
    by (cases "state t") (simp_all add: svc_open_download_def read_refusal_def forbidden_def fail_def)
qed


subsection \<open>New transactions\<close>

text \<open>
  C20. A new transaction is what was asked for, within the limits. When \<open>create\<close> succeeds the caller is
  not a peer, the comment has at most the allowed number of code points and no control
  character, the id was not in use, and the transaction is stored open and without files
  under its id, sent by the caller to the named user, and expires a whole number of days after
  its creation: between one day and the smaller of 3650 and the configured maximum when
  the caller chose the number.
\<close>

theorem create_result:
  assumes "svc_create V now uuid c req w = (Inr t, w')"
  shows "\<not> is_peer c \<and> repo_find w uuid = None \<and> repo_find w' = (repo_find w)(uuid \<mapsto> t) \<and>
    tx_id t = uuid \<and> sender t = caller_name c \<and> target_user t = cr_target_user req \<and> target_user t \<noteq> [] \<and>
    comment t = cr_comment req \<and> code_points (comment t) \<le> max_comment_length (svc_options V) \<and>
    \<not> list_ex control_char (comment t) \<and> state t = Open \<and> files t = [] \<and> created_at t = now \<and>
    (\<exists>days. expires t = now + 86400 * days \<and> 1 \<le> days \<and> days \<le> 3650 \<and>
       days = (if cr_retention_days req = 0 then default_retention_days (svc_options V) else cr_retention_days req) \<and>
       cr_retention_days req \<le> max_retention_days (svc_options V))"
  using assms
proof (cases rule: svc_create_cases)
  case (ok t' expiry w1)
  have "expiry = now + 86400 * create_days V req" "1 \<le> create_days V req" "create_days V req \<le> 3650"
    using ok(2) by (auto simp: expires_at_Inr kMaxRetentionDays_def)
  moreover have "repo_find w uuid = None \<and> repo_find w' = (repo_find w)(uuid \<mapsto> t)"
    using txs.ins_ok [OF ok(4)] ok(3,5,6) by (simp add: create_tx_def)
  ultimately show ?thesis
    using ok(1,3,5) by (auto simp: create_ok_def create_tx_def create_days_def check_comment_iff)
qed simp_all

definition sample_request :: create_request where
  "sample_request = \<lparr>cr_target_user = ''bob'', cr_target_server = [], cr_retention_days = 3, cr_comment = ''hi''\<rparr>"

definition plain_service :: service where
  "plain_service =
     \<lparr>svc_store = \<lparr>root = [], evp_of = sample_evp\<rparr>, svc_json = sample_json,
      svc_options = \<lparr>local_server = ''srv1'', default_retention_days = 7, max_retention_days = 30,
        max_comment_length = 256, check_destination = None, is_recipient = None, on_committed = False\<rparr>\<rparr>"

definition plain_world :: world where
  "plain_world =
     \<lparr>index = [], disk_of = \<lparr>tree = [([kTransactionsDir], Dir), ([kTmpDir], Dir)], faults = [], tmp_counter = 0\<rparr>,
      blog = [], locks = [], hooks = []\<rparr>"

definition sender_ann :: caller where
  "sender_ann = \<lparr>caller_name = ''ann'', is_peer = False, is_admin = False\<rparr>"

lemma plain_create: "is_ok (fst (svc_create plain_service 1000000 sample_id sender_ann sample_request plain_world))"
  by code_simp

theorem create_result_witness:
  "\<exists>t w'. svc_create plain_service 1000000 sample_id sender_ann sample_request plain_world = (Inr t, w') \<and>
     repo_find w' sample_id = Some t \<and> sender t = ''ann''"
proof -
  obtain t w' where s: "svc_create plain_service 1000000 sample_id sender_ann sample_request plain_world = (Inr t, w')"
    using plain_create by (metis is_ok_iff prod.collapse)
  from create_result [OF s] show ?thesis using s by (auto simp: sender_ann_def)
qed

subsection \<open>Lists\<close>

lemma repo_find_if_set:
  assumes "distinct (map fst (index w))"
  shows "set (repo_find_if P w) = {t. P t \<and> (\<exists>i. repo_find w i = Some t)}"
  using map_of_eq_Some_iff [OF assms] by (force simp: repo_find_if_def repo_find_def)

lemma newest_first_set [simp]: "set (newest_first ts) = set ts"
  by (simp add: newest_first_def)

lemma newest_first_sorted:
  "sorted_wrt (\<lambda>a b. created_at b \<le> created_at a) (newest_first ts)"
proof -
  have "sorted (map (\<lambda>t. (- created_at t, tx_id t)) (newest_first ts))"
    by (simp add: newest_first_def)
  then have "sorted_wrt (\<lambda>a b. (- created_at a, tx_id a) \<le> (- created_at b, tx_id b)) (newest_first ts)"
    by (simp add: sorted_map)
  then show ?thesis by (rule sorted_wrt_mono_rel [rotated]) (auto simp: less_eq_prod_def)
qed

text \<open>
  C21. The inbox and the outbox are complete and only that. A user's outbox has exactly the
  transactions of which they are the sender, the inbox exactly the committed and delivered ones
  addressed to them; both are ordered from the newest to the oldest; whatever is listed the user may
  also get; and a peer sees nothing.
\<close>

theorem mailbox_contents:
  assumes "distinct (map fst (index w))"
  shows "set (svc_list V c BoxOut w) = {t. \<not> is_peer c \<and> is_sender c t \<and> (\<exists>i. repo_find w i = Some t)} \<and>
    set (svc_list V c BoxIn w) = {t. \<not> is_peer c \<and> is_target c t (is_recipient (svc_options V)) \<and>
      (state t = Committed \<or> state t = Delivered) \<and> (\<exists>i. repo_find w i = Some t)} \<and>
    sorted_wrt (\<lambda>a b. created_at b \<le> created_at a) (svc_list V c b w) \<and>
    (\<forall>t i. t \<in> set (svc_list V c b w) \<and> repo_find w i = Some t \<longrightarrow> svc_get V c i w = Inr t)"
proof -
  have m: "may_read c t (is_recipient (svc_options V))" if "t \<in> set (svc_list V c b w)" for t
    using that by (cases b) (auto simp: svc_list_def repo_find_if_set [OF assms] may_read_def split: if_splits)
  then show ?thesis
    using newest_first_sorted
    by (auto simp: svc_list_def svc_get_def repo_find_if_set [OF assms])
qed

lemma sample_world_find: "repo_find sample_world i = Some t \<longleftrightarrow> i = sample_id \<and> t = sample_tx"
  "distinct (map fst (index sample_world))"
  by (auto simp: sample_world_def repo_find_def)

definition sender_alice :: caller where
  "sender_alice = \<lparr>caller_name = ''alice'', is_peer = False, is_admin = False\<rparr>"

theorem mailbox_contents_witness:
  "set (svc_list plain_service sender_alice BoxOut sample_world) = {sample_tx} \<and>
   svc_get plain_service sender_alice sample_id sample_world = Inr sample_tx"
proof -
  note m = mailbox_contents [OF sample_world_find(2), of plain_service sender_alice BoxOut]
  have s: "is_sender sender_alice sample_tx" "\<not> is_peer sender_alice"
    by (simp_all add: sender_alice_def is_sender_def sample_tx_def)
  have "set (svc_list plain_service sender_alice BoxOut sample_world) =
      {t. \<not> is_peer sender_alice \<and> is_sender sender_alice t \<and> t = sample_tx}"
    using m unfolding sample_world_find by simp
  also have "\<dots> = {sample_tx}" using s by blast
  finally have l: "set (svc_list plain_service sender_alice BoxOut sample_world) = {sample_tx}" .
  have "repo_find sample_world sample_id = Some sample_tx" by (simp only: sample_world_find)
  then show ?thesis using m l by blast
qed

text \<open>
  C22. Retention and forwarding find exactly their work. \<open>list_expired\<close> gives the ids of exactly the
  transactions whose expiry has come, \<open>list_outgoing\<close> those that are committed here, were
  not received from a peer and have another server as target; each of these is what \<open>outgoing\<close>
  hands out.
\<close>

theorem work_lists:
  assumes "distinct (map fst (index w))" "\<And>i t. repo_find w i = Some t \<Longrightarrow> tx_id t = i"
  shows "set (svc_list_expired now w) = {i. \<exists>t. repo_find w i = Some t \<and> expires t \<le> now} \<and>
    set (svc_list_outgoing w) = {i. \<exists>t. repo_find w i = Some t \<and> svc_outgoing i w = Inr t} \<and>
    (\<forall>i t. repo_find w i = Some t \<longrightarrow> (svc_outgoing i w = Inr t \<longleftrightarrow>
       state t = Committed \<and> origin_server t = [] \<and> target_server t \<noteq> []))"
proof -
  have ids: "tx_id ` {t. P t \<and> (\<exists>i. repo_find w i = Some t)} = {i. \<exists>t. repo_find w i = Some t \<and> P t}" for P
    using assms(2) by force
  have o: "svc_outgoing i w = Inr t \<longleftrightarrow> is_outgoing t" if "repo_find w i = Some t" for i t
    using that by (auto simp: svc_outgoing_def fail_def)
  have "set (svc_list_expired now w) = {i. \<exists>t. repo_find w i = Some t \<and> expires t \<le> now}"
    unfolding svc_list_expired_def is_expired_def by (simp add: repo_find_if_set [OF assms(1)] ids)
  moreover have "set (svc_list_outgoing w) = {i. \<exists>t. repo_find w i = Some t \<and> is_outgoing t}"
    unfolding svc_list_outgoing_def by (simp add: repo_find_if_set [OF assms(1)] ids)
  ultimately show ?thesis using o by (auto simp: is_outgoing_def)
qed

theorem work_lists_witness:
  "set (svc_list_expired 1700086400 sample_world) = {sample_id} \<and> set (svc_list_outgoing sample_world) = {}"
proof -
  have "tx_id t = i" if "repo_find sample_world i = Some t" for i t
    using that unfolding sample_world_find by (simp add: sample_tx_def)
  note w = work_lists [OF sample_world_find(2) this, of 1700086400]
  have t: "expires sample_tx = 1700086400" "target_server sample_tx = []"
    by (simp_all add: sample_tx_def)
  have "repo_find sample_world sample_id = Some sample_tx" by (simp only: sample_world_find)
  then have o: "svc_outgoing sample_id sample_world \<noteq> Inr sample_tx" using w t(2) by blast
  have "{i. \<exists>t. repo_find sample_world i = Some t \<and> expires t \<le> 1700086400} = {sample_id}"
    unfolding sample_world_find using t(1) by simp
  moreover have "{i. \<exists>t. repo_find sample_world i = Some t \<and> svc_outgoing i sample_world = Inr t} = {}"
    unfolding sample_world_find using o by blast
  ultimately show ?thesis using w by simp
qed

end
