(* ===== verification/Tx_Properties.thy ===== *)
theory Tx_Properties
  imports Tx_Restart "HOL-Library.Code_Target_Nat"
begin

section \<open>What the transaction service guarantees\<close>

text \<open>
  The theorems on the system of \<open>Tx_System\<close>, over every interleaving of its actions, every
  schedule of disk errors, crashes and restarts, and a run of a small server on which each is
  applied.
\<close>

subsection \<open>A run\<close>

definition sample_service :: service where
  "sample_service =
     \<lparr>svc_store = \<lparr>root = [''data''], evp_of = sample_evp\<rparr>, svc_json = sample_json,
      svc_options = \<lparr>local_server = ''srv1'', default_retention_days = 7, max_retention_days = 30,
        max_comment_length = 256, check_destination = None, is_recipient = None, on_committed = True\<rparr>\<rparr>"

definition ann :: caller where
  "ann = \<lparr>caller_name = ''ann'', is_peer = False, is_admin = False\<rparr>"

definition bob :: caller where
  "bob = \<lparr>caller_name = ''bob'', is_peer = False, is_admin = False\<rparr>"

definition root_admin :: caller where
  "root_admin = \<lparr>caller_name = ''root'', is_peer = False, is_admin = True\<rparr>"

definition sample_path :: relative_path where
  "sample_path = ''docs/a.txt''"

definition fresh_sys :: sys where
  "fresh_sys =
     \<lparr>up = False,
      run = \<lparr>index = [], disk_of = \<lparr>tree = [], faults = [], tmp_counter = 0\<rparr>, blog = [], locks = [], hooks = []\<rparr>,
      pending = []\<rparr>"

definition sample_actions :: "action list" where
  "sample_actions =
     [Start,
      Create 1000000 sample_id ann
        \<lparr>cr_target_user = ''bob'', cr_target_server = [], cr_retention_days = 3, cr_comment = ''hi''\<rparr>,
      BeginUpload ann sample_id sample_path, WriteChunk 0 [1, 2], WriteChunk 0 [3], FinishUpload 0 None]"

definition sample_created :: sys where
  "sample_created = sys_run sample_service (take 2 sample_actions) fresh_sys"

definition sample_open :: sys where
  "sample_open = sys_run sample_service sample_actions fresh_sys"

definition sample_committed :: sys where
  "sample_committed = sys_do sample_service (Commit 1000100 ann sample_id) sample_open"

definition sample_entry :: file_entry where
  "sample_entry = \<lparr>fe_path = sample_path, fe_size = 3, fe_sha256 = sample_sha [1, 2, 3]\<rparr>"

lemma fresh_sys_fresh: "sys_fresh sample_service fresh_sys"
  by (simp add: sys_fresh_def fresh_sys_def)

lemma fresh_sys_up: "up (sys_start sample_service fresh_sys)"
  by code_simp

lemma sample_parameters:
  "evp_sound (evp_of (svc_store sample_service)) sample_sha" "json_sound (svc_json sample_service)"
  by (simp_all add: sample_service_def sample_evp_sound sample_json_sound)

lemma sample_runs: "sys_runs sample_service sample_actions fresh_sys"
  by code_simp

lemma sample_open_reach: "sys_reach sample_service sample_open"
  unfolding sample_open_def by (intro sys_run_reach sys_reach.fresh fresh_sys_fresh sample_runs)

lemma sample_created_reach: "sys_reach sample_service sample_created"
  unfolding sample_created_def
  by (intro sys_run_reach sys_reach.fresh fresh_sys_fresh) code_simp

lemma sample_created_up: "up sample_created"
  by (simp add: sample_created_def sample_actions_def fresh_sys_up)

lemma sample_commit_can: "sys_can (Commit 1000100 ann sample_id) sample_open"
  by code_simp

lemma sample_committed_reach: "sys_reach sample_service sample_committed"
  unfolding sample_committed_def
  by (intro sys_reach.step [OF sample_open_reach] sys_step.act sample_commit_can)

text \<open>What the last state is like, checked by running the system once.\<close>

definition sample_facts :: "sys \<Rightarrow> bool" where
  "sample_facts s \<longleftrightarrow>
     (let d = disk_of (run s); S = svc_store sample_service
      in map_option (\<lambda>t. (state t, files t, sender t, target_user t)) (view s sample_id) =
           Some (Committed, [sample_entry], ''ann'', ''bob'') \<and>
         is_ok (fst (svc_open_download sample_service bob sample_id sample_path (run s))) \<and>
         faults d = [] \<and> is_directory d (transactions_dir S) \<and> node_at d (root S) = Some Dir \<and>
         file_bytes d (doc_path S sample_id Meta) \<noteq> None \<and>
         list_all (\<lambda>q. butlast q = transactions_dir S \<longrightarrow> last q = sample_id) (map fst (tree d)) \<and>
         up s \<and> length (blog (run s)) = 3 \<and> length (hooks (run s)) = 1)"

lemma sample_committed_facts: "sample_facts sample_committed"
  by code_simp

lemma sample_committed_up: "up sample_committed"
  using sample_committed_facts by (simp add: sample_facts_def Let_def)

lemma sample_open_state: "map_option state (view sample_open sample_id) = Some Open"
  by code_simp

lemma sample_tx_committed:
  obtains t where "view sample_committed sample_id = Some t" "published t" "files t = [sample_entry]"
    "sender t = ''ann''" "target_user t = ''bob''"
  using sample_committed_facts by (auto simp: sample_facts_def Let_def published_def)

lemma sample_committed_dirs:
  assumes "is_directory (disk_of (run sample_committed)) (transaction_dir (svc_store sample_service) i)"
  shows "doc_text (svc_store sample_service) (disk_of (run sample_committed)) i Meta \<noteq> None"
proof -
  have "transaction_dir (svc_store sample_service) i \<in> set (map fst (tree (disk_of (run sample_committed))))"
    using assms by (auto simp: is_directory_def transaction_dir_def dest!: map_of_SomeD intro: rev_image_eqI)
  moreover have "list_all (\<lambda>q. butlast q = transactions_dir (svc_store sample_service) \<longrightarrow> last q = sample_id)
      (map fst (tree (disk_of (run sample_committed))))"
    using sample_committed_facts by (simp add: sample_facts_def Let_def)
  ultimately have "butlast (transaction_dir (svc_store sample_service) i) = transactions_dir (svc_store sample_service) \<longrightarrow>
      last (transaction_dir (svc_store sample_service) i) = sample_id"
    unfolding list_all_iff by (rule bspec [rotated])
  then have "i = sample_id" by (simp add: transaction_dir_def)
  then show ?thesis using sample_committed_facts by (simp add: sample_facts_def Let_def doc_text_def)
qed

subsection \<open>Properties\<close>



text \<open>
  C2. A download gives the bytes that were committed. When \<open>open_download\<close> succeeds, the caller is
  allowed to read the transaction (its sender, a recipient or the peer it came from), the transaction
  is committed or delivered, and what is opened is the whole content of the listed file: its
  size and digest are those of the file list.
\<close>

theorem download_is_committed_file:
  assumes "sys_reach V s" "evp_sound (evp_of (svc_store V)) sha" "json_sound (svc_json V)"
    and "svc_open_download V c i p (run s) = (Inr dl, w')"
  shows "\<exists>t f bs. view s i = Some t \<and> may_read c t (is_recipient (svc_options V)) \<and>
    (state t = Committed \<or> state t = Delivered) \<and> f \<in> set (files t) \<and> fe_path f = p \<and>
    dl = \<lparr>dl_file = Some (File bs), dl_size = length bs\<rparr> \<and> length bs = fe_size f \<and> sha bs = fe_sha256 f"
  using assms(4)
proof (cases rule: svc_open_download_cases)
  case (started t f d)
  obtain bs where bs: "payload (svc_store V) (disk_of (run s)) i p = Some bs"
    "dl = \<lparr>dl_file = Some (File bs), dl_size = length bs\<rparr>"
    using open_read_effect(2) [OF started(5) refl] by blast
  have "tx_ok V sha (disk_of (run s)) i t"
    using sys_reach_inv [OF assms(1-3)] started(1) by (simp add: sys_inv_def tx_inv_def repo_find_def)
  moreover from this have "sorted_by fe_path (files t)"
    using tx_ok_parts(4) by (simp add: wf_files_def files_ok_def)
  then have f: "f \<in> set (files t)" "fe_path f = p" using started(4) find_file_iff by blast+
  ultimately have "length bs = fe_size f \<and> sha bs = fe_sha256 f"
    using started(3) bs(1) by (auto simp: tx_ok_def stored_as_def)
  then show ?thesis using started bs(2) f by (auto simp: view_def published_def)
qed simp

theorem download_is_committed_file_witness:
  "is_ok (fst (svc_open_download sample_service bob sample_id sample_path (run sample_committed))) \<and>
   (\<exists>t. view sample_committed sample_id = Some t \<and> may_read bob t None)"
proof -
  have ok: "is_ok (fst (svc_open_download sample_service bob sample_id sample_path (run sample_committed)))"
    using sample_committed_facts by (simp add: sample_facts_def Let_def)
  then obtain dl w' where
    d: "svc_open_download sample_service bob sample_id sample_path (run sample_committed) = (Inr dl, w')"
    by (metis is_ok_iff prod.collapse)
  show ?thesis
    using ok download_is_committed_file [OF sample_committed_reach sample_parameters d]
    by (auto simp: sample_service_def)
qed


text \<open>
  C3. The service refines the abstract machine \<open>abs_step\<close>. Seen as a map of transactions, every
  action of the running system, including failed operations, crashes and restarts, is either
  invisible or one step of the machine in which a transaction is created open and empty, is edited
  while open, is committed only from open and delivered only from committed, has its expiry
  moved or expires, or is removed.
\<close>

theorem service_refines_machine:
  assumes "sys_reach V s" "sys_can a s" "evp_sound (evp_of (svc_store V)) sha" "json_sound (svc_json V)"
  shows "view (sys_do V a s) = view s \<or> abs_step (view s) (view (sys_do V a s))"
  using sys_do_refines [OF sys_reach_inv [OF assms(1,3,4)] assms(2,4)] by (simp add: abs_next_def)

theorem service_refines_machine_witness:
  "abs_step (view sample_open) (view sample_committed)"
proof -
  have "view sample_committed = view sample_open \<or> abs_step (view sample_open) (view sample_committed)"
    using service_refines_machine [OF sample_open_reach sample_commit_can sample_parameters]
    by (simp add: sample_committed_def)
  moreover note sample_open_state
  moreover have "map_option state (view sample_committed sample_id) = Some Committed"
    using sample_committed_facts by (auto simp: sample_facts_def Let_def)
  ultimately show ?thesis by auto
qed

text \<open>
  C5. A transaction keeps its identity and only moves forward. Whatever happens next, a transaction
  that exists either is removed as a whole or keeps its id, sender, target, origin, comment and
  creation time; its state never goes back; and once it is no longer open its file list and
  commit time never change.
\<close>

theorem transaction_history:
  assumes "sys_reach V s" "sys_can a s" "evp_sound (evp_of (svc_store V)) sha" "json_sound (svc_json V)"
    and "view s i = Some t" "view (sys_do V a s) i = Some t'"
  shows "tx_id t' = tx_id t \<and> sender t' = sender t \<and> target_user t' = target_user t \<and>
    target_server t' = target_server t \<and> origin_server t' = origin_server t \<and> comment t' = comment t \<and>
    created_at t' = created_at t \<and> state_rank (state t) \<le> state_rank (state t') \<and>
    (state t \<noteq> Open \<longrightarrow> files t' = files t \<and> committed_at t' = committed_at t)"
proof -
  have "abs_next (view s) (view (sys_do V a s))"
    by (rule sys_do_refines [OF sys_reach_inv [OF assms(1,3,4)] assms(2,4)])
  then have "evolves t t'"
    using abs_step_evolves [of "view s" "view (sys_do V a s)", OF _ assms(5)] assms(5,6) by (auto simp: abs_next_def)
  then show ?thesis by (simp add: evolves_def)
qed

theorem transaction_history_witness:
  "\<exists>t t'. view sample_open sample_id = Some t \<and> view sample_committed sample_id = Some t' \<and>
     sender t' = sender t \<and> state_rank (state t) \<le> state_rank (state t')"
proof -
  obtain t where t: "view sample_open sample_id = Some t" using sample_open_state by auto
  obtain t' where t': "view sample_committed sample_id = Some t'" by (rule sample_tx_committed)
  from transaction_history [OF sample_open_reach sample_commit_can sample_parameters t t' [unfolded sample_committed_def]]
  show ?thesis using t t' by blast
qed



text \<open>
  C6. A restart loses nothing. When the process ends in any state, at any moment between
  two disk calls, and a later start succeeds, the server has exactly the transactions it had before,
  whatever the disk did in between.
\<close>

theorem restart_recovers:
  assumes "sys_reach V s" "evp_sound (evp_of (svc_store V)) sha" "json_sound (svc_json V)"
    and "s' = sys_do V Start (sys_do V (Disk fs) (sys_do V Crash s))" "up s'"
  shows "view s' = view s \<and> pending s' = [] \<and> sys_inv V sha s'"
proof -
  let ?c = "sys_do V (Disk fs) (sys_do V Crash s)"
  have "sys_inv V sha s" by (rule sys_reach_inv [OF assms(1-3)])
  then have c: "sys_inv V sha ?c"
    using tx_inv_all_same [OF _ tx_same_disk, of V sha "index (run s)" "disk_of (run s)" "(disk_of (run s))\<lparr>faults := fs\<rparr>"]
    by (simp add: sys_inv_def pend_inv_def same_disk_def)
  have "view s' = view ?c" unfolding assms(4) using sys_start_view [OF assms(3) c] by simp
  moreover have "view ?c = view s" by (simp add: view_def)
  moreover have "sys_inv V sha s'" unfolding assms(4) using sys_start_keeps [OF assms(3) c] by simp
  moreover have "pending s' = []" unfolding assms(4)
    by (simp add: sys_start_def Let_def split: prod.split sum.split)
  ultimately show ?thesis by simp
qed

theorem restart_recovers_witness:
  "view (sys_run sample_service [Crash, Disk [], Start] sample_committed) = view sample_committed"
proof -
  let ?c = "sys_do sample_service (Disk []) (sys_do sample_service Crash sample_committed)"
  have r: "sys_reach sample_service ?c"
    using sys_run_reach [OF sample_committed_reach, of "[Crash, Disk []]"] sample_committed_up by simp
  have "up (sys_start sample_service ?c)"
    using sample_committed_facts sample_committed_dirs
    by (intro sys_start_succeeds [OF sys_reach_inv [OF r sample_parameters] sample_parameters(2)])
      (simp_all add: sample_facts_def Let_def is_directory_def doc_text_def file_bytes_def)
  then show ?thesis
    using restart_recovers [OF sample_committed_reach sample_parameters, of _ "[]"] by simp
qed



text \<open>
  C25. A directory that lost its \<^verbatim>\<open>meta.json\<close> keeps the server from starting. When a transaction
  directory is on disk without a readable \<^verbatim>\<open>meta.json\<close>, no start succeeds, whatever the other
  transactions are. The removal of an expired transaction that is interrupted, by an error of the
  disk or by the end of the process, leaves such a directory: \<open>remove_all\<close> deletes the entries one by
  one and the directory last.
\<close>

theorem missing_meta_blocks_start:
  assumes "\<not> up s" "valid_id i" "is_directory (disk_of (run s)) (transaction_dir (svc_store V) i)"
    and "doc_text (svc_store V) (disk_of (run s)) i Meta = None"
  shows "\<not> up (sys_do V Start s)"
proof -
  let ?S = "svc_store V" and ?w = "run s"
  obtain r d where o: "store_open ?S (disk_of ?w) = (r, d)" by fastforce
  note same = store_open_same [OF o, of i]
  have d: "is_directory (d\<lparr>tmp_counter := 0\<rparr>) (transaction_dir ?S i)" "doc_text ?S (d\<lparr>tmp_counter := 0\<rparr>) i Meta = None"
    using tx_same_views(2) [OF same, of Meta] tx_same_views(3) [OF same] assms(3,4)
    by (auto simp: tx_dirs_kept_def is_directory_def doc_text_def file_bytes_def)
  let ?w1 = "?w\<lparr>index := [], disk_of := d\<lparr>tmp_counter := 0\<rparr>\<rparr>"
  obtain r2 w2 where l: "repo_load ?S (svc_json V) ?w1 = (r2, w2)" by fastforce
  have "\<exists>e. r2 = Inl e"
  proof (cases r2)
    case (Inr u)
    from repo_load_ok(3) [OF l [unfolded Inr] assms(2)] d show ?thesis by (simp add: meta_at_def)
  qed simp
  then show ?thesis using o l assms(1) by (cases r) (auto simp: sys_start_def)
qed

definition sample_interrupted :: sys where
  "sample_interrupted =
     sys_run sample_service [Disk (replicate 7 None @ [Some (EIO, 0)]), Expire sample_id, Crash, Disk []] sample_created"

theorem missing_meta_blocks_start_witness:
  "sys_reach sample_service sample_interrupted \<and> \<not> up (sys_do sample_service Start sample_interrupted)"
proof -
  have "sys_runs sample_service [Disk (replicate 7 None @ [Some (EIO, 0)]), Expire sample_id, Crash, Disk []]
      sample_created" using sample_created_up by simp
  then have "sys_reach sample_service sample_interrupted"
    unfolding sample_interrupted_def by (rule sys_run_reach [OF sample_created_reach])
  moreover have "\<not> up sample_interrupted \<and> valid_id sample_id \<and>
      is_directory (disk_of (run sample_interrupted)) (transaction_dir (svc_store sample_service) sample_id) \<and>
      file_bytes (disk_of (run sample_interrupted)) (doc_path (svc_store sample_service) sample_id Meta) = None"
    by code_simp
  ultimately show ?thesis
    using missing_meta_blocks_start [of sample_interrupted sample_id sample_service] by (simp add: doc_text_def)
qed

end
