(* ===== verification/Auth_Limiter.thy ===== *)
theory Auth_Limiter
  imports Common_Time "HOL-Library.Code_Target_Nat"
begin

section \<open>Slowing down password guessing\<close>

text \<open>
  \<^verbatim>\<open>src/src/lib/auth/login_limiter.cpp\<close>: the counters of failed logins per user, per address and
  per pair of both, and the backoff they start. The table is an association list with one
  entry per key; the time of the clock is an argument. \<open>failures\<close> has 32 bits.
\<close>

subsection \<open>Model\<close>

record login_limits =
  free_per_pair :: u32
  free_per_source :: u32
  free_per_user :: u32
  base_delay :: int
  max_delay :: int
  max_keys :: nat

definition default_limits :: login_limits where
  "default_limits = \<lparr>free_per_pair = 5, free_per_source = 20, free_per_user = 50, base_delay = 30,
     max_delay = 900, max_keys = 10000\<rparr>"

record lim_entry =
  failures :: u32
  last_failure :: timestamp
  blocked_until :: timestamp

type_synonym limiter = "(string \<times> lim_entry) list"

definition lower :: "string \<Rightarrow> string" where
  "lower s = map to_lower s"

definition user_key :: "string \<Rightarrow> string" where
  "user_key user = ''u:'' @ lower user"

definition source_key :: "string \<Rightarrow> string" where
  "source_key source = ''s:'' @ source"

definition pair_key :: "string \<Rightarrow> string \<Rightarrow> string" where
  "pair_key user source = ''p:'' @ lower user @ '':'' @ source"

definition lim_check :: "timestamp \<Rightarrow> limiter \<Rightarrow> string \<Rightarrow> string \<Rightarrow> unit result" where
  "lim_check now L user source =
     (let keys = [pair_key user source, source_key source, user_key user];
          until = fold (\<lambda>k until. case map_of L k of None \<Rightarrow> until | Some e \<Rightarrow> max until (blocked_until e)) keys 0
      in if now < until
         then fail Throttled (''too many failed logins, retry in '' @ dec_int (until - now) @ '' s'')
         else Inr ())"

definition new_entry :: lim_entry where
  "new_entry = \<lparr>failures = 0, last_failure = 0, blocked_until = 0\<rparr>"

definition lim_delay :: "login_limits \<Rightarrow> u32 \<Rightarrow> u32 \<Rightarrow> int" where
  "lim_delay opts free n =
     (let steps = min (n - free - 1) 20 in min (base_delay opts * 2 ^ unat steps) (max_delay opts))"

definition bump :: "login_limits \<Rightarrow> string \<Rightarrow> u32 \<Rightarrow> timestamp \<Rightarrow> limiter \<Rightarrow> limiter" where
  "bump opts key free now L =
     (let e = (case map_of L key of None \<Rightarrow> new_entry | Some e \<Rightarrow> e);
          e = e\<lparr>failures := failures e + 1, last_failure := now\<rparr>;
          e = (if failures e \<le> free then e else e\<lparr>blocked_until := now + lim_delay opts free (failures e)\<rparr>)
      in AList.update key e L)"

definition drop_idle :: "login_limits \<Rightarrow> timestamp \<Rightarrow> limiter \<Rightarrow> limiter" where
  "drop_idle opts now L =
     filter (\<lambda>kv. \<not> (blocked_until (snd kv) \<le> now \<and> last_failure (snd kv) + max_delay opts \<le> now)) L"

definition lim_failed :: "login_limits \<Rightarrow> timestamp \<Rightarrow> string \<Rightarrow> string \<Rightarrow> limiter \<Rightarrow> limiter" where
  "lim_failed opts now user source L =
     (let L = (if max_keys opts \<le> length L then drop_idle opts now L else L);
          L = bump opts (pair_key user source) (free_per_pair opts) now L;
          L = bump opts (source_key source) (free_per_source opts) now L
      in bump opts (user_key user) (free_per_user opts) now L)"

definition lim_succeeded :: "string \<Rightarrow> string \<Rightarrow> limiter \<Rightarrow> limiter" where
  "lim_succeeded user source L = AList.delete (user_key user) (AList.delete (pair_key user source) L)"

subsection \<open>Keys\<close>

lemma keys_apart [simp]:
  "pair_key u s \<noteq> source_key s'" "pair_key u s \<noteq> user_key u'" "source_key s \<noteq> user_key u'"
  "source_key s' \<noteq> pair_key u s" "user_key u' \<noteq> pair_key u s" "user_key u' \<noteq> source_key s"
  by (simp_all add: pair_key_def source_key_def user_key_def)

lemma to_lower_colon:
  assumes "to_lower c = CHR '':''"
  shows "c = CHR '':''"
proof (cases "char_in 65 90 c")
  case True
  then have o: "ord (to_lower c) = ord c + 32" "65 \<le> ord c" by (simp_all add: to_lower_def char_in_def)
  have "ord CHR '':'' = 58" by (simp add: ord_def)
  with o show ?thesis unfolding assms by linarith
qed (use assms in \<open>simp add: to_lower_def\<close>)

lemma colon_not_lower: "CHR '':'' \<notin> set u \<Longrightarrow> CHR '':'' \<notin> set (lower u)"
  using to_lower_colon by (fastforce simp: lower_def)

text \<open>Names of Basic credentials have no colon, so a pair key stands for one user and one address.\<close>

lemma pair_key_inject:
  assumes "CHR '':'' \<notin> set u" "CHR '':'' \<notin> set v"
  shows "pair_key u s = pair_key v s' \<longleftrightarrow> lower u = lower v \<and> s = s'"
proof
  assume "pair_key u s = pair_key v s'"
  then have "split_first CHR '':'' (lower u @ CHR '':'' # s) = split_first CHR '':'' (lower v @ CHR '':'' # s')"
    by (simp add: pair_key_def)
  then show "lower u = lower v \<and> s = s'" using assms by (simp add: colon_not_lower)
qed (simp add: pair_key_def)

definition key_free :: "login_limits \<Rightarrow> string \<Rightarrow> u32" where
  "key_free opts k =
     (if starts_with k ''p:'' then free_per_pair opts else if starts_with k ''s:'' then free_per_source opts
      else free_per_user opts)"

lemma key_free_simps [simp]:
  "key_free opts (pair_key u s) = free_per_pair opts" "key_free opts (source_key s) = free_per_source opts"
  "key_free opts (user_key u) = free_per_user opts"
  by (simp_all add: key_free_def pair_key_def source_key_def user_key_def starts_with_def)


subsection \<open>The backoff\<close>

lemma unat_min_word: "unat (min a b) = min (unat a) (unat (b :: u32))"
  by (simp add: min_def word_le_nat_alt)

lemma lim_delay_nat:
  assumes "free < n"
  shows "lim_delay opts free n = min (base_delay opts * 2 ^ min (unat n - unat free - 1) 20) (max_delay opts)"
proof -
  have f: "unat free < unat n" using assms by (simp add: word_less_nat_alt)
  then have d: "unat (n - free) = unat n - unat free" by (simp add: unat_sub word_le_nat_alt)
  then have "1 \<le> n - free" using f by (simp add: word_le_nat_alt)
  then have "unat (n - free - 1) = unat n - unat free - 1" using d by (simp add: unat_sub)
  then show ?thesis by (simp add: lim_delay_def unat_min_word)
qed

lemma lim_delay_mono:
  assumes "free < n" "n \<le> m" "0 \<le> base_delay opts"
  shows "lim_delay opts free n \<le> lim_delay opts free m"
proof -
  have "unat n \<le> unat m" using assms(2) by (simp add: word_le_nat_alt)
  then have "(2 :: int) ^ min (unat n - unat free - 1) 20 \<le> 2 ^ min (unat m - unat free - 1) 20"
    by (intro power_increasing) auto
  then have "base_delay opts * 2 ^ min (unat n - unat free - 1) 20 \<le> base_delay opts * 2 ^ min (unat m - unat free - 1) 20"
    using assms(3) by (simp add: mult_left_mono)
  then show ?thesis
    using assms(1,2) by (simp add: lim_delay_nat)
qed

definition entry_ok :: "login_limits \<Rightarrow> timestamp \<Rightarrow> nat \<Rightarrow> string \<Rightarrow> lim_entry \<Rightarrow> bool" where
  "entry_ok opts now n k e \<longleftrightarrow>
     last_failure e \<le> now \<and> unat (failures e) \<le> n \<and>
     blocked_until e = (if failures e \<le> key_free opts k then 0
       else last_failure e + lim_delay opts (key_free opts k) (failures e))"

definition lim_inv :: "login_limits \<Rightarrow> timestamp \<Rightarrow> nat \<Rightarrow> limiter \<Rightarrow> bool" where
  "lim_inv opts now n L \<longleftrightarrow>
     distinct (map fst L) \<and> (\<forall>k e. map_of L k = Some e \<longrightarrow> entry_ok opts now n k e)"

definition blocked :: "limiter \<Rightarrow> string \<Rightarrow> timestamp \<Rightarrow> bool" where
  "blocked L k t \<longleftrightarrow> (\<exists>e. map_of L k = Some e \<and> t < blocked_until e)"

lemma lim_check_iff:
  assumes "0 \<le> now"
  shows "lim_check now L user source = Inr u \<longleftrightarrow>
    \<not> blocked L (pair_key user source) now \<and> \<not> blocked L (source_key source) now \<and> \<not> blocked L (user_key user) now"
  using assms
  by (simp add: lim_check_def blocked_def Let_def split: option.splits) (auto simp: max_def split: if_splits)

lemma entry_ok_mono: "entry_ok opts now n k e \<Longrightarrow> now \<le> now' \<Longrightarrow> n \<le> m \<Longrightarrow> entry_ok opts now' m k e"
  by (auto simp: entry_ok_def)

lemma map_of_bump:
  "map_of (bump opts key free now L) k =
     (if k = key
      then Some (let e = (case map_of L key of None \<Rightarrow> new_entry | Some e \<Rightarrow> e);
                     e = e\<lparr>failures := failures e + 1, last_failure := now\<rparr>
                 in if failures e \<le> free then e else e\<lparr>blocked_until := now + lim_delay opts free (failures e)\<rparr>)
      else map_of L k)"
  by (simp add: bump_def Let_def)

lemma distinct_bump: "distinct (map fst L) \<Longrightarrow> distinct (map fst (bump opts key free now L))"
  by (simp add: bump_def Let_def distinct_update)

lemma unat_inc: "unat (w :: u32) < n \<Longrightarrow> n < 2 ^ 32 \<Longrightarrow> unat (w + 1) = unat w + 1"
  by (simp add: unat_word_ariths)

text \<open>The entry of the key after \<open>bump\<close>.\<close>

lemma bump_entry_ok:
  assumes "\<And>e. map_of L k = Some e \<Longrightarrow> entry_ok opts now n k e" "Suc n < 2 ^ 32" "0 \<le> now"
    "map_of (bump opts k (key_free opts k) now L) k = Some e'"
  shows "entry_ok opts now (Suc n) k e'"
proof -
  let ?e = "case map_of L k of None \<Rightarrow> new_entry | Some e \<Rightarrow> e"
  have old: "unat (failures ?e) \<le> n" "failures ?e \<le> key_free opts k \<Longrightarrow> blocked_until ?e = 0"
    using assms(1) by (auto simp: new_entry_def entry_ok_def split: option.splits)
  have f: "unat (failures ?e + 1) = Suc (unat (failures ?e))"
    using unat_inc [of "failures ?e" "Suc n"] old(1) assms(2) by simp
  then have "failures ?e \<le> failures ?e + 1" by (simp add: word_le_nat_alt)
  then have z: "failures ?e + 1 \<le> key_free opts k \<Longrightarrow> blocked_until ?e = 0" using old(2) by simp
  show ?thesis
    using assms(4) f old(1) z by (auto simp: map_of_bump entry_ok_def Let_def split: if_splits)
qed

definition entries_ok :: "login_limits \<Rightarrow> timestamp \<Rightarrow> (string \<Rightarrow> nat) \<Rightarrow> limiter \<Rightarrow> bool" where
  "entries_ok opts now b L \<longleftrightarrow>
     distinct (map fst L) \<and> (\<forall>k e. map_of L k = Some e \<longrightarrow> entry_ok opts now (b k) k e)"

lemma bump_ok:
  assumes "entries_ok opts now b L" "Suc (b k) < 2 ^ 32" "0 \<le> now" "free = key_free opts k"
  shows "entries_ok opts now (b(k := Suc (b k))) (bump opts k free now L)"
  unfolding entries_ok_def
proof (intro conjI allI impI)
  show "distinct (map fst (bump opts k free now L))"
    using assms(1) by (simp add: entries_ok_def distinct_bump)
  show "entry_ok opts now ((b(k := Suc (b k))) j) j e" if "map_of (bump opts k free now L) j = Some e" for j e
  proof (cases "j = k")
    case True
    then show ?thesis
      using bump_entry_ok [of L k opts now "b k" e] assms that by (simp add: entries_ok_def)
  next
    case False
    then show ?thesis using assms(1) that by (simp add: entries_ok_def map_of_bump)
  qed
qed

lemma drop_idle_ok: "entries_ok opts now b L \<Longrightarrow> entries_ok opts now b (drop_idle opts now' L)"
  by (auto simp: entries_ok_def drop_idle_def distinct_filter_fst map_of_filter_Some)

lemma lim_inv_iff: "lim_inv opts now n L \<longleftrightarrow> entries_ok opts now (\<lambda>_. n) L"
  by (simp add: lim_inv_def entries_ok_def)

lemma entries_ok_mono:
  "entries_ok opts now b L \<Longrightarrow> now \<le> now' \<Longrightarrow> (\<And>k. b k \<le> b' k) \<Longrightarrow> entries_ok opts now' b' L"
  using entry_ok_mono by (fastforce simp: entries_ok_def)

lemma lim_failed_inv:
  assumes "lim_inv opts now n L" "now \<le> now'" "0 \<le> now'" "Suc n < 2 ^ 32"
  shows "lim_inv opts now' (Suc n) (lim_failed opts now' user source L)"
proof -
  let ?L = "if max_keys opts \<le> length L then drop_idle opts now' L else L"
  have 0: "entries_ok opts now' (\<lambda>_. n) ?L"
    using entries_ok_mono [OF assms(1) [unfolded lim_inv_iff] assms(2), of "\<lambda>_. n"] drop_idle_ok by simp
  note 1 = bump_ok [OF 0 assms(4,3) key_free_simps(1) [symmetric], of user source]
  have 2: "entries_ok opts now' ((\<lambda>_. n)(pair_key user source := Suc n, source_key source := Suc n))
      (bump opts (source_key source) (free_per_source opts) now' (bump opts (pair_key user source) (free_per_pair opts) now' ?L))"
    using bump_ok [OF 1 _ assms(3) key_free_simps(2) [symmetric], of source] assms(4) by simp
  have "entries_ok opts now' ((\<lambda>_. n)(pair_key user source := Suc n, source_key source := Suc n, user_key user := Suc n))
      (lim_failed opts now' user source L)"
    using bump_ok [OF 2 _ assms(3) key_free_simps(3) [symmetric], of user] assms(4) by (simp add: lim_failed_def Let_def)
  then show ?thesis
    unfolding lim_inv_iff by (rule entries_ok_mono) auto
qed

lemma lim_succeeded_inv: "lim_inv opts now n L \<Longrightarrow> lim_inv opts now n (lim_succeeded user source L)"
  by (auto simp: lim_inv_def lim_succeeded_def distinct_delete)

text \<open>A key in backoff stays in backoff.\<close>

lemma bump_blocked:
  assumes "entries_ok opts now b L" "Suc (b key) < 2 ^ 32" "0 \<le> base_delay opts" "free = key_free opts key"
    and "blocked L k t" "0 \<le> t"
  shows "blocked (bump opts key free now L) k t"
proof (cases "k = key")
  case True
  obtain e where e: "map_of L key = Some e" "t < blocked_until e" using assms(5) True by (auto simp: blocked_def)
  have ok: "entry_ok opts now (b key) key e" using assms(1) e(1) by (simp add: entries_ok_def)
  then have f: "free < failures e" "blocked_until e = last_failure e + lim_delay opts free (failures e)"
    using e(2) assms(4,6) by (auto simp: entry_ok_def split: if_splits)
  have "unat (failures e + 1) = unat (failures e) + 1"
    using ok assms(2) by (intro unat_inc [of _ "Suc (b key)"]) (auto simp: entry_ok_def)
  then have n: "failures e \<le> failures e + 1" "free < failures e + 1"
    using f(1) by (simp_all add: word_le_nat_alt word_less_nat_alt)
  have "t < now + lim_delay opts free (failures e + 1)"
    using e(2) f(2) lim_delay_mono [OF f(1) n(1) assms(3)] ok by (simp add: entry_ok_def)
  moreover have "\<not> failures e + 1 \<le> free" using n(2) by (simp add: not_le)
  ultimately show ?thesis using True e(1) by (simp add: blocked_def map_of_bump Let_def)
next
  case False
  then show ?thesis using assms(5) by (simp add: blocked_def map_of_bump)
qed

lemma drop_idle_blocked:
  assumes "distinct (map fst L)" "blocked L k t" "now \<le> t"
  shows "blocked (drop_idle opts now L) k t"
  using assms by (auto simp: blocked_def drop_idle_def map_of_filter_Some)

lemma lim_failed_blocked:
  assumes "lim_inv opts now n L" "now \<le> now'" "now' \<le> t" "0 \<le> now'" "Suc n < 2 ^ 32" "0 \<le> base_delay opts" "blocked L k t"
  shows "blocked (lim_failed opts now' user source L) k t"
proof -
  let ?L = "if max_keys opts \<le> length L then drop_idle opts now' L else L"
  have 0: "entries_ok opts now' (\<lambda>_. n) ?L"
    using entries_ok_mono [OF assms(1) [unfolded lim_inv_iff] assms(2), of "\<lambda>_. n"] drop_idle_ok by simp
  note 1 = bump_ok [OF 0 assms(5,4) key_free_simps(1) [symmetric], of user source]
  note 2 = bump_ok [OF 1 _ assms(4) key_free_simps(2) [symmetric], of source]
  have t: "0 \<le> t" using assms(3,4) by simp
  have "blocked ?L k t" using drop_idle_blocked assms(1,3,7) by (simp add: lim_inv_def)
  from bump_blocked [OF 0 assms(5,6) key_free_simps(1) [symmetric] this t, of user source]
  have "blocked (bump opts (pair_key user source) (free_per_pair opts) now' ?L) k t" .
  from bump_blocked [OF 1 _ assms(6) key_free_simps(2) [symmetric] this t, of source]
  have "blocked (bump opts (source_key source) (free_per_source opts) now'
      (bump opts (pair_key user source) (free_per_pair opts) now' ?L)) k t" using assms(5) by simp
  from bump_blocked [OF 2 _ assms(6) key_free_simps(3) [symmetric] this t, of user] show ?thesis
    using assms(5) by (simp add: lim_failed_def Let_def)
qed


subsection \<open>Sequences of logins\<close>

datatype lim_event = LFail timestamp string string | LSuccess string string

fun lim_step :: "login_limits \<Rightarrow> lim_event \<Rightarrow> limiter \<Rightarrow> limiter" where
  "lim_step opts (LFail now user source) L = lim_failed opts now user source L"
| "lim_step opts (LSuccess user source) L = lim_succeeded user source L"

definition lim_run :: "login_limits \<Rightarrow> lim_event list \<Rightarrow> limiter \<Rightarrow> limiter" where
  "lim_run opts evs L = fold (lim_step opts) evs L"

text \<open>The clock does not go back, from \<open>now\<close> on.\<close>

fun times_from :: "timestamp \<Rightarrow> lim_event list \<Rightarrow> bool" where
  "times_from now [] \<longleftrightarrow> True"
| "times_from now (LFail t u s # evs) \<longleftrightarrow> now \<le> t \<and> times_from t evs"
| "times_from now (LSuccess u s # evs) \<longleftrightarrow> times_from now evs"

fun last_time :: "timestamp \<Rightarrow> lim_event list \<Rightarrow> timestamp" where
  "last_time now [] = now"
| "last_time now (LFail t u s # evs) = last_time t evs"
| "last_time now (LSuccess u s # evs) = last_time now evs"

lemma lim_run_simps [simp]: "lim_run opts [] L = L" "lim_run opts (ev # evs) L = lim_run opts evs (lim_step opts ev L)"
  "lim_run opts (xs @ ys) L = lim_run opts ys (lim_run opts xs L)"
  by (simp_all add: lim_run_def)

lemma last_time_le: "times_from now evs \<Longrightarrow> now \<le> last_time now evs"
  by (induction now evs rule: last_time.induct) auto

lemma times_from_append: "times_from now (xs @ ys) \<longleftrightarrow> times_from now xs \<and> times_from (last_time now xs) ys"
  by (induction now xs rule: last_time.induct) auto

lemma last_time_snoc: "last_time a (evs @ [LFail now u s]) = now"
  by (induction a evs rule: last_time.induct) simp_all

lemma lim_run_inv:
  "lim_inv opts now n L \<Longrightarrow> times_from now evs \<Longrightarrow> 0 \<le> now \<Longrightarrow> n + length evs < 2 ^ 32 \<Longrightarrow>
     lim_inv opts (last_time now evs) (n + length evs) (lim_run opts evs L)"
proof (induction now evs arbitrary: n L rule: last_time.induct)
  case (2 now t u s evs)
  then show ?case using lim_failed_inv [OF "2.prems"(1), of t u s] "2.IH" [of "Suc n" "lim_failed opts t u s L"] by simp
next
  case (3 now u s evs)
  have "lim_inv opts now (Suc n) (lim_succeeded u s L)"
    using lim_succeeded_inv [OF "3.prems"(1), of u s] entries_ok_mono [of opts now "\<lambda>_. n" _ now "\<lambda>_. Suc n"]
    by (simp add: lim_inv_iff)
  then show ?case using "3.IH" [of "Suc n" "lim_succeeded u s L"] "3.prems" by simp
qed simp

text \<open>A successful login clears the keys of its user.\<close>

fun clears :: "string \<Rightarrow> lim_event \<Rightarrow> bool" where
  "clears k (LFail t u s) \<longleftrightarrow> False"
| "clears k (LSuccess u s) \<longleftrightarrow> k = pair_key u s \<or> k = user_key u"

lemma lim_run_blocked:
  "lim_inv opts now n L \<Longrightarrow> times_from now evs \<Longrightarrow> 0 \<le> now \<Longrightarrow> n + length evs < 2 ^ 32 \<Longrightarrow> last_time now evs \<le> t \<Longrightarrow>
     0 \<le> base_delay opts \<Longrightarrow> \<not> list_ex (clears k) evs \<Longrightarrow>
     blocked L k t \<Longrightarrow> blocked (lim_run opts evs L) k t"
proof (induction now evs arbitrary: n L rule: last_time.induct)
  case (2 now t' u s evs)
  have "t' \<le> t" using last_time_le [of t' evs] "2.prems"(2,5) by simp
  then have "blocked (lim_failed opts t' u s L) k t"
    using lim_failed_blocked [OF "2.prems"(1), of t' t k u s] "2.prems" by simp
  then show ?case
    using lim_failed_inv [OF "2.prems"(1), of t' u s] "2.IH" [of "Suc n" "lim_failed opts t' u s L"] "2.prems" by simp
next
  case (3 now u s evs)
  have "lim_inv opts now (Suc n) (lim_succeeded u s L)"
    using lim_succeeded_inv [OF "3.prems"(1), of u s] entries_ok_mono [of opts now "\<lambda>_. n" _ now "\<lambda>_. Suc n"]
    by (simp add: lim_inv_iff)
  moreover have "blocked (lim_succeeded u s L) k t"
    using "3.prems"(7,8) by (auto simp: blocked_def lim_succeeded_def)
  ultimately show ?case using "3.IH" [of "Suc n" "lim_succeeded u s L"] "3.prems" by simp
qed simp

lemma lim_inv_empty: "lim_inv opts now 0 []"
  by (simp add: lim_inv_def)

lemma source_key_not_cleared: "\<not> list_ex (clears (source_key s)) evs"
proof (induction evs)
  case (Cons ev evs)
  then show ?case by (cases ev) simp_all
qed simp

text \<open>
  While an address is in backoff no password from it is checked, whatever logins by whatever users
  follow, successful ones included.
\<close>

lemma address_backoff:
  assumes "times_from 0 (evs1 @ LFail now user source # evs2)" "length evs1 + length evs2 < 2 ^ 32 - 1"
    and "0 \<le> base_delay opts" "L1 = lim_run opts (evs1 @ [LFail now user source]) []"
    and "map_of L1 (source_key source) = Some e" "free_per_source opts < failures e"
    and "last_time now evs2 \<le> t"
    and "t < now + min (base_delay opts * 2 ^ min (unat (failures e) - unat (free_per_source opts) - 1) 20) (max_delay opts)"
  shows "\<exists>d. lim_check t (lim_run opts evs2 L1) anyone source = fail Throttled d"
proof -
  have t1: "times_from 0 (evs1 @ [LFail now user source])" "times_from now evs2"
    using assms(1) by (simp_all add: times_from_append)
  have lt: "last_time 0 (evs1 @ [LFail now user source]) = now" by (rule last_time_snoc)
  have now: "0 \<le> now" using last_time_le [OF t1(1)] lt by simp
  have inv: "lim_inv opts now (Suc (length evs1)) L1"
    using lim_run_inv [OF lim_inv_empty t1(1), of opts] assms(2,4) lt by simp
  have ok: "entry_ok opts now (Suc (length evs1)) (source_key source) e" using inv assms(5) by (simp add: lim_inv_def)
  have "last_failure e = now"
    using assms(4,5) by (auto simp: lim_failed_def map_of_bump Let_def split: if_splits)
  then have "blocked_until e = now + lim_delay opts (free_per_source opts) (failures e)"
    using ok assms(6) by (auto simp: entry_ok_def split: if_splits)
  then have "t < blocked_until e" using assms(8) lim_delay_nat [OF assms(6)] by simp
  then have b: "blocked L1 (source_key source) t" using assms(5) by (simp add: blocked_def)
  have "blocked (lim_run opts evs2 L1) (source_key source) t"
    by (rule lim_run_blocked [OF inv t1(2) now _ assms(7,3) _ b]) (use assms(2) source_key_not_cleared in auto)
  moreover have "0 \<le> t" using now last_time_le [OF t1(2)] assms(7) by simp
  ultimately have "\<forall>u. lim_check t (lim_run opts evs2 L1) anyone source \<noteq> Inr u" using lim_check_iff by blast
  then show ?thesis by (auto simp: lim_check_def Let_def split: if_splits)
qed


subsection \<open>One user with a wrong password\<close>

definition own_keys :: "string \<Rightarrow> string \<Rightarrow> string set" where
  "own_keys user source = {pair_key user source, source_key source, user_key user}"

lemma bump_keys: "fst ` set (bump opts k free now L) = insert k (fst ` set L)"
  by (simp add: bump_def Let_def dom_update)

lemma length_few:
  assumes "distinct (map fst L)" "fst ` set L \<subseteq> own_keys user source"
  shows "length L \<le> 3"
proof -
  have "length L = card (fst ` set L)" using assms(1) by (metis distinct_card length_map set_map)
  also have "\<dots> \<le> card (own_keys user source)" using assms(2) by (intro card_mono) (auto simp: own_keys_def)
  also have "\<dots> \<le> 3" by (simp add: own_keys_def)
  finally show ?thesis .
qed

lemma repeated_failures:
  assumes "times_from 0 (map (\<lambda>t. LFail t user source) ts)" "length ts < 2 ^ 32" "3 < max_keys opts" "ts \<noteq> []"
  shows "fst ` set (lim_run opts (map (\<lambda>t. LFail t user source) ts) []) \<subseteq> own_keys user source \<and>
    (\<exists>e. map_of (lim_run opts (map (\<lambda>t. LFail t user source) ts) []) (pair_key user source) = Some e \<and>
       last_failure e = last ts \<and> unat (failures e) = length ts)"
  using assms
proof (induction ts rule: rev_induct)
  case (snoc t ts)
  let ?L = "lim_run opts (map (\<lambda>t. LFail t user source) ts) []"
  have t: "times_from 0 (map (\<lambda>t. LFail t user source) ts)"
    using snoc.prems(1) by (simp add: times_from_append)
  have inv: "distinct (map fst ?L)"
    using lim_run_inv [OF lim_inv_empty t, of opts] snoc.prems(2) by (simp add: lim_inv_def)
  have ih: "fst ` set ?L \<subseteq> own_keys user source \<and>
     (case map_of ?L (pair_key user source) of None \<Rightarrow> ts = [] | Some e \<Rightarrow> unat (failures e) = length ts)"
    using snoc.IH t snoc.prems(2,3) by (cases "ts = []") auto
  have "length ?L \<le> 3" using length_few [OF inv] ih by blast
  then have s: "lim_run opts (map (\<lambda>t. LFail t user source) (ts @ [t])) [] =
      bump opts (user_key user) (free_per_user opts) t (bump opts (source_key source) (free_per_source opts) t
        (bump opts (pair_key user source) (free_per_pair opts) t ?L))"
    using snoc.prems(3) by (simp add: lim_failed_def Let_def)
  have "\<exists>e. map_of (lim_run opts (map (\<lambda>t. LFail t user source) (ts @ [t])) []) (pair_key user source) = Some e \<and>
      last_failure e = t \<and> unat (failures e) = Suc (length ts)"
  proof (cases "map_of ?L (pair_key user source)")
    case None
    then show ?thesis unfolding s using ih by (simp add: map_of_bump new_entry_def Let_def)
  next
    case (Some e)
    then have "unat (failures e + 1) = Suc (length ts)"
      using unat_inc [of "failures e" "Suc (length ts)"] ih snoc.prems(2) by simp
    then show ?thesis unfolding s using Some by (simp add: map_of_bump Let_def)
  qed
  moreover have "fst ` set (lim_run opts (map (\<lambda>t. LFail t user source) (ts @ [t])) []) \<subseteq> own_keys user source"
    unfolding s bump_keys using ih by (auto simp: own_keys_def)
  ultimately show ?case by simp
qed simp



end
