(* ===== verification/Auth_Password.thy ===== *)
theory Auth_Password
  imports Common_Base64 Codec_Interface
begin

section \<open>Stored passwords\<close>

text \<open>
  \<^verbatim>\<open>src/src/lib/auth/password.cpp\<close>: the stored form of a password and its check. OpenSSL's key
  derivation is the parameter \<open>kdf\<close> (password, salt, iterations, length of the key; \<open>None\<close> when
  it fails) and its random generator an argument with the bytes it gave, if any.
\<close>

subsection \<open>Model\<close>

type_synonym kdf = "string \<Rightarrow> byte list \<Rightarrow> nat \<Rightarrow> nat \<Rightarrow> byte list option"

definition kScheme :: string where "kScheme = ''pbkdf2-sha256''"
definition kMaxIterations :: nat where "kMaxIterations = 10000000"
definition kKeyBytes :: nat where "kKeyBytes = 32"

record password_hash =
  iterations :: nat
  salt :: "byte list"
  key :: "byte list"

definition pw_invalid :: "string \<Rightarrow> 'a result" where
  "pw_invalid d = fail Validation d"

definition pbkdf2 :: "kdf \<Rightarrow> string \<Rightarrow> byte list \<Rightarrow> nat \<Rightarrow> nat \<Rightarrow> byte list result" where
  "pbkdf2 K password slt iters key_bytes =
     (case K password slt iters key_bytes of
        None \<Rightarrow> fail Internal ''PKCS5_PBKDF2_HMAC failed''
      | Some k \<Rightarrow> Inr k)"

definition check_iterations :: "nat \<Rightarrow> unit result" where
  "check_iterations iters =
     (if iters < 1 \<or> kMaxIterations < iters
      then pw_invalid (''iterations must be 1..'' @ dec kMaxIterations) else Inr ())"

definition password_create :: "kdf \<Rightarrow> byte list option \<Rightarrow> string \<Rightarrow> nat \<Rightarrow> password_hash result" where
  "password_create K random password iters =
     cfd_try (check_iterations iters) (\<lambda>_.
       case random of
         None \<Rightarrow> fail Internal ''RAND_bytes failed''
       | Some slt \<Rightarrow>
           cfd_try (pbkdf2 K password slt iters kKeyBytes) (\<lambda>k.
             Inr \<lparr>iterations = iters, salt = slt, key = k\<rparr>))"

definition password_parse :: "string \<Rightarrow> password_hash result" where
  "password_parse text =
     (let parts = split_on CHR ''$'' text
      in if length parts \<noteq> 4 \<or> parts ! 0 \<noteq> kScheme
         then pw_invalid (''expected '' @ kScheme @ ''$<iterations>$<salt>$<key>'')
         else case from_chars (2 ^ 32 - 1) (parts ! 1) of
             None \<Rightarrow> pw_invalid ''iterations is not a number''
           | Some (iters, rest) \<Rightarrow>
               if rest \<noteq> [] then pw_invalid ''iterations is not a number''
               else
                 cfd_try (check_iterations iters) (\<lambda>_.
                 cfd_try (base64_decode (parts ! 2)) (\<lambda>slt.
                 cfd_try (base64_decode (parts ! 3)) (\<lambda>k.
                   if slt = [] \<or> k = [] then pw_invalid ''empty salt or key''
                   else Inr \<lparr>iterations = iters, salt = slt, key = k\<rparr>))))"

definition password_to_string :: "password_hash \<Rightarrow> string" where
  "password_to_string h =
     kScheme @ ''$'' @ dec (iterations h) @ ''$'' @ base64_encode (salt h) @ ''$'' @ base64_encode (key h)"

definition password_verify :: "kdf \<Rightarrow> password_hash \<Rightarrow> string \<Rightarrow> bool" where
  "password_verify K h password =
     (case pbkdf2 K password (salt h) (iterations h) (length (key h)) of
        Inl _ \<Rightarrow> False
      | Inr derived \<Rightarrow> derived = key h)"

text \<open>What the code relies on: a derived key has the length that was asked for.\<close>

definition kdf_sound :: "kdf \<Rightarrow> bool" where
  "kdf_sound K \<longleftrightarrow> (\<forall>p s i n k. K p s i n = Some k \<longrightarrow> length k = n)"

subsection \<open>The stored form\<close>

definition wf_password :: "password_hash \<Rightarrow> bool" where
  "wf_password h \<longleftrightarrow> 1 \<le> iterations h \<and> iterations h \<le> kMaxIterations \<and> salt h \<noteq> [] \<and> key h \<noteq> []"

lemma check_iterations_iff: "check_iterations n = Inr u \<longleftrightarrow> 1 \<le> n \<and> n \<le> kMaxIterations"
  by (auto simp: check_iterations_def pw_invalid_def)

lemma no_dollar: "CHR ''$'' \<notin> set (dec n)" "CHR ''$'' \<notin> set (base64_encode bs)" "CHR ''$'' \<notin> set kScheme"
proof -
  have "\<not> is_digit CHR ''$''" by (simp add: char_in_def ord_def)
  then show "CHR ''$'' \<notin> set (dec n)" using dec_digits by blast
  show "CHR ''$'' \<notin> set kScheme" by (simp add: kScheme_def)
  have "CHR ''$'' \<notin> set kAlphabet" by (simp add: kAlphabet_def)
  then show "CHR ''$'' \<notin> set (base64_encode bs)" using base64_chars by force
qed

lemma password_parts:
  "split_on CHR ''$'' (password_to_string h) =
     [kScheme, dec (iterations h), base64_encode (salt h), base64_encode (key h)]"
  using no_dollar by (simp add: password_to_string_def split_on_append split_on_single)

lemma base64_decode_encode: "base64_decode (base64_encode bs) = Inr bs"
  by (simp add: base64_decode_def length_base64_encode dec_groups_base64_encode)

interpretation password_text: checked_codec password_to_string password_parse wf_password
proof unfold_locales
  fix h assume w: "wf_password h"
  then have "iterations h \<le> 2 ^ 32 - 1" "check_iterations (iterations h) = Inr ()"
    by (simp_all add: wf_password_def kMaxIterations_def check_iterations_iff)
  then show "password_parse (password_to_string h) = Inr h"
    using w unfolding password_parse_def password_parts
    by (simp add: wf_password_def base64_decode_encode del: One_nat_def)
next
  fix t h assume "password_parse t = Inr h"
  then show "wf_password h"
    by (auto simp: password_parse_def Let_def wf_password_def try_simps check_iterations_iff pw_invalid_def
        split: if_splits option.splits)
qed

text \<open>
  C39. A stored password accepts its password. A hash made from a password and a fresh salt,
  written in its stored form and read back, has between one and ten million iterations, accepts that
  password, and accepts another one exactly if the key derivation gives both the same key.
\<close>

theorem stored_password_accepts:
  assumes "kdf_sound K" "password_create K (Some slt) password iters = Inr h" "slt \<noteq> []"
  shows "\<exists>h'. password_parse (password_to_string h) = Inr h' \<and> password_verify K h' password \<and>
    1 \<le> iterations h' \<and> iterations h' \<le> 10000000 \<and>
    (\<forall>other. password_verify K h' other \<longleftrightarrow>
       K other slt iters kKeyBytes = K password slt iters kKeyBytes)"
proof -
  from assms(2) obtain k where k: "K password slt iters kKeyBytes = Some k"
    and h: "h = \<lparr>iterations = iters, salt = slt, key = k\<rparr>" and i: "check_iterations iters = Inr ()"
    by (auto simp: password_create_def try_simps pbkdf2_def split: option.splits)
  have l: "length k = kKeyBytes" using assms(1) k by (simp add: kdf_sound_def)
  then have w: "wf_password h"
    using i assms(3) h by (auto simp: wf_password_def check_iterations_iff kKeyBytes_def)
  have "password_verify K h other \<longleftrightarrow> K other slt iters kKeyBytes = Some k" for other
    by (simp add: password_verify_def pbkdf2_def h l fail_def split: option.split)
  then show ?thesis
    using password_text.dec_enc [OF w] w k by (auto simp: wf_password_def kMaxIterations_def)
qed

definition sample_kdf :: kdf where
  "sample_kdf p s i n = Some (take n (as_bytes p @ s @ replicate n 0))"

theorem stored_password_accepts_witness:
  "\<exists>h'. password_parse (password_to_string \<lparr>iterations = 2, salt = [1, 2], key = take 32 (as_bytes ''pw'' @ [1, 2] @ replicate 32 0)\<rparr>)
      = Inr h' \<and> password_verify sample_kdf h' ''pw''"
proof -
  have s: "kdf_sound sample_kdf" by (auto simp: kdf_sound_def sample_kdf_def min_def)
  have c: "password_create sample_kdf (Some [1, 2]) ''pw'' 2 =
      Inr \<lparr>iterations = 2, salt = [1, 2], key = take 32 (as_bytes ''pw'' @ [1, 2] @ replicate 32 0)\<rparr>"
    by (simp add: password_create_def check_iterations_def kMaxIterations_def pbkdf2_def sample_kdf_def kKeyBytes_def)
  from stored_password_accepts [OF s c] show ?thesis by auto
qed

end
