(* ===== verification/Auth_Sessions.thy ===== *)
theory Auth_Sessions
  imports Common_Sha256 Common_Time "HOL-Library.Code_Target_Nat"
begin

section \<open>Sessions behind bearer tokens\<close>

text \<open>
  \<^verbatim>\<open>src/src/lib/auth/session_store.cpp\<close>: the table of sessions by the digest of their token. The
  table is an association list with one entry per digest, whose order stands for the unspecified
  order of the hash map; the time of the clock and the random bytes of OpenSSL are arguments.
\<close>

subsection \<open>Model\<close>

datatype scope = UserScope | AdminScope

fun scope_to_string :: "scope \<Rightarrow> string" where
  "scope_to_string AdminScope = ''admin''"
| "scope_to_string UserScope = ''user''"

record issued_token =
  it_token :: string
  it_expires_at :: timestamp

record session_options =
  ttl :: int
  idle :: int
  max_per_user :: nat
  admin_ttl :: int
  admin_idle :: int

record session =
  s_user :: string
  s_scope :: scope
  s_created :: timestamp
  s_last_used :: timestamp
  s_expires_at :: timestamp

type_synonym session_table = "(sha256_digest \<times> session) list"

definition kPrefix :: string where "kPrefix = ''ftu_''"
definition kAdminPrefix :: string where "kAdminPrefix = ''fta_''"

fun token_prefix :: "scope \<Rightarrow> string" where
  "token_prefix AdminScope = kAdminPrefix"
| "token_prefix UserScope = kPrefix"

definition auth_denied :: "string \<Rightarrow> 'a result" where
  "auth_denied d = fail Auth d"

definition session_expired :: "session_options \<Rightarrow> session \<Rightarrow> timestamp \<Rightarrow> bool" where
  "session_expired opts s now \<longleftrightarrow>
     (let unused = (if s_scope s = AdminScope then admin_idle opts else idle opts)
      in is_expired (s_expires_at s) now \<or> is_expired (s_last_used s + unused) now)"

definition drop_expired :: "session_options \<Rightarrow> timestamp \<Rightarrow> session_table \<Rightarrow> session_table" where
  "drop_expired opts now T = filter (\<lambda>kv. \<not> session_expired opts (snd kv) now) T"

text \<open>The loop of \<open>drop_oldest_of\<close>: how many sessions the user has and the first of the oldest ones.\<close>

fun oldest_of ::
  "string \<Rightarrow> scope \<Rightarrow> session_table \<Rightarrow> nat \<Rightarrow> (sha256_digest \<times> session) option \<Rightarrow>
   nat \<times> (sha256_digest \<times> session) option" where
  "oldest_of user sc [] count oldest = (count, oldest)"
| "oldest_of user sc ((k, s) # T) count oldest =
     (if s_user s \<noteq> user \<or> s_scope s \<noteq> sc then oldest_of user sc T count oldest
      else oldest_of user sc T (Suc count)
        (case oldest of
           None \<Rightarrow> Some (k, s)
         | Some (k', s') \<Rightarrow> if s_created s < s_created s' then Some (k, s) else oldest))"

definition drop_oldest_of :: "session_options \<Rightarrow> string \<Rightarrow> scope \<Rightarrow> session_table \<Rightarrow> session_table" where
  "drop_oldest_of opts user sc T =
     (case oldest_of user sc T 0 None of
        (count, Some (k, _)) \<Rightarrow> if max_per_user opts \<le> count then AList.delete k T else T
      | (_, None) \<Rightarrow> T)"

definition session_issue ::
  "evp \<Rightarrow> session_options \<Rightarrow> byte list option \<Rightarrow> timestamp \<Rightarrow> string \<Rightarrow> scope \<Rightarrow> session_table \<Rightarrow>
   issued_token result \<times> session_table" where
  "session_issue E opts random now user sc T =
     (case random of
        None \<Rightarrow> (fail Internal ''RAND_bytes failed'', T)
      | Some bytes \<Rightarrow>
          let token = token_prefix sc @ to_hex bytes
          in cfd_tryS (sha_of_text E token, T) (\<lambda>digest T.
               let T = drop_oldest_of opts user sc (drop_expired opts now T);
                   expires = now + (if sc = AdminScope then admin_ttl opts else ttl opts)
               in (Inr \<lparr>it_token = token, it_expires_at = expires\<rparr>,
                   AList.update digest \<lparr>s_user = user, s_scope = sc, s_created = now, s_last_used = now,
                     s_expires_at = expires\<rparr> T)))"

definition session_verify ::
  "evp \<Rightarrow> session_options \<Rightarrow> timestamp \<Rightarrow> string \<Rightarrow> scope \<Rightarrow> session_table \<Rightarrow> string result \<times> session_table" where
  "session_verify E opts now token sc T =
     (if \<not> starts_with token (token_prefix sc) then (auth_denied ''invalid token'', T)
      else
        cfd_tryS (sha_of_text E token, T) (\<lambda>digest T.
          case map_of T digest of
            None \<Rightarrow> (auth_denied ''invalid or expired token'', T)
          | Some s \<Rightarrow>
              if s_scope s \<noteq> sc then (auth_denied ''invalid or expired token'', T)
              else if session_expired opts s now
              then (auth_denied ''invalid or expired token'', AList.delete digest T)
              else (Inr (s_user s), AList.update digest (s\<lparr>s_last_used := now\<rparr>) T)))"

definition session_revoke :: "evp \<Rightarrow> string \<Rightarrow> session_table \<Rightarrow> session_table" where
  "session_revoke E token T =
     (case sha_of_text E token of Inl _ \<Rightarrow> T | Inr digest \<Rightarrow> AList.delete digest T)"

definition session_revoke_user :: "string \<Rightarrow> session_table \<Rightarrow> nat \<times> session_table" where
  "session_revoke_user user T =
     (length (filter (\<lambda>kv. s_user (snd kv) = user) T), filter (\<lambda>kv. s_user (snd kv) \<noteq> user) T)"

definition session_list :: "session_options \<Rightarrow> timestamp \<Rightarrow> session_table \<Rightarrow> session list \<times> session_table" where
  "session_list opts now T =
     (let T = drop_expired opts now T in (sort_key s_created (map snd T), T))"

subsection \<open>Operations as steps\<close>

datatype session_op =
    SIssue timestamp "byte list option" string scope
  | SVerify timestamp string scope
  | SRevoke string
  | SRevokeUser string
  | SList timestamp

fun session_do :: "evp \<Rightarrow> session_options \<Rightarrow> session_op \<Rightarrow> session_table \<Rightarrow> session_table" where
  "session_do E opts (SIssue now random user sc) T = snd (session_issue E opts random now user sc T)"
| "session_do E opts (SVerify now token sc) T = snd (session_verify E opts now token sc T)"
| "session_do E opts (SRevoke token) T = session_revoke E token T"
| "session_do E opts (SRevokeUser user) T = snd (session_revoke_user user T)"
| "session_do E opts (SList now) T = snd (session_list opts now T)"

definition session_run :: "evp \<Rightarrow> session_options \<Rightarrow> session_op list \<Rightarrow> session_table" where
  "session_run E opts ops = fold (session_do E opts) ops []"

lemma session_run_simps [simp]:
  "session_run E opts [] = []" "session_run E opts (ops @ [op]) = session_do E opts op (session_run E opts ops)"
  by (simp_all add: session_run_def)

lemma distinct_delete_fst [simp]: "distinct (map fst T) \<Longrightarrow> distinct (map fst (AList.delete k T))"
  by (rule distinct_delete)

lemma distinct_oldest [simp]: "distinct (map fst T) \<Longrightarrow> distinct (map fst (drop_oldest_of opts user sc T))"
  by (auto simp: drop_oldest_of_def split: prod.splits option.splits)

lemma session_do_distinct: "distinct (map fst T) \<Longrightarrow> distinct (map fst (session_do E opts op T))"
proof (cases op)
  case (SIssue now random user sc)
  assume d: "distinct (map fst T)"
  show ?thesis
  proof (cases random)
    case (Some bytes)
    then show ?thesis
      using d SIssue
      by (cases "sha_of_text E (token_prefix sc @ to_hex bytes)")
        (auto simp: session_issue_def Let_def drop_expired_def distinct_filter_fst intro!: distinct_update)
  qed (use d SIssue in \<open>simp add: session_issue_def\<close>)
next
  case (SVerify now token sc)
  assume "distinct (map fst T)"
  then show ?thesis
    using SVerify
    by (cases "sha_of_text E token")
      (auto simp: session_verify_def intro: distinct_update split: option.split)
next
  case (SRevoke token)
  assume "distinct (map fst T)"
  then show ?thesis using SRevoke by (simp add: session_revoke_def split: sum.split)
qed (auto simp: session_revoke_user_def session_list_def Let_def drop_expired_def distinct_filter_fst)

lemma session_run_distinct [simp]: "distinct (map fst (session_run E opts ops))"
  by (induction ops rule: rev_induct) (simp_all add: session_do_distinct)


subsection \<open>Where sessions come from\<close>

definition lifetime :: "session_options \<Rightarrow> scope \<Rightarrow> int" where
  "lifetime opts sc = (if sc = AdminScope then admin_ttl opts else ttl opts)"

definition idle_time :: "session_options \<Rightarrow> scope \<Rightarrow> int" where
  "idle_time opts sc = (if sc = AdminScope then admin_idle opts else idle opts)"

definition new_session :: "session_options \<Rightarrow> string \<Rightarrow> scope \<Rightarrow> timestamp \<Rightarrow> session" where
  "new_session opts user sc now =
     \<lparr>s_user = user, s_scope = sc, s_created = now, s_last_used = now, s_expires_at = now + lifetime opts sc\<rparr>"

lemma session_expired_iff:
  "session_expired opts s now \<longleftrightarrow> s_expires_at s \<le> now \<or> s_last_used s + idle_time opts (s_scope s) \<le> now"
  by (simp add: session_expired_def is_expired_def idle_time_def)

lemma session_issue_cases:
  assumes "session_issue E opts random now user sc T = (r, T')"
  obtains (failed) e where "r = Inl e" "T' = T"
  | (ok) bytes k where "random = Some bytes" "sha_of_text E (token_prefix sc @ to_hex bytes) = Inr k"
      "r = Inr \<lparr>it_token = token_prefix sc @ to_hex bytes, it_expires_at = now + lifetime opts sc\<rparr>"
      "T' = AList.update k (new_session opts user sc now) (drop_oldest_of opts user sc (drop_expired opts now T))"
proof (cases random)
  case None
  then show ?thesis using assms failed by (auto simp: session_issue_def fail_def)
next
  case (Some bytes)
  then show ?thesis
    using assms failed ok
    by (cases "sha_of_text E (token_prefix sc @ to_hex bytes)")
      (auto simp: session_issue_def Let_def lifetime_def new_session_def split: if_splits)
qed

lemma session_verify_cases:
  assumes "session_verify E opts now token sc T = (r, T')"
  obtains (refused) e where "r = Inl e" "T' = T"
  | (dead) k s e where "sha_of_text E token = Inr k" "map_of T k = Some s" "session_expired opts s now"
      "r = Inl e" "T' = AList.delete k T"
  | (ok) k s where "starts_with token (token_prefix sc)" "sha_of_text E token = Inr k" "map_of T k = Some s"
      "s_scope s = sc" "\<not> session_expired opts s now" "r = Inr (s_user s)"
      "T' = AList.update k (s\<lparr>s_last_used := now\<rparr>) T"
proof (cases "sha_of_text E token")
  case (Inl e)
  then show ?thesis
    using assms refused by (auto simp: session_verify_def auth_denied_def fail_def split: if_splits)
next
  case (Inr k)
  consider "\<not> starts_with token (token_prefix sc) \<or> map_of T k = None \<or> (\<exists>s. map_of T k = Some s \<and> s_scope s \<noteq> sc)"
    | s where "starts_with token (token_prefix sc)" "map_of T k = Some s" "s_scope s = sc" by fastforce
  then show ?thesis
  proof cases
    case 1
    then have "(\<exists>e. r = Inl e) \<and> T' = T"
      using assms Inr
      by (cases "starts_with token (token_prefix sc)") (auto simp: session_verify_def auth_denied_def fail_def)
    then show ?thesis using refused by blast
  next
    case 2
    show ?thesis
    proof (cases "session_expired opts s now")
      case True
      then show ?thesis
        using assms Inr 2 by (intro dead [OF Inr 2(2)]) (auto simp: session_verify_def auth_denied_def fail_def)
    next
      case False
      then show ?thesis
        using assms Inr 2 by (intro ok [OF 2(1) Inr 2(2,3)]) (auto simp: session_verify_def)
    qed
  qed
qed

text \<open>The operations that end the session of \<open>user\<close> whose token has digest \<open>k\<close>.\<close>

fun ends_session :: "evp \<Rightarrow> sha256_digest \<Rightarrow> string \<Rightarrow> session_op \<Rightarrow> bool" where
  "ends_session E k user (SRevoke token) \<longleftrightarrow> sha_of_text E token = Inr k"
| "ends_session E k user (SRevokeUser u) \<longleftrightarrow> u = user"
| "ends_session E k user _ \<longleftrightarrow> False"

definition same_session :: "session \<Rightarrow> session \<Rightarrow> bool" where
  "same_session s s' \<longleftrightarrow>
     s_user s' = s_user s \<and> s_scope s' = s_scope s \<and> s_created s' = s_created s \<and> s_expires_at s' = s_expires_at s"

lemma same_session_refl [simp, intro]: "same_session s s"
  by (simp add: same_session_def)

lemma drop_expired_Some:
  "distinct (map fst T) \<Longrightarrow>
   map_of (drop_expired opts now T) k = Some s \<longleftrightarrow> map_of T k = Some s \<and> \<not> session_expired opts s now"
  by (simp add: drop_expired_def map_of_filter_Some)

lemma drop_oldest_Some: "map_of (drop_oldest_of opts user sc T) k = Some s \<Longrightarrow> map_of T k = Some s"
  by (auto simp: drop_oldest_of_def split: prod.splits option.splits if_splits)

lemma session_do_origin:
  assumes "distinct (map fst T)" "map_of (session_do E opts op T) k = Some s"
  shows "(\<exists>s0. map_of T k = Some s0 \<and> same_session s0 s \<and> \<not> ends_session E k (s_user s) op) \<or>
    (\<exists>now bytes. op = SIssue now (Some bytes) (s_user s) (s_scope s) \<and>
       sha_of_text E (token_prefix (s_scope s) @ to_hex bytes) = Inr k \<and> s = new_session opts (s_user s) (s_scope s) now)"
proof (cases op)
  case (SIssue now random user sc)
  obtain r T' where i: "session_issue E opts random now user sc T = (r, T')" by fastforce
  then show ?thesis
  proof (cases rule: session_issue_cases)
    case (failed e)
    then show ?thesis using assms(2) SIssue i by auto
  next
    case (ok bytes k')
    show ?thesis
    proof (cases "k' = k")
      case True
      then have "s = new_session opts user sc now" using assms(2) SIssue i ok(4) by simp
      then show ?thesis using SIssue ok(1,2) True by (simp add: new_session_def)
    next
      case False
      then have "map_of (drop_oldest_of opts user sc (drop_expired opts now T)) k = Some s"
        using assms(2) SIssue i ok(4) by simp
      then have "map_of T k = Some s"
        using drop_oldest_Some drop_expired_Some [OF assms(1)] by blast
      then show ?thesis using SIssue by auto
    qed
  qed
next
  case (SVerify now token sc)
  obtain r T' where v: "session_verify E opts now token sc T = (r, T')" by fastforce
  have m: "map_of T' k = Some s" using assms(2) SVerify v by simp
  from v have "\<exists>s0. map_of T k = Some s0 \<and> same_session s0 s"
    by (cases rule: session_verify_cases) (use m in \<open>auto simp: same_session_def split: if_splits\<close>)
  then show ?thesis using SVerify by simp
next
  case (SRevoke token)
  then show ?thesis using assms(2) by (auto simp: session_revoke_def split: sum.splits if_splits)
next
  case (SRevokeUser user)
  then show ?thesis using assms by (auto simp: session_revoke_user_def map_of_filter_Some)
next
  case (SList now)
  then show ?thesis using assms by (auto simp: session_list_def Let_def drop_expired_Some)
qed

definition issued_by :: "evp \<Rightarrow> session_options \<Rightarrow> session_op list \<Rightarrow> sha256_digest \<Rightarrow> session \<Rightarrow> bool" where
  "issued_by E opts ops k s \<longleftrightarrow>
     (\<exists>ops1 bytes ops2. ops = ops1 @ SIssue (s_created s) (Some bytes) (s_user s) (s_scope s) # ops2 \<and>
        sha_of_text E (token_prefix (s_scope s) @ to_hex bytes) = Inr k \<and>
        s_expires_at s = s_created s + lifetime opts (s_scope s) \<and> \<not> list_ex (ends_session E k (s_user s)) ops2)"

lemma session_origin:
  "map_of (session_run E opts ops) k = Some s \<Longrightarrow> issued_by E opts ops k s"
proof (induction ops arbitrary: s rule: rev_induct)
  case (snoc op ops)
  from session_do_origin [OF session_run_distinct snoc.prems [unfolded session_run_simps]]
  consider (old) s0 where "map_of (session_run E opts ops) k = Some s0" "same_session s0 s"
      "\<not> ends_session E k (s_user s) op"
    | (new) now bytes where "op = SIssue now (Some bytes) (s_user s) (s_scope s)"
      "sha_of_text E (token_prefix (s_scope s) @ to_hex bytes) = Inr k" "s = new_session opts (s_user s) (s_scope s) now"
    by blast
  then show ?case
  proof cases
    case old
    from snoc.IH [OF old(1)] obtain ops1 bytes ops2 where
      "ops = ops1 @ SIssue (s_created s) (Some bytes) (s_user s) (s_scope s) # ops2"
      "sha_of_text E (token_prefix (s_scope s) @ to_hex bytes) = Inr k"
      "s_expires_at s = s_created s + lifetime opts (s_scope s)" "\<not> list_ex (ends_session E k (s_user s)) ops2"
      using old(2) by (auto simp: issued_by_def same_session_def)
    then show ?thesis
      unfolding issued_by_def using old(3)
      by (intro exI [of _ ops1] exI [of _ bytes] exI [of _ "ops2 @ [op]"]) simp
  next
    case new
    have "s_created s = now" "s_expires_at s = now + lifetime opts (s_scope s)"
      using arg_cong [OF new(3), of s_created] arg_cong [OF new(3), of s_expires_at]
      by (simp_all add: new_session_def)
    then show ?thesis
      unfolding issued_by_def using new(1,2)
      by (intro exI [of _ ops] exI [of _ bytes] exI [of _ "[]"]) simp
  qed
qed simp

text \<open>
  C9. A bearer token is worth exactly the login it came from. After any sequence of logins,
  requests, logouts and administrator actions, a token is accepted for a user and a scope only if
  a session was issued to that user with that scope for a token with the same SHA-256 digest,
  the lifetime counted from that login has not passed, and neither that token was revoked nor
  the user logged out everywhere since.
\<close>

theorem token_authentic:
  assumes "session_verify E opts now token sc (session_run E opts ops) = (Inr user, T')"
  shows "\<exists>ops1 t bytes ops2. ops = ops1 @ SIssue t (Some bytes) user sc # ops2 \<and>
    sha_of_text E token = sha_of_text E (token_prefix sc @ to_hex bytes) \<and>
    now < t + (if sc = AdminScope then admin_ttl opts else ttl opts) \<and>
    (\<forall>other. SRevoke other \<in> set ops2 \<longrightarrow> sha_of_text E other \<noteq> sha_of_text E token) \<and> SRevokeUser user \<notin> set ops2"
  using assms
proof (cases rule: session_verify_cases)
  case (ok k s)
  from session_origin [OF ok(3)] obtain ops1 bytes ops2 where o:
    "ops = ops1 @ SIssue (s_created s) (Some bytes) (s_user s) (s_scope s) # ops2"
    "sha_of_text E (token_prefix (s_scope s) @ to_hex bytes) = Inr k"
    "s_expires_at s = s_created s + lifetime opts (s_scope s)" "\<not> list_ex (ends_session E k (s_user s)) ops2"
    unfolding issued_by_def by blast
  have "now < s_created s + lifetime opts sc"
    using ok(4,5) o(3) by (simp add: session_expired_iff)
  moreover have e: "\<forall>op \<in> set ops2. \<not> ends_session E k user op" using o(4) ok(6) by (simp add: list_ex_iff)
  moreover from e have "\<forall>other. SRevoke other \<in> set ops2 \<longrightarrow> sha_of_text E other \<noteq> sha_of_text E token"
    "SRevokeUser user \<notin> set ops2"
    using ok(2) by auto
  ultimately show ?thesis
    using o(1,2) ok(2,4,6)
    by (intro exI [of _ ops1] exI [of _ "s_created s"] exI [of _ bytes] exI [of _ ops2]) (simp add: lifetime_def)
qed simp_all


definition sample_options :: session_options where
  "sample_options = \<lparr>ttl = 3600, idle = 900, max_per_user = 20, admin_ttl = 3600, admin_idle = 900\<rparr>"

definition sample_token :: string where
  "sample_token = kPrefix @ to_hex [1, 2]"

definition sample_ops :: "session_op list" where
  "sample_ops = [SIssue 100 (Some [1, 2]) ''bob'' UserScope, SVerify 500 sample_token UserScope, SRevoke ''ftu_other'']"

theorem token_authentic_witness:
  "\<exists>ops1 t bytes ops2. sample_ops = ops1 @ SIssue t (Some bytes) ''bob'' UserScope # ops2 \<and> 1000 < t + 3600"
proof -
  have "fst (session_verify sample_evp sample_options 1000 sample_token UserScope (session_run sample_evp sample_options sample_ops)) =
      Inr ''bob''"
    by code_simp
  then obtain T' where "session_verify sample_evp sample_options 1000 sample_token UserScope
      (session_run sample_evp sample_options sample_ops) = (Inr ''bob'', T')" by (metis prod.collapse)
  from token_authentic [OF this] show ?thesis by (auto simp: sample_options_def)
qed

subsection \<open>A token works until it expires or is revoked\<close>

lemma session_verify_ok:
  assumes "starts_with token (token_prefix sc)" "sha_of_text E token = Inr k" "map_of T k = Some s" "s_scope s = sc"
    "\<not> session_expired opts s now"
  shows "session_verify E opts now token sc T = (Inr (s_user s), AList.update k (s\<lparr>s_last_used := now\<rparr>) T)"
  using assms by (simp add: session_verify_def)

lemma prefixes_apart: "starts_with (token_prefix sc @ r) (token_prefix sc') \<longleftrightarrow> sc' = sc"
  by (cases sc; cases sc') (simp_all add: starts_with_def kPrefix_def kAdminPrefix_def)



subsection \<open>How many sessions a user has\<close>

definition owned :: "string \<Rightarrow> scope \<Rightarrow> session_table \<Rightarrow> sha256_digest set" where
  "owned user sc T = {k. \<exists>s. map_of T k = Some s \<and> s_user s = user \<and> s_scope s = sc}"

lemma finite_owned [simp]: "finite (owned user sc T)"
  by (rule finite_subset [of _ "dom (map_of T)"]) (auto simp: owned_def finite_dom_map_of)

abbreviation mine :: "string \<Rightarrow> scope \<Rightarrow> (sha256_digest \<times> session) \<Rightarrow> bool" where
  "mine user sc kv \<equiv> s_user (snd kv) = user \<and> s_scope (snd kv) = sc"

lemma fst_image_filter: "fst ` set (filter P T) = {k. \<exists>v. (k, v) \<in> set T \<and> P (k, v)}"
proof (intro equalityI subsetI)
  fix k assume "k \<in> fst ` set (filter P T)"
  then obtain kv where "kv \<in> set T" "P kv" "k = fst kv" by auto
  then have "(k, snd kv) \<in> set T \<and> P (k, snd kv)" by simp
  then show "k \<in> {k. \<exists>v. (k, v) \<in> set T \<and> P (k, v)}" by blast
next
  fix k assume "k \<in> {k. \<exists>v. (k, v) \<in> set T \<and> P (k, v)}"
  then obtain v where "(k, v) \<in> set (filter P T)" by auto
  then show "k \<in> fst ` set (filter P T)" by (rule image_eqI [rotated]) simp
qed

lemma owned_card:
  assumes "distinct (map fst T)"
  shows "card (owned user sc T) = length (filter (mine user sc) T)"
proof -
  have "owned user sc T = fst ` set (filter (mine user sc) T)"
    unfolding owned_def map_of_eq_Some_iff [OF assms] fst_image_filter by simp
  moreover have "card (fst ` set (filter (mine user sc) T)) = length (filter (mine user sc) T)"
    using distinct_card [OF distinct_filter_fst [OF assms, of "mine user sc"]] by simp
  ultimately show ?thesis by simp
qed

lemma oldest_of_count: "fst (oldest_of user sc T n old) = n + length (filter (mine user sc) T)"
proof (induction T arbitrary: n old)
  case (Cons kv T)
  then show ?case by (cases kv) simp
qed simp

lemma oldest_of_Some: "oldest_of user sc T n (Some kv) = (m, old) \<Longrightarrow>
    \<exists>kv'. old = Some kv' \<and> (kv' = kv \<or> kv' \<in> set T \<and> mine user sc kv')"
proof (induction T arbitrary: n kv)
  case (Cons x T)
  obtain k s where x: "x = (k, s)" by fastforce
  show ?case
  proof (cases "mine user sc x")
    case False
    then have "oldest_of user sc T n (Some kv) = (m, old)" using Cons.prems x by (simp split: if_splits)
    from Cons.IH [OF this] show ?thesis by auto
  next
    case True
    obtain k' s' where kv: "kv = (k', s')" by fastforce
    let ?old = "if s_created s < s_created s' then x else kv"
    have "oldest_of user sc T (Suc n) (Some ?old) = (m, old)"
      using Cons.prems x kv True by (simp split: if_splits)
    from Cons.IH [OF this] True show ?thesis by (auto split: if_splits)
  qed
qed auto

lemma oldest_of_None: "oldest_of user sc T n None = (m, old) \<Longrightarrow>
    (case old of None \<Rightarrow> filter (mine user sc) T = [] | Some kv \<Rightarrow> kv \<in> set T \<and> mine user sc kv)"
proof (induction T arbitrary: n)
  case (Cons x T)
  obtain k s where x: "x = (k, s)" by fastforce
  show ?case
  proof (cases "mine user sc x")
    case False
    then have "oldest_of user sc T n None = (m, old)" using Cons.prems x by (simp split: if_splits)
    from Cons.IH [OF this] False show ?thesis by (auto split: option.splits)
  next
    case True
    then have "oldest_of user sc T (Suc n) (Some x) = (m, old)" using Cons.prems x by simp
    from oldest_of_Some [OF this] True show ?thesis by auto
  qed
qed simp


lemma owned_mono:
  "(\<And>k s. map_of T' k = Some s \<Longrightarrow> \<exists>s0. map_of T k = Some s0 \<and> same_session s0 s) \<Longrightarrow> owned u sc T' \<subseteq> owned u sc T"
  by (force simp: owned_def same_session_def)

lemma owned_drop_oldest:
  assumes "distinct (map fst T)" "card (owned user sc T) \<le> max_per_user opts" "1 \<le> max_per_user opts"
  shows "card (owned user sc (drop_oldest_of opts user sc T)) < max_per_user opts"
proof -
  obtain m old where o: "oldest_of user sc T 0 None = (m, old)" by fastforce
  have m: "m = card (owned user sc T)"
    using oldest_of_count [of user sc T 0 None] o owned_card [OF assms(1)] by simp
  note n = oldest_of_None [OF o]
  show ?thesis
  proof (cases old)
    case None
    then have "owned user sc T = {}" using n owned_card [OF assms(1), of user sc] by simp
    then show ?thesis using o None assms(3) by (simp add: drop_oldest_of_def)
  next
    case (Some kv)
    obtain k s where kv: "kv = (k, s)" by fastforce
    have k: "k \<in> owned user sc T"
      using n Some kv map_of_eq_Some_iff [OF assms(1)] by (auto simp: owned_def)
    show ?thesis
    proof (cases "max_per_user opts \<le> m")
      case True
      then have d: "drop_oldest_of opts user sc T = AList.delete k T"
        using o Some kv by (simp add: drop_oldest_of_def)
      have "owned user sc (AList.delete k T) = owned user sc T - {k}" by (auto simp: owned_def)
      then have "card (owned user sc (drop_oldest_of opts user sc T)) < card (owned user sc T)"
        unfolding d using card_Diff1_less [OF finite_owned k] by simp
      then show ?thesis using assms(2) by simp
    next
      case False
      then show ?thesis using o Some kv m by (simp add: drop_oldest_of_def)
    qed
  qed
qed

lemma session_do_limit:
  assumes "distinct (map fst T)" "\<And>u sc. card (owned u sc T) \<le> max_per_user opts" "1 \<le> max_per_user opts"
  shows "card (owned u sc (session_do E opts op T)) \<le> max_per_user opts"
proof (cases "\<exists>now random user sc'. op = SIssue now random user sc'")
  case False
  have "owned u sc (session_do E opts op T) \<subseteq> owned u sc T"
    by (rule owned_mono) (use session_do_origin [OF assms(1)] False in blast)
  from card_mono [OF finite_owned this] show ?thesis using assms(2) [of u sc] by linarith
next
  case True
  then obtain now random user sc' where op: "op = SIssue now random user sc'" by blast
  obtain r T' where i: "session_issue E opts random now user sc' T = (r, T')" by fastforce
  then show ?thesis
  proof (cases rule: session_issue_cases)
    case (failed e)
    then show ?thesis using op i assms(2) by simp
  next
    case (ok bytes k)
    let ?T1 = "drop_expired opts now T"
    let ?T2 = "drop_oldest_of opts user sc' ?T1"
    have d1: "distinct (map fst ?T1)" using assms(1) by (simp add: drop_expired_def distinct_filter_fst)
    have s1: "owned u' sc'' ?T1 \<subseteq> owned u' sc'' T" for u' sc''
      using drop_expired_Some [OF assms(1)] by (intro owned_mono) blast
    then have c1: "card (owned u' sc'' ?T1) \<le> max_per_user opts" for u' sc''
      using card_mono [OF finite_owned s1 [of u' sc'']] assms(2) [of u' sc''] by linarith
    have s2: "owned u' sc'' ?T2 \<subseteq> owned u' sc'' ?T1" for u' sc''
      using drop_oldest_Some by (intro owned_mono) blast
    have T': "session_do E opts op T = AList.update k (new_session opts user sc' now) ?T2"
      using op i ok(4) by simp
    show ?thesis
    proof (cases "u = user \<and> sc = sc'")
      case True
      have "owned u sc (session_do E opts op T) \<subseteq> insert k (owned u sc ?T2)"
        unfolding T' by (auto simp: owned_def)
      from card_mono [OF _ this] have "card (owned u sc (session_do E opts op T)) \<le> Suc (card (owned u sc ?T2))"
        using card_insert_le_m1 [of "Suc (card (owned u sc ?T2))" "owned u sc ?T2" k] by simp
      then show ?thesis using owned_drop_oldest [OF d1 c1 assms(3), of user sc'] True by simp
    next
      case False
      have "owned u sc (session_do E opts op T) \<subseteq> owned u sc ?T2"
        unfolding T' using False by (auto simp: owned_def new_session_def split: if_splits)
      from card_mono [OF finite_owned this] card_mono [OF finite_owned s2] c1 show ?thesis
        using le_trans by blast
    qed
  qed
qed

text \<open>
  Nobody piles up sessions. After any sequence of operations a user has at most
  \<open>max_per_user\<close> sessions of each scope.
\<close>

theorem session_limit:
  assumes "1 \<le> max_per_user opts"
  shows "card {k. \<exists>s. map_of (session_run E opts ops) k = Some s \<and> s_user s = user \<and> s_scope s = sc} \<le> max_per_user opts"
proof -
  have "\<forall>user sc. card (owned user sc (session_run E opts ops)) \<le> max_per_user opts"
  proof (induction ops rule: rev_induct)
    case (snoc op ops)
    then show ?case using session_do_limit [OF session_run_distinct _ assms] by simp
  qed (simp add: owned_def)
  then show ?thesis by (simp add: owned_def)
qed

theorem session_limit_witness:
  "card {k. \<exists>s. map_of (session_run sample_evp sample_options sample_ops) k = Some s \<and> s_user s = ''bob'' \<and> s_scope s = UserScope} \<le> 20"
  using session_limit [of sample_options sample_evp sample_ops "''bob''" UserScope] by (simp add: sample_options_def)

end
