(* ===== verification/Config_Types.thy ===== *)
theory Config_Types
  imports Log_Tech
begin

section \<open>The typed configuration\<close>

text \<open>
  \<^verbatim>\<open>src/src/lib/config/config.hpp\<close>: the parsed configuration as records, with its lookups. File
  names are texts; unsigned fields are natural numbers, whose bounds the parser checks.
\<close>

subsection \<open>Model\<close>

definition name_char :: "char \<Rightarrow> bool" where
  "name_char c \<longleftrightarrow>
     char_in 97 122 c \<or> char_in 65 90 c \<or> is_digit c \<or> c = CHR ''-'' \<or> c = CHR ''_'' \<or> c = CHR ''.''"

definition is_valid_name :: "string \<Rightarrow> bool" where
  "is_valid_name s \<longleftrightarrow> s \<noteq> [] \<and> length s \<le> 64 \<and> list_all name_char s"

record rest_cfg =
  rc_bind :: string
  rc_port :: nat
  rc_threads :: nat
  rc_request_timeout_ms :: nat

record tls_cfg =
  tls_enabled :: bool
  tls_cert_path :: string
  tls_key_path :: string
  tls_ca_path :: string

record user_cfg =
  uc_name :: string
  uc_password_hash :: string

record group_cfg =
  gc_name :: string
  gc_members :: "string list"

datatype auth_provider = LocalProvider | LdapProvider

record ldap_cfg =
  lc_preset :: string
  lc_uri :: string
  lc_start_tls :: bool
  lc_tls_verify :: bool
  lc_ca_file :: string
  lc_timeout_s :: nat
  lc_bind_dn :: string
  lc_bind_password :: string
  lc_bind_password_file :: string
  lc_user_base_dn :: string
  lc_user_filter :: string
  lc_username_attribute :: string
  lc_group_base_dn :: string
  lc_group_filter :: string
  lc_member_of_filter :: string
  lc_group_name_attribute :: string
  lc_cache_ttl_s :: nat

record auth_cfg =
  ac_users :: "user_cfg list"
  ac_users_file :: string
  ac_groups :: "group_cfg list"
  ac_groups_file :: string
  ac_token_ttl_s :: nat
  ac_token_idle_s :: nat
  ac_admin_group :: string
  ac_admin_token_ttl_s :: nat
  ac_admin_token_idle_s :: nat
  ac_provider :: auth_provider
  ac_ldap :: ldap_cfg

record log_cfg =
  lg_level :: log_level
  lg_dir :: string
  lg_rotate_bytes :: nat

record retention_cfg =
  rt_default_days :: nat
  rt_max_days :: nat
  rt_sweep_interval_s :: nat

definition kMinPeerTokenLength :: nat where "kMinPeerTokenLength = 32"

record peer_cfg =
  pc_name :: string
  pc_host :: string
  pc_port :: nat
  pc_token :: string
  pc_accept_token :: string

record config =
  cf_instance_name :: string
  cf_storage_root :: string
  cf_rest :: rest_cfg
  cf_tls :: tls_cfg
  cf_auth :: auth_cfg
  cf_log :: log_cfg
  cf_retention :: retention_cfg
  cf_peers :: "peer_cfg list"
  cf_warnings :: "string list"

definition find_peer :: "config \<Rightarrow> string \<Rightarrow> peer_cfg option" where
  "find_peer cfg name = find (\<lambda>p. pc_name p = name) (cf_peers cfg)"

definition find_user :: "config \<Rightarrow> string \<Rightarrow> user_cfg option" where
  "find_user cfg name = find (\<lambda>u. uc_name u = name) (ac_users (cf_auth cfg))"

definition find_group :: "config \<Rightarrow> string \<Rightarrow> group_cfg option" where
  "find_group cfg name = find (\<lambda>g. gc_name g = name) (ac_groups (cf_auth cfg))"

definition cfg_is_member :: "config \<Rightarrow> string \<Rightarrow> string \<Rightarrow> bool" where
  "cfg_is_member cfg user grp =
     (case find_group cfg grp of None \<Rightarrow> False | Some g \<Rightarrow> user \<in> set (gc_members g))"

subsection \<open>Lemmas\<close>

lemma name_char_not: "\<not> name_char CHR '':''" "\<not> name_char CHR ''@''" "\<not> name_char CHR ''/''" "\<not> name_char CHR '' ''"
  "\<not> name_char CHR '',''" "\<not> name_char CHR ''#''" "\<not> name_char (CHR 0x00)" "\<not> name_char CHR ''*''" "\<not> name_char CHR ''(''"
  "\<not> name_char CHR '')''"
  by (simp_all add: name_char_def char_in_def ord_def)

lemma valid_name_notin: "is_valid_name s \<Longrightarrow> \<not> name_char c \<Longrightarrow> c \<notin> set s"
  by (auto simp: is_valid_name_def list_all_iff)

lemma find_Some_in: "find P xs = Some x \<Longrightarrow> x \<in> set xs \<and> P x"
  by (auto simp: find_Some_iff)

end
