(* ===== verification/Auth_Directory.thy ===== *)
theory Auth_Directory
  imports Auth_Password Common_Sha256 Config_Types "HOL-Library.Code_Target_Nat"
begin

section \<open>User directories\<close>

text \<open>
  \<^verbatim>\<open>src/src/lib/auth/user_directory.hpp\<close> and \<^verbatim>\<open>local_directory.cpp\<close>. The interface
  \<^verbatim>\<open>IUserDirectory\<close> is a record of its four calls over a state \<open>'d\<close> (the caches behind
  \<^verbatim>\<open>mutable\<close> members), with the time as an argument; its contract is the locale
  \<open>directory_contract\<close>. \<open>LocalDirectory\<close> is the first implementation. A \<^verbatim>\<open>std::map\<close> is an
  association list sorted by its keys. OpenSSL's digest and key derivation are the parameters \<open>E\<close>
  and \<open>K\<close>.
\<close>

subsection \<open>Model: the interface\<close>

record 'd directory =
  dir_verify :: "timestamp \<Rightarrow> string \<Rightarrow> string \<Rightarrow> 'd \<Rightarrow> string result \<times> 'd"
  dir_has_user :: "timestamp \<Rightarrow> string \<Rightarrow> 'd \<Rightarrow> bool result \<times> 'd"
  dir_has_group :: "timestamp \<Rightarrow> string \<Rightarrow> 'd \<Rightarrow> bool result \<times> 'd"
  dir_is_member :: "timestamp \<Rightarrow> string \<Rightarrow> string \<Rightarrow> 'd \<Rightarrow> bool \<times> 'd"

definition kDenied :: string where "kDenied = ''invalid user name or password''"

subsection \<open>Model: users and groups of the configuration\<close>

record local_directory =
  ld_users :: "(string \<times> password_hash) list"
  ld_groups :: "(string \<times> string list) list"
  ld_dummy :: "password_hash option"
  ld_verified :: "(string \<times> sha256_digest) list"

definition ld_denied :: "string \<Rightarrow> 'a result" where
  "ld_denied d = fail Auth d"

text \<open>\<^verbatim>\<open>std::map::emplace\<close>: the first value of a key stays.\<close>

definition emplace :: "string \<Rightarrow> 'v \<Rightarrow> (string \<times> 'v) list \<Rightarrow> (string \<times> 'v) list" where
  "emplace k v m = (if map_of m k = None then insort_key fst (k, v) m else m)"

definition fingerprint :: "evp \<Rightarrow> password_hash \<Rightarrow> string \<Rightarrow> sha256_digest result" where
  "fingerprint E hash password =
     cfd_try (sha_create E) (\<lambda>sha.
       fst (cfd_tryS (sha_update E sha (salt hash)) (\<lambda>_ sha.
            cfd_tryS (sha_update E sha (as_bytes password)) (\<lambda>_ sha.
            sha_finish E sha))))"

fun ld_load_users :: "user_cfg list \<Rightarrow> (string \<times> password_hash) list \<Rightarrow> (string \<times> password_hash) list result" where
  "ld_load_users [] users = Inr users"
| "ld_load_users (u # us) users =
     (case password_parse (uc_password_hash u) of
        Inl e \<Rightarrow> fail Validation (''user '' @ quoted (uc_name u) @ '': password_hash: '' @ detail e)
      | Inr hash \<Rightarrow> ld_load_users us (emplace (uc_name u) hash users))"

definition ld_create :: "config \<Rightarrow> local_directory result" where
  "ld_create cfg =
     cfd_try (ld_load_users (ac_users (cf_auth cfg)) []) (\<lambda>users.
       let groups = fold (\<lambda>g m. emplace (gc_name g) (gc_members g) m) (ac_groups (cf_auth cfg)) [];
           dummy = (case users of [] \<Rightarrow> None | (_, h) # _ \<Rightarrow> Some h)
       in Inr \<lparr>ld_users = users, ld_groups = groups, ld_dummy = dummy, ld_verified = []\<rparr>)"

definition check_password ::
  "evp \<Rightarrow> kdf \<Rightarrow> string \<Rightarrow> password_hash \<Rightarrow> string \<Rightarrow> local_directory \<Rightarrow> bool \<times> local_directory" where
  "check_password E K user hash password d =
     (let print = fingerprint E hash password;
          known = (case print of Inl _ \<Rightarrow> False | Inr p \<Rightarrow> map_of (ld_verified d) user = Some p)
      in if known then (True, d)
         else if \<not> password_verify K hash password then (False, d)
         else case print of
             Inl _ \<Rightarrow> (True, d)
           | Inr p \<Rightarrow> (True, d\<lparr>ld_verified := AList.update user p (ld_verified d)\<rparr>))"

text \<open>The password of an unknown user is checked against the dummy hash, for its time only.\<close>

definition ld_verify :: "evp \<Rightarrow> kdf \<Rightarrow> string \<Rightarrow> string \<Rightarrow> local_directory \<Rightarrow> string result \<times> local_directory" where
  "ld_verify E K user password d =
     (case map_of (ld_users d) user of
        None \<Rightarrow> (ld_denied kDenied, d)
      | Some hash \<Rightarrow>
          (case check_password E K user hash password d of
             (ok, d) \<Rightarrow> (if ok then Inr user else ld_denied kDenied, d)))"

definition ld_has_user :: "local_directory \<Rightarrow> string \<Rightarrow> bool result" where
  "ld_has_user d name = Inr (map_of (ld_users d) name \<noteq> None)"

definition ld_has_group :: "local_directory \<Rightarrow> string \<Rightarrow> bool result" where
  "ld_has_group d name = Inr (map_of (ld_groups d) name \<noteq> None)"

definition ld_is_member :: "local_directory \<Rightarrow> string \<Rightarrow> string \<Rightarrow> bool" where
  "ld_is_member d user grp =
     (case map_of (ld_groups d) grp of None \<Rightarrow> False | Some members \<Rightarrow> user \<in> set members)"

definition local_dir :: "evp \<Rightarrow> kdf \<Rightarrow> local_directory directory" where
  "local_dir E K = \<lparr>dir_verify = (\<lambda>_. ld_verify E K),
     dir_has_user = (\<lambda>_ name d. (ld_has_user d name, d)),
     dir_has_group = (\<lambda>_ name d. (ld_has_group d name, d)),
     dir_is_member = (\<lambda>_ user grp d. (ld_is_member d user grp, d))\<rparr>"

subsection \<open>The contract of a directory\<close>

text \<open>
  Every call keeps the directory's invariant; a refused login always carries the same detail, so an
  unknown name cannot be told from a wrong password; other failures of a login are that the backend
  cannot be reached or that the digest library failed.
\<close>

locale directory_contract =
  fixes D :: "'d directory"
    and inv :: "'d \<Rightarrow> bool"
  assumes verify_inv: "inv d \<Longrightarrow> inv (snd (dir_verify D now user password d))"
    and has_user_inv: "inv d \<Longrightarrow> inv (snd (dir_has_user D now name d))"
    and has_group_inv: "inv d \<Longrightarrow> inv (snd (dir_has_group D now name d))"
    and is_member_inv: "inv d \<Longrightarrow> inv (snd (dir_is_member D now user grp d))"
    and verify_error: "inv d \<Longrightarrow> fst (dir_verify D now user password d) = Inl e \<Longrightarrow>
      e = Error Auth kDenied \<or> code e \<in> {Unavailable, Internal}"
begin

lemma auth_error_uniform:
  "inv d \<Longrightarrow> fst (dir_verify D now user password d) = Inl e \<Longrightarrow> code e = Auth \<Longrightarrow> detail e = kDenied"
  using verify_error by fastforce

lemma verify_never_throttles:
  "inv d \<Longrightarrow> fst (dir_verify D now user password d) = Inl e \<Longrightarrow> code e \<noteq> Throttled \<and> code e \<noteq> Forbidden"
  using verify_error by fastforce

end

lemma check_password_users [simp]:
  "ld_users (snd (check_password E K user h p d)) = ld_users d"
  "ld_groups (snd (check_password E K user h p d)) = ld_groups d"
  by (simp_all add: check_password_def Let_def split: sum.split)

lemma ld_verify_users [simp]:
  "ld_users (snd (ld_verify E K user p d)) = ld_users d" "ld_groups (snd (ld_verify E K user p d)) = ld_groups d"
  by (cases "map_of (ld_users d) user"; simp add: ld_verify_def case_prod_beta)+

interpretation local_directory: directory_contract "local_dir E K" "\<lambda>d. ld_users d = us \<and> ld_groups d = gs"
proof unfold_locales
  fix d now user password e
  assume "fst (dir_verify (local_dir E K) now user password d) = Inl e"
  then show "e = Error Auth kDenied \<or> code e \<in> {Unavailable, Internal}"
    by (auto simp: local_dir_def ld_verify_def ld_denied_def split: option.splits prod.splits if_splits)
qed (simp_all add: local_dir_def)

subsection \<open>The cache of verified passwords changes no answer\<close>

text \<open>The reference: every password goes through the key derivation.\<close>

definition verify_uncached :: "kdf \<Rightarrow> (string \<times> password_hash) list \<Rightarrow> string \<Rightarrow> string \<Rightarrow> string result" where
  "verify_uncached K users user password =
     (case map_of users user of
        None \<Rightarrow> ld_denied kDenied
      | Some hash \<Rightarrow> if password_verify K hash password then Inr user else ld_denied kDenied)"

definition ld_attempts :: "evp \<Rightarrow> kdf \<Rightarrow> (string \<times> string) list \<Rightarrow> local_directory \<Rightarrow> local_directory" where
  "ld_attempts E K attempts d = fold (\<lambda>(user, password) d. snd (ld_verify E K user password d)) attempts d"

lemma fingerprint_sound:
  assumes "evp_sound E sha" "fingerprint E h p = Inr d"
  shows "d = sha (salt h @ as_bytes p)"
proof -
  have f: "fst q = Inr d \<longleftrightarrow> (\<exists>s. q = (Inr d, s))" for q :: "sha256_digest result \<times> sha256" by (cases q) auto
  show ?thesis
    using assms
    by (fastforce simp: fingerprint_def f try_simps sha_create_Inr sha_update_Inr sha_finish_Inr evp_sound_def)
qed

text \<open>What the cache holds: the fingerprint of a password of \<open>P\<close> the key derivation accepts.\<close>

definition cache_ok :: "(byte list \<Rightarrow> byte list) \<Rightarrow> kdf \<Rightarrow> string set \<Rightarrow> local_directory \<Rightarrow> bool" where
  "cache_ok sha K P d \<longleftrightarrow>
     (\<forall>user print h. map_of (ld_verified d) user = Some print \<longrightarrow> map_of (ld_users d) user = Some h \<longrightarrow>
        (\<exists>q \<in> P. print = sha (salt h @ as_bytes q) \<and> password_verify K h q))"

lemma check_password_correct:
  assumes "evp_sound E sha" "inj_on (\<lambda>p. sha (salt h @ as_bytes p)) P" "p \<in> P" "cache_ok sha K P d"
    "map_of (ld_users d) user = Some h"
  shows "fst (check_password E K user h p d) = password_verify K h p \<and> cache_ok sha K P (snd (check_password E K user h p d))"
proof (cases "fingerprint E h p")
  case (Inl e)
  then show ?thesis using assms(4) by (simp add: check_password_def)
next
  case (Inr print)
  have pr: "print = sha (salt h @ as_bytes p)" by (rule fingerprint_sound [OF assms(1) Inr])
  show ?thesis
  proof (cases "map_of (ld_verified d) user = Some print")
    case True
    with assms(4,5) obtain q where "q \<in> P" "print = sha (salt h @ as_bytes q)" "password_verify K h q"
      unfolding cache_ok_def by blast
    moreover from this have "q = p" using assms(2,3) pr by (metis (no_types, lifting) inj_onD)
    ultimately show ?thesis using True Inr assms(4) by (simp add: check_password_def)
  next
    case False
    have "cache_ok sha K P (d\<lparr>ld_verified := AList.update user print (ld_verified d)\<rparr>)"
      if "password_verify K h p"
      using assms(3-5) that pr by (auto simp: cache_ok_def)
    with False Inr show ?thesis using assms(4) by (simp add: check_password_def)
  qed
qed

lemma ld_attempts_users [simp]: "ld_users (ld_attempts E K as d) = ld_users d"
  by (induction as arbitrary: d) (auto simp: ld_attempts_def)

lemma ld_verify_correct:
  assumes "evp_sound E sha" "\<forall>h \<in> snd ` set (ld_users d). inj_on (\<lambda>p. sha (salt h @ as_bytes p)) P" "p \<in> P"
    "cache_ok sha K P d"
  shows "fst (ld_verify E K user p d) = verify_uncached K (ld_users d) user p \<and> cache_ok sha K P (snd (ld_verify E K user p d))"
proof (cases "map_of (ld_users d) user")
  case (Some h)
  then have "inj_on (\<lambda>p. sha (salt h @ as_bytes p)) P" using assms(2) map_of_SomeD by force
  from check_password_correct [OF assms(1) this assms(3,4) Some] show ?thesis
    by (cases "check_password E K user h p d") (simp add: ld_verify_def verify_uncached_def Some)
qed (use assms(4) in \<open>simp add: ld_verify_def verify_uncached_def\<close>)

lemma ld_attempts_cache:
  assumes "evp_sound E sha" "\<forall>h \<in> snd ` set (ld_users d). inj_on (\<lambda>p. sha (salt h @ as_bytes p)) P"
    "snd ` set as \<subseteq> P" "cache_ok sha K P d"
  shows "cache_ok sha K P (ld_attempts E K as d)"
  using assms(2-4)
proof (induction as arbitrary: d)
  case (Cons a as)
  let ?d = "snd (ld_verify E K (fst a) (snd a) d)"
  have "cache_ok sha K P ?d" using ld_verify_correct [OF assms(1) Cons.prems(1) _ Cons.prems(3)] Cons.prems(2) by simp
  then have "cache_ok sha K P (ld_attempts E K as ?d)" using Cons.IH [of ?d] Cons.prems(1,2) by simp
  then show ?case by (simp add: ld_attempts_def case_prod_beta)
qed (simp add: ld_attempts_def)

text \<open>
  C13. Remembering verified passwords is an optimisation only. Take the directory of any configuration
  and any history of login attempts. As long as SHA-256 does not collide on the salted passwords that
  were ever tried, the answer to the next attempt is the one that the key derivation alone
  gives: the name for the password of the stored hash, and one and the same refusal for a wrong password
  and for an unknown user.
\<close>

theorem password_cache_transparent:
  assumes "ld_create cfg = Inr d" and "evp_sound E sha"
    and "\<forall>h \<in> snd ` set (ld_users d). inj_on (\<lambda>p. sha (salt h @ as_bytes p)) (insert password (snd ` set attempts))"
  shows "fst (ld_verify E K user password (ld_attempts E K attempts d)) = verify_uncached K (ld_users d) user password"
proof -
  have "ld_verified d = []" using assms(1) by (auto simp: ld_create_def try_simps Let_def)
  then have "cache_ok sha K (insert password (snd ` set attempts)) d" by (simp add: cache_ok_def)
  from ld_attempts_cache [OF assms(2,3) subset_insertI this]
  have "cache_ok sha K (insert password (snd ` set attempts)) (ld_attempts E K attempts d)" .
  from ld_verify_correct [OF assms(2) _ insertI1 this] show ?thesis using assms(3) by simp
qed

definition ann_hash :: password_hash where "ann_hash = \<lparr>iterations = 1, salt = [1], key = [0x78]\<rparr>"
definition bob_hash :: password_hash where "bob_hash = \<lparr>iterations = 1, salt = [1], key = [0x70, 0x77]\<rparr>"

definition sample_config :: config where
  "sample_config = \<lparr>cf_instance_name = ''alpha'', cf_storage_root = ''/srv'',
     cf_rest = \<lparr>rc_bind = ''0.0.0.0'', rc_port = 8080, rc_threads = 0, rc_request_timeout_ms = 30000\<rparr>,
     cf_tls = \<lparr>tls_enabled = False, tls_cert_path = [], tls_key_path = [], tls_ca_path = []\<rparr>,
     cf_auth = \<lparr>ac_users = [\<lparr>uc_name = ''bob'', uc_password_hash = password_to_string bob_hash\<rparr>,
         \<lparr>uc_name = ''ann'', uc_password_hash = password_to_string ann_hash\<rparr>],
       ac_users_file = [], ac_groups = [\<lparr>gc_name = ''ops'', gc_members = [''ann'']\<rparr>], ac_groups_file = [],
       ac_token_ttl_s = 3600, ac_token_idle_s = 900, ac_admin_group = ''ops'', ac_admin_token_ttl_s = 3600,
       ac_admin_token_idle_s = 900, ac_provider = LocalProvider,
       ac_ldap = \<lparr>lc_preset = ''openldap'', lc_uri = [], lc_start_tls = False, lc_tls_verify = True,
         lc_ca_file = [], lc_timeout_s = 5, lc_bind_dn = [], lc_bind_password = [], lc_bind_password_file = [],
         lc_user_base_dn = [], lc_user_filter = [], lc_username_attribute = [], lc_group_base_dn = [],
         lc_group_filter = [], lc_member_of_filter = [], lc_group_name_attribute = [], lc_cache_ttl_s = 300\<rparr>\<rparr>,
     cf_log = \<lparr>lg_level = Info, lg_dir = ''/srv/logs'', lg_rotate_bytes = 0\<rparr>,
     cf_retention = \<lparr>rt_default_days = 30, rt_max_days = 365, rt_sweep_interval_s = 3600\<rparr>,
     cf_peers = [\<lparr>pc_name = ''beta'', pc_host = ''beta.example'', pc_port = 8080,
       pc_token = ''aaaaaaaaaaaaaaaaaaaaaaaaaaaaaaaa'', pc_accept_token = ''bbbbbbbbbbbbbbbbbbbbbbbbbbbbbbbb''\<rparr>],
     cf_warnings = []\<rparr>"

definition sample_directory :: local_directory where
  "sample_directory = \<lparr>ld_users = [(''ann'', ann_hash), (''bob'', bob_hash)], ld_groups = [(''ops'', [''ann''])],
     ld_dummy = Some ann_hash, ld_verified = []\<rparr>"

lemma sample_directory_created: "ld_create sample_config = Inr sample_directory"
proof -
  have w: "wf_password ann_hash" "wf_password bob_hash"
    by (simp_all add: wf_password_def ann_hash_def bob_hash_def kMaxIterations_def)
  have e: "emplace ''ann'' ann_hash (emplace ''bob'' bob_hash []) = [(''ann'', ann_hash), (''bob'', bob_hash)]" by code_simp
  have g: "emplace ''ops'' [''ann''] [] = [(''ops'', [''ann''])]" by (simp add: emplace_def)
  show ?thesis
    by (simp add: ld_create_def sample_config_def password_text.dec_enc w e g sample_directory_def Let_def)
qed

theorem password_cache_transparent_witness:
  "fst (ld_verify sample_evp sample_kdf ''bob'' ''pw''
     (ld_attempts sample_evp sample_kdf [(''bob'', ''px''), (''bob'', ''pw''), (''eve'', ''pw'')] sample_directory)) =
   Inr ''bob''"
proof -
  let ?P = "insert ''pw'' (snd ` set [(''bob'', ''px''), (''bob'', ''pw''), (''eve'', ''pw'')])"
  have "sample_sha ([1] @ as_bytes ''pw'') \<noteq> sample_sha ([1] @ as_bytes ''px'')" by code_simp
  then have "inj_on (\<lambda>p. sample_sha ([1] @ as_bytes p)) ?P" by (auto simp: inj_on_def)
  moreover have "salt h = [1]" if "h \<in> snd ` set (ld_users sample_directory)" for h
    using that by (auto simp: sample_directory_def ann_hash_def bob_hash_def)
  ultimately have "\<forall>h \<in> snd ` set (ld_users sample_directory). inj_on (\<lambda>p. sample_sha (salt h @ as_bytes p)) ?P" by simp
  from password_cache_transparent [OF sample_directory_created sample_evp_sound this]
  show ?thesis by (simp only:) code_simp
qed

end
