(* ===== verification/Config_Parser.thy ===== *)
theory Config_Parser
  imports Config_Types Common_Path "HOL-Library.Code_Target_Nat"
begin

section \<open>The configuration parser\<close>

text \<open>
  \<^verbatim>\<open>src/src/lib/config/parser.cpp\<close>, \<^verbatim>\<open>parser/sections.cpp\<close>, \<^verbatim>\<open>parser/auth.cpp\<close>,
  \<^verbatim>\<open>parser/ldap.cpp\<close> and \<^verbatim>\<open>config.cpp\<close>: from a TOML document to a checked configuration. The TOML
  library and the files of the host are parameters: \<open>toml_parse\<close> turns a document into a value or an
  error text, and \<open>host\<close> says what opening a file gives. The list of warnings is threaded through the
  calls as the member \<^verbatim>\<open>warnings_\<close> is. The iteration order of a TOML table, a hash map, is the
  order of its association list. A \<^verbatim>\<open>std::filesystem::path\<close> is its text.
\<close>

subsection \<open>Model: TOML values, files, paths\<close>

datatype toml =
    TString string
  | TBool bool
  | TInt int
  | TArray "toml list"
  | TTable "(string \<times> toml) list"
  | TOther

type_synonym toml_table = "(string \<times> toml) list"
type_synonym toml_parse = "string \<Rightarrow> string \<Rightarrow> string + toml"

text \<open>
  What the host answers: the bytes read from a file and whether the stream went bad after them
  (\<open>None\<close>: it does not open), whether its permissions let others read it, and the working directory.
\<close>

record host =
  h_open :: "string \<Rightarrow> (string \<times> bool) option"
  h_shared :: "string \<Rightarrow> bool"
  h_cwd :: "string option"

definition path_text :: "fs_path \<Rightarrow> string" where
  "path_text p = (if is_absolute p then ''/'' @ join_with CHR ''/'' (tl p) else join_with CHR ''/'' p)"

definition path_slash :: "string \<Rightarrow> string \<Rightarrow> string" where
  "path_slash a b =
     (if starts_with b ''/'' then b else if a = [] \<or> last a = CHR ''/'' then a @ b else a @ ''/'' @ b)"

definition parent_path :: "string \<Rightarrow> string" where
  "parent_path s = (let p = path_elems s in path_text (if p = [''/''] then p else butlast p))"

subsection \<open>Model: getters\<close>

definition cfg_invalid :: "string \<Rightarrow> 'a result" where
  "cfg_invalid d = fail Validation d"

definition toml_section :: "toml_table \<Rightarrow> string \<Rightarrow> toml_table option result" where
  "toml_section tbl key =
     (case map_of tbl key of
        None \<Rightarrow> Inr None
      | Some (TTable t) \<Rightarrow> Inr (Some t)
      | Some _ \<Rightarrow> cfg_invalid (key @ '': expected a table''))"

definition toml_string :: "toml_table \<Rightarrow> string \<Rightarrow> string \<Rightarrow> string \<Rightarrow> string result" where
  "toml_string tbl key whr out =
     (case map_of tbl key of
        None \<Rightarrow> Inr out
      | Some (TString s) \<Rightarrow> Inr s
      | Some _ \<Rightarrow> cfg_invalid (whr @ ''.'' @ key @ '': expected a string''))"

definition toml_bool :: "toml_table \<Rightarrow> string \<Rightarrow> string \<Rightarrow> bool \<Rightarrow> bool result" where
  "toml_bool tbl key whr out =
     (case map_of tbl key of
        None \<Rightarrow> Inr out
      | Some (TBool b) \<Rightarrow> Inr b
      | Some _ \<Rightarrow> cfg_invalid (whr @ ''.'' @ key @ '': expected true or false''))"

definition toml_uint :: "nat \<Rightarrow> toml_table \<Rightarrow> string \<Rightarrow> string \<Rightarrow> nat \<Rightarrow> nat result" where
  "toml_uint mx tbl key whr out =
     (case map_of tbl key of
        None \<Rightarrow> Inr out
      | Some (TInt n) \<Rightarrow>
          if n < 0 \<or> int mx < n
          then cfg_invalid (whr @ ''.'' @ key @ '': '' @ dec_int n @ '' is out of range [0, '' @ dec mx @ '']'')
          else Inr (nat n)
      | Some _ \<Rightarrow> cfg_invalid (whr @ ''.'' @ key @ '': expected an integer''))"

abbreviation toml_u16 :: "toml_table \<Rightarrow> string \<Rightarrow> string \<Rightarrow> nat \<Rightarrow> nat result" where
  "toml_u16 \<equiv> toml_uint (2 ^ 16 - 1)"
abbreviation toml_u32 :: "toml_table \<Rightarrow> string \<Rightarrow> string \<Rightarrow> nat \<Rightarrow> nat result" where
  "toml_u32 \<equiv> toml_uint (2 ^ 32 - 1)"
abbreviation toml_u64 :: "toml_table \<Rightarrow> string \<Rightarrow> string \<Rightarrow> nat \<Rightarrow> nat result" where
  "toml_u64 \<equiv> toml_uint (2 ^ 64 - 1)"

definition toml_path :: "string \<Rightarrow> toml_table \<Rightarrow> string \<Rightarrow> string \<Rightarrow> string \<Rightarrow> string result" where
  "toml_path base_dir tbl key whr out =
     cfd_try (toml_string tbl key whr []) (\<lambda>s.
       if s = [] then Inr out
       else if \<not> starts_with s ''/'' \<and> base_dir \<noteq> []
       then Inr (path_text (lexically_normal (path_elems (path_slash base_dir s))))
       else Inr s)"

definition warn_unknown :: "toml_table \<Rightarrow> string \<Rightarrow> string list \<Rightarrow> string list \<Rightarrow> string list" where
  "warn_unknown tbl whr known ws =
     ws @ map (\<lambda>k. whr @ k @ '': unknown key, ignored'') (filter (\<lambda>k. k \<notin> set known) (map fst tbl))"

subsection \<open>Model: storage, rest, tls, log, retention\<close>

definition parse_storage :: "string \<Rightarrow> toml_table \<Rightarrow> string list \<Rightarrow> string result \<times> string list" where
  "parse_storage base_dir root ws =
     cfd_tryS (toml_section root ''storage'', ws) (\<lambda>tbl ws.
       case tbl of
         None \<Rightarrow> (cfg_invalid ''[storage] section is required'', ws)
       | Some tbl \<Rightarrow>
           let ws = warn_unknown tbl ''storage.'' [''root''] ws
           in cfd_tryS (toml_path base_dir tbl ''root'' ''storage'' [], ws) (\<lambda>sroot ws.
                if sroot = [] then (cfg_invalid ''storage.root is required'', ws) else (Inr sroot, ws)))"

definition default_rest :: rest_cfg where
  "default_rest = \<lparr>rc_bind = ''0.0.0.0'', rc_port = 8080, rc_threads = 0, rc_request_timeout_ms = 30000\<rparr>"

definition parse_rest :: "toml_table \<Rightarrow> string list \<Rightarrow> rest_cfg result \<times> string list" where
  "parse_rest root ws =
     cfd_tryS (toml_section root ''rest'', ws) (\<lambda>tbl ws.
       case tbl of
         None \<Rightarrow> (Inr default_rest, ws)
       | Some tbl \<Rightarrow>
           let ws = warn_unknown tbl ''rest.'' [''bind'', ''port'', ''threads'', ''request_timeout_ms''] ws
           in (cfd_try (toml_string tbl ''bind'' ''rest'' (rc_bind default_rest)) (\<lambda>bnd.
               cfd_try (toml_u16 tbl ''port'' ''rest'' (rc_port default_rest)) (\<lambda>port.
               cfd_try (toml_u32 tbl ''threads'' ''rest'' (rc_threads default_rest)) (\<lambda>threads.
               cfd_try (toml_u32 tbl ''request_timeout_ms'' ''rest'' (rc_request_timeout_ms default_rest)) (\<lambda>timeout.
                 if bnd = [] then cfg_invalid ''rest.bind must not be empty''
                 else if port = 0 then cfg_invalid ''rest.port must be in [1, 65535]''
                 else if 1024 < threads then cfg_invalid ''rest.threads must be <= 1024 (0 = number of cores)''
                 else if timeout = 0 then cfg_invalid ''rest.request_timeout_ms must be > 0''
                 else Inr \<lparr>rc_bind = bnd, rc_port = port, rc_threads = threads, rc_request_timeout_ms = timeout\<rparr>)))), ws))"

definition parse_tls :: "string \<Rightarrow> toml_table \<Rightarrow> string list \<Rightarrow> tls_cfg result \<times> string list" where
  "parse_tls base_dir root ws =
     cfd_tryS (toml_section root ''tls'', ws) (\<lambda>tbl ws.
     cfd_tryS
       (case tbl of
          None \<Rightarrow> (Inr \<lparr>tls_enabled = True, tls_cert_path = [], tls_key_path = [], tls_ca_path = []\<rparr>, ws)
        | Some tbl \<Rightarrow>
            (cfd_try (toml_bool tbl ''enabled'' ''tls'' True) (\<lambda>enabled.
             cfd_try (toml_path base_dir tbl ''cert'' ''tls'' []) (\<lambda>cert.
             cfd_try (toml_path base_dir tbl ''key'' ''tls'' []) (\<lambda>ky.
             cfd_try (toml_path base_dir tbl ''ca'' ''tls'' []) (\<lambda>ca.
               Inr \<lparr>tls_enabled = enabled, tls_cert_path = cert, tls_key_path = ky, tls_ca_path = ca\<rparr>)))),
             warn_unknown tbl ''tls.'' [''enabled'', ''cert'', ''key'', ''ca''] ws)) (\<lambda>out ws.
       if \<not> tls_enabled out
       then (Inr out, ws @ [''tls.enabled = false: passwords and files travel in cleartext''])
       else if tls_cert_path out = [] \<or> tls_key_path out = []
       then (cfg_invalid ''tls.cert and tls.key are required when TLS is enabled (the default)'', ws)
       else (Inr out, ws)))"

definition parse_level :: "string \<Rightarrow> log_level result" where
  "parse_level s =
     (case find (\<lambda>l. level_name l = s) [Trace, Debug, Info, Warn, ErrorLevel] of
        None \<Rightarrow> cfg_invalid (''log.level: '' @ quoted s @ '' is not one of trace, debug, info, warn, error'')
      | Some l \<Rightarrow> Inr l)"

definition default_log :: log_cfg where
  "default_log = \<lparr>lg_level = Info, lg_dir = [], lg_rotate_bytes = 64 * 1024 * 1024\<rparr>"

definition parse_log :: "string \<Rightarrow> toml_table \<Rightarrow> string \<Rightarrow> string list \<Rightarrow> log_cfg result \<times> string list" where
  "parse_log base_dir root storage_root ws =
     cfd_tryS (toml_section root ''log'', ws) (\<lambda>tbl ws.
     cfd_tryS
       (case tbl of
          None \<Rightarrow> (Inr default_log, ws)
        | Some tbl \<Rightarrow>
            (cfd_try (toml_string tbl ''level'' ''log'' []) (\<lambda>level.
             cfd_try (if level = [] then Inr (lg_level default_log) else parse_level level) (\<lambda>lvl.
             cfd_try (toml_path base_dir tbl ''dir'' ''log'' []) (\<lambda>dir.
             cfd_try (toml_u64 tbl ''rotate_bytes'' ''log'' (lg_rotate_bytes default_log)) (\<lambda>rotate.
               Inr \<lparr>lg_level = lvl, lg_dir = dir, lg_rotate_bytes = rotate\<rparr>)))),
             warn_unknown tbl ''log.'' [''level'', ''dir'', ''rotate_bytes''] ws)) (\<lambda>out ws.
       (Inr (if lg_dir out = [] then out\<lparr>lg_dir := path_slash storage_root ''logs''\<rparr> else out), ws)))"

definition default_retention :: retention_cfg where
  "default_retention = \<lparr>rt_default_days = 30, rt_max_days = 365, rt_sweep_interval_s = 3600\<rparr>"

definition parse_retention :: "toml_table \<Rightarrow> string list \<Rightarrow> retention_cfg result \<times> string list" where
  "parse_retention root ws =
     cfd_tryS (toml_section root ''retention'', ws) (\<lambda>tbl ws.
       case tbl of
         None \<Rightarrow> (Inr default_retention, ws)
       | Some tbl \<Rightarrow>
           let ws = warn_unknown tbl ''retention.'' [''default_days'', ''max_days'', ''sweep_interval_s''] ws
           in (cfd_try (toml_u32 tbl ''default_days'' ''retention'' (rt_default_days default_retention)) (\<lambda>dd.
               cfd_try (toml_u32 tbl ''max_days'' ''retention'' (rt_max_days default_retention)) (\<lambda>md.
               cfd_try (toml_u32 tbl ''sweep_interval_s'' ''retention'' (rt_sweep_interval_s default_retention)) (\<lambda>si.
                 if dd = 0 then cfg_invalid ''retention.default_days must be > 0''
                 else if md < dd
                 then cfg_invalid (''retention.max_days ('' @ dec md @ '') must be >= default_days ('' @ dec dd @ '')'')
                 else if si = 0 then cfg_invalid ''retention.sweep_interval_s must be > 0''
                 else Inr \<lparr>rt_default_days = dd, rt_max_days = md, rt_sweep_interval_s = si\<rparr>))), ws))"

subsection \<open>Model: peers\<close>

definition token_problem :: "string \<Rightarrow> string" where
  "token_problem secret =
     (if length secret < kMinPeerTokenLength
      then ''must be at least '' @ dec kMinPeerTokenLength @ '' characters (e.g. openssl rand -hex 32)''
      else if \<not> list_all (\<lambda>c. 32 < ord c \<and> ord c < 0x7F) secret
      then ''must be visible ASCII characters only (no spaces)''
      else if starts_with secret ''ftu_'' \<or> starts_with secret ''fta_''
      then ''must not start with ftu_ or fta_ (the prefixes of user and admin tokens)''
      else [])"

text \<open>The loop over the two secrets of a peer; \<open>secrets\<close> are those seen so far with where they were set.\<close>

fun check_secrets ::
  "string \<Rightarrow> (string \<times> string) list \<Rightarrow> (string \<times> string) list \<Rightarrow> (string \<times> string) list result" where
  "check_secrets whr [] secrets = Inr secrets"
| "check_secrets whr ((key, secret) # rest) secrets =
     (let field = whr @ ''.'' @ key; problem = token_problem secret
      in if problem \<noteq> [] then cfg_invalid (field @ '' '' @ problem)
         else case map_of secrets secret of
             Some other \<Rightarrow> cfg_invalid (field @ '' is the same secret as '' @ other @
               ''; use a different one for each peer and direction'')
           | None \<Rightarrow> check_secrets whr rest (secrets @ [(secret, field)]))"

definition check_peer ::
  "string \<Rightarrow> string \<Rightarrow> peer_cfg \<Rightarrow> string list \<Rightarrow> (string \<times> string) list \<Rightarrow> (string \<times> string) list result" where
  "check_peer instance_name whr peer seen secrets =
     (if \<not> is_valid_name (pc_name peer)
      then cfg_invalid (whr @ ''.name: '' @ quoted (pc_name peer) @ '' must be 1-64 chars of [A-Za-z0-9._-]'')
      else if pc_name peer = instance_name
      then cfg_invalid (whr @ ''.name: '' @ quoted (pc_name peer) @ '' is this instance'' @ [CHR 0x27] @ ''s own name'')
      else if pc_name peer \<in> set seen then cfg_invalid (whr @ ''.name: duplicate peer '' @ quoted (pc_name peer))
      else if pc_host peer = [] then cfg_invalid (whr @ ''.host is required'')
      else if pc_port peer = 0 then cfg_invalid (whr @ ''.port must be in [1, 65535]'')
      else if pc_token peer = [] \<or> pc_accept_token peer = []
      then cfg_invalid (whr @ '': token and accept_token are both required'')
      else if pc_token peer = pc_accept_token peer then cfg_invalid (whr @ '': token and accept_token must differ'')
      else check_secrets whr [(''token'', pc_token peer), (''accept_token'', pc_accept_token peer)] secrets)"

definition parse_peer :: "string \<Rightarrow> toml_table \<Rightarrow> peer_cfg result" where
  "parse_peer whr p =
     cfd_try (toml_string p ''name'' whr []) (\<lambda>name.
     cfd_try (toml_string p ''host'' whr []) (\<lambda>hst.
     cfd_try (toml_u16 p ''port'' whr 8080) (\<lambda>port.
     cfd_try (toml_string p ''token'' whr []) (\<lambda>token.
     cfd_try (toml_string p ''accept_token'' whr []) (\<lambda>accept.
       Inr \<lparr>pc_name = name, pc_host = hst, pc_port = port, pc_token = token, pc_accept_token = accept\<rparr>)))))"

fun parse_peer_list ::
  "string \<Rightarrow> nat \<Rightarrow> toml list \<Rightarrow> peer_cfg list \<Rightarrow> (string \<times> string) list \<Rightarrow> string list \<Rightarrow>
   peer_cfg list result \<times> string list" where
  "parse_peer_list inst i [] out secrets ws = (Inr out, ws)"
| "parse_peer_list inst i (TTable p # ps) out secrets ws =
     (let whr = ''peer['' @ dec i @ '']'';
          ws = warn_unknown p (whr @ ''.'') [''name'', ''host'', ''port'', ''token'', ''accept_token''] ws
      in cfd_tryS (parse_peer whr p, ws) (\<lambda>peer ws.
         cfd_tryS (check_peer inst whr peer (map pc_name out) secrets, ws) (\<lambda>secrets ws.
           parse_peer_list inst (Suc i) ps (out @ [peer]) secrets ws)))"
| "parse_peer_list inst i (_ # ps) out secrets ws =
     (cfg_invalid (''peer['' @ dec i @ '']: expected a table''), ws)"

definition parse_peers :: "toml_table \<Rightarrow> string \<Rightarrow> string list \<Rightarrow> peer_cfg list result \<times> string list" where
  "parse_peers root instance_name ws =
     (case map_of root ''peer'' of
        None \<Rightarrow> (Inr [], ws)
      | Some (TArray peers) \<Rightarrow> parse_peer_list instance_name 0 peers [] [] ws
      | Some _ \<Rightarrow> (cfg_invalid (''peer: expected an array of tables (['' @ ''[peer]'' @ ''])''), ws))"

subsection \<open>Model: lines of a user or group file\<close>

definition is_blank :: "char \<Rightarrow> bool" where
  "is_blank c \<longleftrightarrow> c = CHR '' '' \<or> c = CHR 0x09"

definition rstrip :: "(char \<Rightarrow> bool) \<Rightarrow> string \<Rightarrow> string" where
  "rstrip P s = rev (dropWhile P (rev s))"

text \<open>The lines \<^verbatim>\<open>std::getline\<close> gives: a newline at the end starts no further line.\<close>

definition text_lines :: "string \<Rightarrow> string list" where
  "text_lines s = (let ps = split_on (CHR 0x0A) s in if last ps = [] then butlast ps else ps)"

fun each_line ::
  "string \<Rightarrow> nat \<Rightarrow> string list \<Rightarrow> (string \<Rightarrow> string \<Rightarrow> 's \<Rightarrow> 's result) \<Rightarrow> 's \<Rightarrow> 's result" where
  "each_line path n [] on_line s = Inr s"
| "each_line path n (l # ls) on_line s =
     (let line = dropWhile is_blank (rstrip (\<lambda>c. c = CHR 0x0D \<or> is_blank c) l)
      in if line = [] \<or> hd line = CHR ''#'' then each_line path (Suc n) ls on_line s
         else cfd_try (on_line line (path @ '':'' @ dec n) s) (\<lambda>s. each_line path (Suc n) ls on_line s))"

definition for_each_line ::
  "host \<Rightarrow> string \<Rightarrow> string \<Rightarrow> (string \<Rightarrow> string \<Rightarrow> 's \<Rightarrow> 's result) \<Rightarrow> 's \<Rightarrow> 's result" where
  "for_each_line H path key on_line s =
     (case h_open H path of
        None \<Rightarrow> fail Io (key @ '': cannot open '' @ quoted path)
      | Some (content, bad) \<Rightarrow>
          cfd_try (each_line path 1 (text_lines content) on_line s) (\<lambda>s.
            if bad then fail Io (key @ '': read error in '' @ quoted path) else Inr s))"

definition trim_blanks :: "string \<Rightarrow> string" where
  "trim_blanks s = rstrip is_blank (dropWhile is_blank s)"

definition split_members :: "string \<Rightarrow> string list" where
  "split_members s = (if list_all is_blank s then [] else map trim_blanks (split_on CHR '','' s))"

subsection \<open>Model: users and groups\<close>

definition bad_name :: "string \<Rightarrow> string \<Rightarrow> 'a result" where
  "bad_name whr name = cfg_invalid (whr @ ''.name: '' @ quoted name @ '' must be 1-64 chars of [A-Za-z0-9._-]'')"

text \<open>The set \<^verbatim>\<open>seen\<close> of user names holds the names of the users loaded so far.\<close>

definition add_user :: "user_cfg \<Rightarrow> string \<Rightarrow> user_cfg list \<Rightarrow> user_cfg list result" where
  "add_user user whr users =
     (if \<not> is_valid_name (uc_name user) then bad_name whr (uc_name user)
      else if uc_password_hash user = [] then cfg_invalid (whr @ ''.password_hash is required'')
      else if uc_name user \<in> set (map uc_name users)
      then cfg_invalid (whr @ ''.name: duplicate user '' @ quoted (uc_name user))
      else Inr (users @ [user]))"

fun check_members :: "string \<Rightarrow> string list \<Rightarrow> string list \<Rightarrow> string list \<Rightarrow> unit result" where
  "check_members whr users [] members = Inr ()"
| "check_members whr users (m # ms) members =
     (if m \<notin> set users then cfg_invalid (whr @ ''.members: '' @ quoted m @ '' is not a configured user'')
      else if m \<in> set members then cfg_invalid (whr @ ''.members: '' @ quoted m @ '' is listed twice'')
      else check_members whr users ms (m # members))"

definition add_group :: "group_cfg \<Rightarrow> string \<Rightarrow> string list \<Rightarrow> group_cfg list \<Rightarrow> group_cfg list result" where
  "add_group g whr users groups =
     (if \<not> is_valid_name (gc_name g) then bad_name whr (gc_name g)
      else if gc_name g \<in> set users
      then cfg_invalid (whr @ ''.name: '' @ quoted (gc_name g) @ '' is already a user name'')
      else if gc_name g \<in> set (map gc_name groups)
      then cfg_invalid (whr @ ''.name: duplicate group '' @ quoted (gc_name g))
      else cfd_try (check_members whr users (gc_members g) []) (\<lambda>_. Inr (groups @ [g])))"

definition users_line :: "string \<Rightarrow> string \<Rightarrow> user_cfg list \<Rightarrow> user_cfg list result" where
  "users_line line whr users =
     (case split_first CHR '':'' line of
        None \<Rightarrow> cfg_invalid (whr @ '': expected '' @ quoted ''name:password_hash'')
      | Some (name, hash) \<Rightarrow> add_user \<lparr>uc_name = name, uc_password_hash = hash\<rparr> whr users)"

definition parse_users_file ::
  "host \<Rightarrow> string \<Rightarrow> user_cfg list \<Rightarrow> string list \<Rightarrow> user_cfg list result \<times> string list" where
  "parse_users_file H path users ws =
     cfd_tryS (for_each_line H path ''auth.users_file'' users_line users, ws) (\<lambda>users ws.
       (Inr users,
        if h_shared H path
        then ws @ [''auth.users_file: '' @ quoted path @ '' is readable by other users (chmod 600)''] else ws))"

definition groups_line :: "string list \<Rightarrow> string \<Rightarrow> string \<Rightarrow> group_cfg list \<Rightarrow> group_cfg list result" where
  "groups_line users line whr groups =
     (case split_first CHR '':'' line of
        None \<Rightarrow> cfg_invalid (whr @ '': expected '' @ quoted ''name:member,member,...'')
      | Some (name, members) \<Rightarrow>
          add_group \<lparr>gc_name = name, gc_members = split_members members\<rparr> whr users groups)"

definition parse_groups_file :: "host \<Rightarrow> string \<Rightarrow> string list \<Rightarrow> group_cfg list \<Rightarrow> group_cfg list result" where
  "parse_groups_file H path users groups = for_each_line H path ''auth.groups_file'' (groups_line users) groups"

fun inline_user_list ::
  "nat \<Rightarrow> toml list \<Rightarrow> user_cfg list \<Rightarrow> string list \<Rightarrow> user_cfg list result \<times> string list" where
  "inline_user_list i [] users ws = (Inr users, ws)"
| "inline_user_list i (TTable u # us) users ws =
     (let whr = ''user['' @ dec i @ '']''
      in if map_of u ''password'' \<noteq> None
         then (cfg_invalid (whr @ ''.password: plaintext passwords are not allowed, use password_hash''), ws)
         else
           let ws = warn_unknown u (whr @ ''.'') [''name'', ''password_hash''] ws
           in cfd_tryS (cfd_try (toml_string u ''name'' whr []) (\<lambda>name.
                        cfd_try (toml_string u ''password_hash'' whr []) (\<lambda>hash.
                        add_user \<lparr>uc_name = name, uc_password_hash = hash\<rparr> whr users)), ws)
                (\<lambda>users ws. inline_user_list (Suc i) us users ws))"
| "inline_user_list i (_ # us) users ws = (cfg_invalid (''user['' @ dec i @ '']: expected a table''), ws)"

definition parse_inline_users :: "toml \<Rightarrow> user_cfg list \<Rightarrow> string list \<Rightarrow> user_cfg list result \<times> string list" where
  "parse_inline_users v users ws =
     (case v of
        TArray us \<Rightarrow> inline_user_list 0 us users ws
      | _ \<Rightarrow> (cfg_invalid (''user: expected an array of tables (['' @ ''[user]'' @ ''])''), ws))"

fun string_list :: "string \<Rightarrow> toml list \<Rightarrow> string list result" where
  "string_list whr [] = Inr []"
| "string_list whr (TString s # vs) = cfd_try (string_list whr vs) (\<lambda>ss. Inr (s # ss))"
| "string_list whr (_ # vs) = cfg_invalid (whr @ ''.members: expected an array of strings'')"

definition inline_members :: "string \<Rightarrow> toml_table \<Rightarrow> string list result" where
  "inline_members whr g =
     (case map_of g ''members'' of
        None \<Rightarrow> Inr []
      | Some (TArray ms) \<Rightarrow> string_list whr ms
      | Some _ \<Rightarrow> cfg_invalid (whr @ ''.members: expected an array of strings''))"

fun inline_group_list ::
  "string list \<Rightarrow> nat \<Rightarrow> toml list \<Rightarrow> group_cfg list \<Rightarrow> string list \<Rightarrow> group_cfg list result \<times> string list" where
  "inline_group_list users i [] groups ws = (Inr groups, ws)"
| "inline_group_list users i (TTable g # gs) groups ws =
     (let whr = ''group['' @ dec i @ '']'';
          ws = warn_unknown g (whr @ ''.'') [''name'', ''members''] ws
      in cfd_tryS (cfd_try (toml_string g ''name'' whr []) (\<lambda>name.
                   cfd_try (inline_members whr g) (\<lambda>members.
                   add_group \<lparr>gc_name = name, gc_members = members\<rparr> whr users groups)), ws)
           (\<lambda>groups ws. inline_group_list users (Suc i) gs groups ws))"
| "inline_group_list users i (_ # gs) groups ws = (cfg_invalid (''group['' @ dec i @ '']: expected a table''), ws)"

definition parse_inline_groups ::
  "string list \<Rightarrow> toml \<Rightarrow> group_cfg list \<Rightarrow> string list \<Rightarrow> group_cfg list result \<times> string list" where
  "parse_inline_groups users v groups ws =
     (case v of
        TArray gs \<Rightarrow> inline_group_list users 0 gs groups ws
      | _ \<Rightarrow> (cfg_invalid (''group: expected an array of tables (['' @ ''[group]'' @ ''])''), ws))"

subsection \<open>Model: \<open>[auth.ldap]\<close>\<close>

definition read_secret :: "host \<Rightarrow> string \<Rightarrow> string \<Rightarrow> string list \<Rightarrow> string result \<times> string list" where
  "read_secret H path key ws =
     (case h_open H path of
        None \<Rightarrow> (fail Io (key @ '': cannot open '' @ quoted path), ws)
      | Some (content, bad) \<Rightarrow>
          if bad then (fail Io (key @ '': read error in '' @ quoted path), ws)
          else
            let out = rstrip (\<lambda>c. c = CHR 0x0A \<or> c = CHR 0x0D \<or> is_blank c) content
            in if out = [] then (cfg_invalid (key @ '': '' @ quoted path @ '' is empty''), ws)
               else (Inr out,
                 if h_shared H path
                 then ws @ [key @ '': '' @ quoted path @ '' is readable by other users (chmod 600)''] else ws))"

definition default_ldap :: ldap_cfg where
  "default_ldap = \<lparr>lc_preset = ''openldap'', lc_uri = [], lc_start_tls = False, lc_tls_verify = True,
     lc_ca_file = [], lc_timeout_s = 5, lc_bind_dn = [], lc_bind_password = [], lc_bind_password_file = [],
     lc_user_base_dn = [], lc_user_filter = [], lc_username_attribute = [], lc_group_base_dn = [],
     lc_group_filter = [], lc_member_of_filter = [], lc_group_name_attribute = [], lc_cache_ttl_s = 300\<rparr>"

definition ldap_keys :: "string list" where
  "ldap_keys = [''preset'', ''uri'', ''start_tls'', ''tls_verify'', ''ca_file'', ''timeout_s'', ''bind_dn'',
     ''bind_password'', ''bind_password_file'', ''user_base_dn'', ''user_filter'', ''username_attribute'',
     ''group_base_dn'', ''group_filter'', ''member_of_filter'', ''group_name_attribute'', ''cache_ttl_s'']"

definition get_ldap :: "string \<Rightarrow> toml_table \<Rightarrow> ldap_cfg result" where
  "get_ldap base_dir tbl =
     (let w = ''auth.ldap''; d = default_ldap
      in cfd_try (toml_string tbl ''preset'' w (lc_preset d)) (\<lambda>preset.
         cfd_try (toml_string tbl ''uri'' w (lc_uri d)) (\<lambda>uri.
         cfd_try (toml_bool tbl ''start_tls'' w (lc_start_tls d)) (\<lambda>start_tls.
         cfd_try (toml_bool tbl ''tls_verify'' w (lc_tls_verify d)) (\<lambda>tls_verify.
         cfd_try (toml_path base_dir tbl ''ca_file'' w (lc_ca_file d)) (\<lambda>ca_file.
         cfd_try (toml_u32 tbl ''timeout_s'' w (lc_timeout_s d)) (\<lambda>timeout_s.
         cfd_try (toml_string tbl ''bind_dn'' w (lc_bind_dn d)) (\<lambda>bind_dn.
         cfd_try (toml_string tbl ''bind_password'' w (lc_bind_password d)) (\<lambda>bind_password.
         cfd_try (toml_path base_dir tbl ''bind_password_file'' w (lc_bind_password_file d)) (\<lambda>bind_password_file.
         cfd_try (toml_string tbl ''user_base_dn'' w (lc_user_base_dn d)) (\<lambda>user_base_dn.
         cfd_try (toml_string tbl ''user_filter'' w (lc_user_filter d)) (\<lambda>user_filter.
         cfd_try (toml_string tbl ''username_attribute'' w (lc_username_attribute d)) (\<lambda>username_attribute.
         cfd_try (toml_string tbl ''group_base_dn'' w (lc_group_base_dn d)) (\<lambda>group_base_dn.
         cfd_try (toml_string tbl ''group_filter'' w (lc_group_filter d)) (\<lambda>group_filter.
         cfd_try (toml_string tbl ''member_of_filter'' w (lc_member_of_filter d)) (\<lambda>member_of_filter.
         cfd_try (toml_string tbl ''group_name_attribute'' w (lc_group_name_attribute d)) (\<lambda>group_name_attribute.
         cfd_try (toml_u32 tbl ''cache_ttl_s'' w (lc_cache_ttl_s d)) (\<lambda>cache_ttl_s.
           Inr \<lparr>lc_preset = preset, lc_uri = uri, lc_start_tls = start_tls, lc_tls_verify = tls_verify,
             lc_ca_file = ca_file, lc_timeout_s = timeout_s, lc_bind_dn = bind_dn, lc_bind_password = bind_password,
             lc_bind_password_file = bind_password_file, lc_user_base_dn = user_base_dn,
             lc_user_filter = user_filter, lc_username_attribute = username_attribute,
             lc_group_base_dn = group_base_dn, lc_group_filter = group_filter,
             lc_member_of_filter = member_of_filter, lc_group_name_attribute = group_name_attribute,
             lc_cache_ttl_s = cache_ttl_s\<rparr>))))))))))))))))))"

definition check_ldap :: "ldap_cfg \<Rightarrow> unit result" where
  "check_ldap c =
     (if lc_preset c \<noteq> ''openldap'' \<and> lc_preset c \<noteq> ''active_directory''
      then cfg_invalid (''auth.ldap.preset: '' @ quoted (lc_preset c) @ '' is not one of openldap, active_directory'')
      else if lc_uri c = [] then cfg_invalid ''auth.ldap.uri is required''
      else if lc_user_base_dn c = [] then cfg_invalid ''auth.ldap.user_base_dn is required''
      else if lc_timeout_s c = 0 then cfg_invalid ''auth.ldap.timeout_s must be > 0''
      else if lc_bind_password c \<noteq> [] \<and> lc_bind_password_file c \<noteq> []
      then cfg_invalid ''auth.ldap: set bind_password or bind_password_file, not both''
      else Inr ())"

definition ldap_warnings :: "ldap_cfg \<Rightarrow> string list" where
  "ldap_warnings c =
     (if lc_tls_verify c then [] else [''auth.ldap.tls_verify = false: any LDAP server certificate is accepted'']) @
     (if starts_with (lc_uri c) ''ldap://'' \<and> \<not> lc_start_tls c
      then [''auth.ldap: ldap:// without start_tls: user passwords travel to LDAP in cleartext''] else [])"

definition no_ldap_section :: "'a result" where
  "no_ldap_section = cfg_invalid (''[auth.ldap] section is required with auth.provider = '' @ [CHR 0x22] @ ''ldap'' @ [CHR 0x22])"

definition parse_ldap :: "host \<Rightarrow> string \<Rightarrow> toml_table option \<Rightarrow> string list \<Rightarrow> ldap_cfg result \<times> string list" where
  "parse_ldap H base_dir auth ws =
     cfd_tryS (case auth of None \<Rightarrow> Inr None | Some a \<Rightarrow> toml_section a ''ldap'', ws) (\<lambda>tbl ws.
       case tbl of
         None \<Rightarrow> (no_ldap_section, ws)
       | Some tbl \<Rightarrow>
           cfd_tryS (get_ldap base_dir tbl, warn_unknown tbl ''auth.ldap.'' ldap_keys ws) (\<lambda>out ws.
           cfd_tryS (check_ldap out, ws) (\<lambda>_ ws.
           cfd_tryS
             (if lc_bind_password_file out = [] then (Inr (lc_bind_password out), ws)
              else read_secret H (lc_bind_password_file out) ''auth.ldap.bind_password_file'' ws) (\<lambda>password ws.
             (Inr (out\<lparr>lc_bind_password := password\<rparr>), ws @ ldap_warnings out)))))"

subsection \<open>Model: \<open>[auth]\<close> and the whole document\<close>

definition default_auth :: auth_cfg where
  "default_auth = \<lparr>ac_users = [], ac_users_file = [], ac_groups = [], ac_groups_file = [], ac_token_ttl_s = 3600,
     ac_token_idle_s = 900, ac_admin_group = [], ac_admin_token_ttl_s = 3600, ac_admin_token_idle_s = 900,
     ac_provider = LocalProvider, ac_ldap = default_ldap\<rparr>"

definition auth_keys :: "string list" where
  "auth_keys = [''provider'', ''token_ttl_s'', ''token_idle_s'', ''users_file'', ''groups_file'', ''ldap'',
     ''admin_group'', ''admin_token_ttl_s'', ''admin_token_idle_s'']"

definition parse_admin :: "toml_table \<Rightarrow> auth_cfg \<Rightarrow> auth_cfg result" where
  "parse_admin auth out =
     cfd_try (toml_string auth ''admin_group'' ''auth'' (ac_admin_group out)) (\<lambda>grp.
       if grp \<noteq> [] \<and> \<not> is_valid_name grp
       then cfg_invalid (''auth.admin_group: '' @ quoted grp @ '' must be 1-64 chars of [A-Za-z0-9._-]'')
       else
         cfd_try (toml_u32 auth ''admin_token_ttl_s'' ''auth'' (ac_token_ttl_s out)) (\<lambda>ttl.
         cfd_try (toml_u32 auth ''admin_token_idle_s'' ''auth'' (ac_token_idle_s out)) (\<lambda>idle.
           if ttl = 0 then cfg_invalid ''auth.admin_token_ttl_s must be > 0''
           else if idle = 0 then cfg_invalid ''auth.admin_token_idle_s must be > 0''
           else Inr (out\<lparr>ac_admin_group := grp, ac_admin_token_ttl_s := ttl, ac_admin_token_idle_s := idle\<rparr>))))"

definition parse_provider :: "string \<Rightarrow> auth_provider result" where
  "parse_provider s =
     (if s = ''ldap'' then Inr LdapProvider
      else if s \<noteq> [] \<and> s \<noteq> ''local''
      then cfg_invalid (''auth.provider: '' @ quoted s @ '' is not one of local, ldap'')
      else Inr LocalProvider)"

text \<open>The part of \<open>parse_auth\<close> that reads the table \<open>[auth]\<close>.\<close>

definition parse_auth_table :: "string \<Rightarrow> toml_table \<Rightarrow> auth_cfg result" where
  "parse_auth_table base_dir tbl =
     cfd_try (toml_string tbl ''provider'' ''auth'' []) (\<lambda>p.
     cfd_try (parse_provider p) (\<lambda>provider.
     cfd_try (toml_u32 tbl ''token_ttl_s'' ''auth'' (ac_token_ttl_s default_auth)) (\<lambda>ttl.
     cfd_try (toml_u32 tbl ''token_idle_s'' ''auth'' (ac_token_idle_s default_auth)) (\<lambda>idle.
     cfd_try (toml_path base_dir tbl ''users_file'' ''auth'' []) (\<lambda>users_file.
     cfd_try (toml_path base_dir tbl ''groups_file'' ''auth'' []) (\<lambda>groups_file.
       if ttl = 0 then cfg_invalid ''auth.token_ttl_s must be > 0''
       else if idle = 0 then cfg_invalid ''auth.token_idle_s must be > 0''
       else parse_admin tbl (default_auth\<lparr>ac_provider := provider, ac_token_ttl_s := ttl, ac_token_idle_s := idle,
              ac_users_file := users_file, ac_groups_file := groups_file\<rparr>)))))))"

definition ignored_with :: "string \<Rightarrow> string \<Rightarrow> string" where
  "ignored_with what provider = what @ '': ignored with auth.provider = '' @ [CHR 0x22] @ provider @ [CHR 0x22]"

text \<open>The part of \<open>parse_auth\<close> that loads the users and groups of the local provider.\<close>

definition load_users :: "host \<Rightarrow> toml_table \<Rightarrow> auth_cfg \<Rightarrow> string list \<Rightarrow> user_cfg list result \<times> string list" where
  "load_users H root out ws =
     cfd_tryS (if ac_users_file out = [] then (Inr [], ws) else parse_users_file H (ac_users_file out) [] ws) (\<lambda>users ws.
     cfd_tryS (case map_of root ''user'' of None \<Rightarrow> (Inr users, ws) | Some v \<Rightarrow> parse_inline_users v users ws) (\<lambda>users ws.
       (Inr users,
        if users = [] then ws @ [''no users configured (auth.users_file or ['' @ ''[user]'' @ '']): nobody can log in'']
        else ws)))"

definition load_groups :: "host \<Rightarrow> toml_table \<Rightarrow> auth_cfg \<Rightarrow> string list \<Rightarrow> string list \<Rightarrow> group_cfg list result \<times> string list" where
  "load_groups H root out users ws =
     cfd_tryS (if ac_groups_file out = [] then Inr [] else parse_groups_file H (ac_groups_file out) users [], ws) (\<lambda>groups ws.
     cfd_tryS (case map_of root ''group'' of None \<Rightarrow> (Inr groups, ws) | Some v \<Rightarrow> parse_inline_groups users v groups ws) (\<lambda>groups ws.
       if ac_admin_group out \<noteq> [] \<and> ac_admin_group out \<notin> set (map gc_name groups)
       then (cfg_invalid (''auth.admin_group: '' @ quoted (ac_admin_group out) @ '' is not a configured group''), ws)
       else (Inr groups, ws)))"

definition load_local :: "host \<Rightarrow> toml_table \<Rightarrow> auth_cfg \<Rightarrow> string list \<Rightarrow> auth_cfg result \<times> string list" where
  "load_local H root out ws =
     cfd_tryS (load_users H root out ws) (\<lambda>users ws.
     cfd_tryS (load_groups H root out (map uc_name users) ws) (\<lambda>groups ws.
       (Inr (out\<lparr>ac_users := users, ac_groups := groups\<rparr>), ws)))"

text \<open>The part of \<open>parse_auth\<close> after the table: exactly one source of users is loaded.\<close>

definition load_provider ::
  "host \<Rightarrow> string \<Rightarrow> toml_table \<Rightarrow> toml_table option \<Rightarrow> auth_cfg \<Rightarrow> string list \<Rightarrow> auth_cfg result \<times> string list" where
  "load_provider H base_dir root tbl out ws =
     (if ac_provider out = LdapProvider
      then cfd_tryS (parse_ldap H base_dir tbl ws) (\<lambda>ldap ws.
             (Inr (out\<lparr>ac_ldap := ldap\<rparr>),
              ws @ (if ac_users_file out \<noteq> [] \<or> map_of root ''user'' \<noteq> None
                    then [ignored_with (''auth.users_file / ['' @ ''[user]'' @ '']'') ''ldap''] else []) @
                   (if ac_groups_file out \<noteq> [] \<or> map_of root ''group'' \<noteq> None
                    then [ignored_with (''auth.groups_file / ['' @ ''[group]'' @ '']'') ''ldap''] else [])))
      else load_local H root out
             (if (case tbl of None \<Rightarrow> False | Some t \<Rightarrow> map_of t ''ldap'' \<noteq> None)
              then ws @ [ignored_with ''[auth.ldap]'' ''local''] else ws))"

definition parse_auth :: "host \<Rightarrow> string \<Rightarrow> toml_table \<Rightarrow> string list \<Rightarrow> auth_cfg result \<times> string list" where
  "parse_auth H base_dir root ws =
     cfd_tryS (toml_section root ''auth'', ws) (\<lambda>tbl ws.
     cfd_tryS
       (case tbl of
          None \<Rightarrow> (Inr default_auth, ws)
        | Some t \<Rightarrow> (parse_auth_table base_dir t, warn_unknown t ''auth.'' auth_keys ws)) (\<lambda>out ws.
       load_provider H base_dir root tbl out ws))"

definition root_keys :: "string list" where
  "root_keys = [''instance_name'', ''storage'', ''rest'', ''tls'', ''auth'', ''user'', ''group'', ''log'', ''retention'', ''peer'']"

definition parse_sections :: "host \<Rightarrow> string \<Rightarrow> toml_table \<Rightarrow> string \<Rightarrow> string list \<Rightarrow> config result \<times> string list" where
  "parse_sections H base_dir root inst ws =
     cfd_tryS (parse_storage base_dir root ws) (\<lambda>storage ws.
     cfd_tryS (parse_rest root ws) (\<lambda>rest ws.
     cfd_tryS (parse_tls base_dir root ws) (\<lambda>tls ws.
     cfd_tryS (parse_auth H base_dir root ws) (\<lambda>auth ws.
     cfd_tryS (parse_log base_dir root storage ws) (\<lambda>log ws.
     cfd_tryS (parse_retention root ws) (\<lambda>retention ws.
     cfd_tryS (parse_peers root inst ws) (\<lambda>peers ws.
       (Inr \<lparr>cf_instance_name = inst, cf_storage_root = storage, cf_rest = rest, cf_tls = tls,
          cf_auth = auth, cf_log = log, cf_retention = retention, cf_peers = peers, cf_warnings = ws\<rparr>, ws))))))))"

definition parser_run :: "host \<Rightarrow> string \<Rightarrow> toml \<Rightarrow> config result" where
  "parser_run H base_dir v =
     (case v of
        TTable root \<Rightarrow>
          cfd_try (toml_string root ''instance_name'' ''config'' []) (\<lambda>inst.
            if \<not> is_valid_name inst
            then cfg_invalid (''instance_name: '' @ quoted inst @ '' must be 1-64 chars of [A-Za-z0-9._-]'')
            else fst (parse_sections H base_dir root inst (warn_unknown root [] root_keys [])))
      | _ \<Rightarrow> cfg_invalid ''config root must be a table'')"

definition parser_parse :: "toml_parse \<Rightarrow> host \<Rightarrow> string \<Rightarrow> string \<Rightarrow> string \<Rightarrow> config result" where
  "parser_parse P H doc source_name base_dir =
     (case P doc source_name of
        Inl d \<Rightarrow> cfg_invalid d
      | Inr v \<Rightarrow> parser_run H base_dir v)"

definition config_from_file :: "toml_parse \<Rightarrow> host \<Rightarrow> string \<Rightarrow> config result" where
  "config_from_file P H path =
     (case h_open H path of
        None \<Rightarrow> fail Io (''cannot open config file '' @ quoted path)
      | Some (doc, _) \<Rightarrow>
          parser_parse P H doc path
            (case h_cwd H of None \<Rightarrow> parent_path path | Some cwd \<Rightarrow> parent_path (path_slash cwd path)))"

definition config_from_string :: "toml_parse \<Rightarrow> host \<Rightarrow> string \<Rightarrow> config result" where
  "config_from_string P H doc = parser_parse P H doc ''<string>'' []"

end
