(* ===== verification/Config_Valid.thy ===== *)
theory Config_Valid
  imports Config_Parser
begin

section \<open>What a loaded configuration guarantees\<close>

text \<open>
  The checks of the configuration parser as one well-formedness predicate, and the proof that every
  configuration the loader returns satisfies it.
\<close>

subsection \<open>Well-formed configurations\<close>

definition peer_secrets :: "peer_cfg list \<Rightarrow> string list" where
  "peer_secrets ps = concat (map (\<lambda>p. [pc_token p, pc_accept_token p]) ps)"

definition strong_secret :: "string \<Rightarrow> bool" where
  "strong_secret s \<longleftrightarrow> 32 \<le> length s \<and> (\<forall>c \<in> set s. 32 < ord c \<and> ord c < 127) \<and>
     \<not> starts_with s ''ftu_'' \<and> \<not> starts_with s ''fta_''"

definition wf_peers :: "string \<Rightarrow> peer_cfg list \<Rightarrow> bool" where
  "wf_peers inst ps \<longleftrightarrow>
     (\<forall>p \<in> set ps. is_valid_name (pc_name p) \<and> pc_name p \<noteq> inst \<and> pc_host p \<noteq> [] \<and> 1 \<le> pc_port p \<and> pc_port p \<le> 65535) \<and>
     distinct (map pc_name ps) \<and> (\<forall>s \<in> set (peer_secrets ps). strong_secret s) \<and> distinct (peer_secrets ps)"

definition wf_users :: "user_cfg list \<Rightarrow> bool" where
  "wf_users us \<longleftrightarrow> distinct (map uc_name us) \<and> (\<forall>u \<in> set us. is_valid_name (uc_name u) \<and> uc_password_hash u \<noteq> [])"

definition wf_groups :: "string list \<Rightarrow> group_cfg list \<Rightarrow> bool" where
  "wf_groups users gs \<longleftrightarrow> distinct (map gc_name gs) \<and>
     (\<forall>g \<in> set gs. is_valid_name (gc_name g) \<and> gc_name g \<notin> set users \<and> set (gc_members g) \<subseteq> set users \<and>
        distinct (gc_members g))"

definition wf_auth :: "auth_cfg \<Rightarrow> bool" where
  "wf_auth a \<longleftrightarrow> 0 < ac_token_ttl_s a \<and> 0 < ac_token_idle_s a \<and> 0 < ac_admin_token_ttl_s a \<and> 0 < ac_admin_token_idle_s a \<and>
     (ac_admin_group a = [] \<or> is_valid_name (ac_admin_group a)) \<and>
     (case ac_provider a of
        LocalProvider \<Rightarrow> wf_users (ac_users a) \<and> wf_groups (map uc_name (ac_users a)) (ac_groups a) \<and>
          (ac_admin_group a = [] \<or> ac_admin_group a \<in> set (map gc_name (ac_groups a)))
      | LdapProvider \<Rightarrow> ac_users a = [] \<and> ac_groups a = [] \<and> lc_uri (ac_ldap a) \<noteq> [] \<and>
          lc_user_base_dn (ac_ldap a) \<noteq> [] \<and> 0 < lc_timeout_s (ac_ldap a) \<and>
          lc_preset (ac_ldap a) \<in> {''openldap'', ''active_directory''})"

definition wf_config :: "config \<Rightarrow> bool" where
  "wf_config c \<longleftrightarrow> is_valid_name (cf_instance_name c) \<and> cf_storage_root c \<noteq> [] \<and> lg_dir (cf_log c) \<noteq> [] \<and>
     rc_bind (cf_rest c) \<noteq> [] \<and> 1 \<le> rc_port (cf_rest c) \<and> rc_port (cf_rest c) \<le> 65535 \<and>
     rc_threads (cf_rest c) \<le> 1024 \<and> 0 < rc_request_timeout_ms (cf_rest c) \<and>
     (tls_enabled (cf_tls c) \<longrightarrow> tls_cert_path (cf_tls c) \<noteq> [] \<and> tls_key_path (cf_tls c) \<noteq> []) \<and>
     1 \<le> rt_default_days (cf_retention c) \<and> rt_default_days (cf_retention c) \<le> rt_max_days (cf_retention c) \<and>
     rt_max_days (cf_retention c) < 2 ^ 32 \<and> 1 \<le> rt_sweep_interval_s (cf_retention c) \<and>
     wf_auth (cf_auth c) \<and> wf_peers (cf_instance_name c) (cf_peers c)"

lemma toml_uint_le: "toml_uint mx tbl key whr out = Inr n \<Longrightarrow> out \<le> mx \<Longrightarrow> n \<le> mx"
  by (auto simp: toml_uint_def cfg_invalid_def split: option.splits toml.splits if_splits)

lemma cfg_invalid_not_Inr [simp]: "cfg_invalid d \<noteq> Inr x"
  by (simp add: cfg_invalid_def)

lemma token_problem_Nil: "token_problem s = [] \<longleftrightarrow> strong_secret s"
  by (auto simp: token_problem_def strong_secret_def kMinPeerTokenLength_def list_all_iff)

lemma check_secrets_Cons:
  assumes "check_secrets whr (k # ks) secrets = Inr secrets'"
  shows "strong_secret (snd k) \<and> snd k \<notin> set (map fst secrets) \<and>
    check_secrets whr ks (secrets @ [(snd k, whr @ ''.'' @ fst k)]) = Inr secrets'"
proof (cases "token_problem (snd k) = []")
  case True
  then show ?thesis
    using assms map_of_eq_None_iff [of secrets "snd k"]
    by (cases k; cases "map_of secrets (snd k)") (simp_all add: token_problem_Nil del: append.simps)
next
  case False
  then show ?thesis using assms by (cases k) (simp add: Let_def del: append.simps)
qed

lemma check_secrets_ok:
  assumes "check_secrets whr ks secrets = Inr secrets'" "distinct (map fst secrets)" "\<forall>s \<in> set (map fst secrets). strong_secret s"
  shows "map fst secrets' = map fst secrets @ map snd ks \<and> distinct (map fst secrets') \<and>
    (\<forall>s \<in> set (map fst secrets'). strong_secret s)"
  using assms
proof (induction ks arbitrary: secrets)
  case (Cons k ks)
  note c = check_secrets_Cons [OF Cons.prems(1)]
  let ?s = "secrets @ [(snd k, whr @ ''.'' @ fst k)]"
  have "distinct (map fst ?s)" "\<forall>s \<in> set (map fst ?s). strong_secret s" using Cons.prems(2,3) c by simp_all
  then have "map fst secrets' = map fst ?s @ map snd ks \<and> distinct (map fst secrets') \<and>
    (\<forall>s \<in> set (map fst secrets'). strong_secret s)" using Cons.IH c by blast
  moreover have "map fst ?s @ map snd ks = map fst secrets @ map snd (k # ks)" by simp
  ultimately show ?case by metis
qed simp

lemma parse_peer_port: "parse_peer whr p = Inr peer \<Longrightarrow> pc_port peer \<le> 65535"
  using toml_uint_le [of "2 ^ 16 - 1" p "''port''" whr 8080] by (auto simp: parse_peer_def try_simps)

lemma check_peer_ok:
  assumes "check_peer inst whr peer seen secrets = Inr secrets'"
    "distinct (map fst secrets)" "\<forall>s \<in> set (map fst secrets). strong_secret s"
  shows "is_valid_name (pc_name peer) \<and> pc_name peer \<noteq> inst \<and> pc_name peer \<notin> set seen \<and> pc_host peer \<noteq> [] \<and>
    1 \<le> pc_port peer \<and> map fst secrets' = map fst secrets @ [pc_token peer, pc_accept_token peer] \<and>
    distinct (map fst secrets') \<and> (\<forall>s \<in> set (map fst secrets'). strong_secret s)"
proof -
  have p: "is_valid_name (pc_name peer)" "pc_name peer \<noteq> inst" "pc_name peer \<notin> set seen" "pc_host peer \<noteq> []" "pc_port peer \<noteq> 0"
    "check_secrets whr [(''token'', pc_token peer), (''accept_token'', pc_accept_token peer)] secrets = Inr secrets'"
    using assms(1) unfolding check_peer_def by (simp_all only: cfg_invalid_not_Inr split: if_splits) simp_all
  from p(1-5) check_secrets_ok [OF p(6) assms(2,3), unfolded list.map snd_conv] show ?thesis
    unfolding One_nat_def Suc_le_eq by blast
qed

lemma parse_peer_list_ok:
  assumes "parse_peer_list inst i ps out secrets ws = (Inr peers, ws')"
    "wf_peers inst out" "map fst secrets = peer_secrets out"
  shows "wf_peers inst peers"
  using assms
proof (induction ps arbitrary: i out secrets ws)
  case (Cons v ps)
  from Cons.prems(1) obtain p w peer secrets1 ws1 where p: "parse_peer w p = Inr peer"
    "check_peer inst w peer (map pc_name out) secrets = Inr secrets1"
    "parse_peer_list inst (Suc i) ps (out @ [peer]) secrets1 ws1 = (Inr peers, ws')"
    by (cases v) (auto simp: Let_def try_simps)
  have "distinct (map fst secrets)" "\<forall>s \<in> set (map fst secrets). strong_secret s"
    using Cons.prems(2,3) by (simp_all add: wf_peers_def)
  note o = check_peer_ok [OF p(2) this]
  have e: "map fst secrets1 = peer_secrets (out @ [peer])" using Cons.prems(3) o by (simp add: peer_secrets_def)
  have "distinct (peer_secrets (out @ [peer]))" "\<forall>s \<in> set (peer_secrets (out @ [peer])). strong_secret s"
    using o unfolding e by blast+
  then have "wf_peers inst (out @ [peer])" using Cons.prems(2) o parse_peer_port [OF p(1)] by (auto simp: wf_peers_def)
  then show ?case using Cons.IH [OF p(3) _ e] by simp
qed simp

lemma parse_peers_ok: "parse_peers root inst ws = (Inr peers, ws') \<Longrightarrow> wf_peers inst peers"
  using parse_peer_list_ok [of inst 0 _ "[]" "[]" ws peers ws']
  by (cases "map_of root ''peer''"; cases "the (map_of root ''peer'')")
    (simp_all add: parse_peers_def wf_peers_def peer_secrets_def)

lemma add_user_ok: "add_user u whr us = Inr us' \<Longrightarrow> wf_users us \<Longrightarrow> wf_users us'"
  by (auto simp: add_user_def bad_name_def wf_users_def split: if_splits)

lemma each_line_inv:
  assumes "each_line path n ls f s = Inr s'" "I s" "\<And>l w s s'. f l w s = Inr s' \<Longrightarrow> I s \<Longrightarrow> I s'"
  shows "I s'"
  using assms(1,2)
proof (induction ls arbitrary: n s)
  case (Cons l ls)
  then show ?case using assms(3) by (auto simp: Let_def try_simps split: if_splits)
qed simp

lemma for_each_line_inv:
  assumes "for_each_line H path key f s = Inr s'" "I s" "\<And>l w s s'. f l w s = Inr s' \<Longrightarrow> I s \<Longrightarrow> I s'"
  shows "I s'"
  using assms(1) each_line_inv [of path 1 _ f s s' I, OF _ assms(2,3)]
  by (auto simp: for_each_line_def try_simps split: option.splits if_splits)

lemma users_line_ok: "users_line l w us = Inr us' \<Longrightarrow> wf_users us \<Longrightarrow> wf_users us'"
  by (auto simp: users_line_def split: option.splits intro: add_user_ok)

lemma inline_user_list_ok: "inline_user_list i vs us ws = (Inr us', ws') \<Longrightarrow> wf_users us \<Longrightarrow> wf_users us'"
proof (induction vs arbitrary: i us ws)
  case (Cons v vs)
  from Cons.prems(1) obtain u w us1 ws1 where "add_user u w us = Inr us1" "inline_user_list (Suc i) vs us1 ws1 = (Inr us', ws')"
    by (cases v) (auto simp: Let_def try_simps split: if_splits)
  then show ?case using Cons.IH Cons.prems(2) add_user_ok by blast
qed simp

lemma check_members_ok:
  "check_members whr users ms seen = Inr u \<Longrightarrow> set ms \<subseteq> set users \<and> distinct ms \<and> set ms \<inter> set seen = {}"
proof (induction whr users ms seen rule: check_members.induct)
  case (2 whr users m ms members)
  then show ?case by (auto split: if_splits)
qed simp

lemma add_group_ok:
  assumes "add_group g whr users gs = Inr gs'" "wf_groups users gs"
  shows "wf_groups users gs'"
proof -
  from assms(1) obtain u where g: "is_valid_name (gc_name g)" "gc_name g \<notin> set users" "gc_name g \<notin> set (map gc_name gs)"
    "check_members whr users (gc_members g) [] = Inr u" "gs' = gs @ [g]"
    by (auto simp: add_group_def bad_name_def try_simps split: if_splits)
  from check_members_ok [OF g(4)] g(1-3,5) assms(2) show ?thesis unfolding wf_groups_def by auto
qed

lemma groups_line_ok: "groups_line users l w gs = Inr gs' \<Longrightarrow> wf_groups users gs \<Longrightarrow> wf_groups users gs'"
  by (auto simp: groups_line_def split: option.splits intro: add_group_ok)

lemma inline_group_list_ok:
  "inline_group_list users i vs gs ws = (Inr gs', ws') \<Longrightarrow> wf_groups users gs \<Longrightarrow> wf_groups users gs'"
proof (induction vs arbitrary: i gs ws)
  case (Cons v vs)
  from Cons.prems(1) obtain g w gs1 ws1 where
    "add_group g w users gs = Inr gs1" "inline_group_list users (Suc i) vs gs1 ws1 = (Inr gs', ws')"
    by (cases v) (auto simp: Let_def try_simps split: if_splits)
  then show ?case using Cons.IH Cons.prems(2) add_group_ok by blast
qed simp

lemma parse_storage_ok: "parse_storage base root ws = (Inr s, ws') \<Longrightarrow> s \<noteq> []"
  by (auto simp: parse_storage_def try_simps Let_def split: option.splits if_splits)

definition wf_rest :: "rest_cfg \<Rightarrow> bool" where
  "wf_rest r \<longleftrightarrow> rc_bind r \<noteq> [] \<and> 1 \<le> rc_port r \<and> rc_port r \<le> 65535 \<and> rc_threads r \<le> 1024 \<and> 0 < rc_request_timeout_ms r"

lemma parse_rest_ok:
  assumes "parse_rest root ws = (Inr r, ws')"
  shows "wf_rest r"
proof -
  consider "r = default_rest"
    | tbl bnd port threads timeout where "toml_u16 tbl ''port'' ''rest'' (rc_port default_rest) = Inr port"
      "bnd \<noteq> []" "port \<noteq> 0" "threads \<le> 1024" "timeout \<noteq> 0"
      "r = \<lparr>rc_bind = bnd, rc_port = port, rc_threads = threads, rc_request_timeout_ms = timeout\<rparr>"
    using assms unfolding parse_rest_def
    by (auto simp: try_simps Let_def not_less split: option.splits if_splits)
  then show ?thesis
  proof cases
    case 1
    then show ?thesis by (simp add: wf_rest_def default_rest_def)
  next
    case (2 tbl bnd port threads timeout)
    from toml_uint_le [OF 2(1)] 2(2-6) show ?thesis by (simp add: wf_rest_def default_rest_def)
  qed
qed

lemma parse_tls_ok: "parse_tls base root ws = (Inr t, ws') \<Longrightarrow> tls_enabled t \<Longrightarrow> tls_cert_path t \<noteq> [] \<and> tls_key_path t \<noteq> []"
  by (auto simp: parse_tls_def try_simps split: if_splits)

lemma path_slash_neq_Nil: "b \<noteq> [] \<Longrightarrow> path_slash a b \<noteq> []"
  by (simp add: path_slash_def)

lemma parse_log_ok:
  assumes "parse_log base root storage ws = (Inr l, ws')"
  shows "lg_dir l \<noteq> []"
proof -
  from assms obtain m where "l = (if lg_dir m = [] then m\<lparr>lg_dir := path_slash storage ''logs''\<rparr> else m)"
    by (auto simp: parse_log_def try_simps)
  then show ?thesis by (simp add: path_slash_neq_Nil)
qed

definition wf_retention :: "retention_cfg \<Rightarrow> bool" where
  "wf_retention r \<longleftrightarrow> 1 \<le> rt_default_days r \<and> rt_default_days r \<le> rt_max_days r \<and> rt_max_days r < 2 ^ 32 \<and>
     1 \<le> rt_sweep_interval_s r"

lemma parse_retention_ok:
  assumes "parse_retention root ws = (Inr r, ws')"
  shows "wf_retention r"
proof -
  consider "r = default_retention"
    | tbl dd md si where "toml_u32 tbl ''max_days'' ''retention'' (rt_max_days default_retention) = Inr md"
      "dd \<noteq> 0" "dd \<le> md" "si \<noteq> 0" "r = \<lparr>rt_default_days = dd, rt_max_days = md, rt_sweep_interval_s = si\<rparr>"
    using assms unfolding parse_retention_def
    by (auto simp: try_simps Let_def not_less split: option.splits if_splits)
  then show ?thesis
  proof cases
    case 1
    then show ?thesis by (simp add: wf_retention_def default_retention_def)
  next
    case (2 tbl dd md si)
    from toml_uint_le [OF 2(1)] 2(2-5) show ?thesis by (simp add: wf_retention_def default_retention_def)
  qed
qed

lemma parse_admin_ok:
  "parse_admin tbl a = Inr b \<Longrightarrow> 0 < ac_admin_token_ttl_s b \<and> 0 < ac_admin_token_idle_s b \<and>
     (ac_admin_group b = [] \<or> is_valid_name (ac_admin_group b)) \<and> ac_token_ttl_s b = ac_token_ttl_s a \<and>
     ac_token_idle_s b = ac_token_idle_s a \<and> ac_users b = ac_users a \<and> ac_groups b = ac_groups a"
  by (auto simp: parse_admin_def try_simps split: if_splits)

definition wf_auth_base :: "auth_cfg \<Rightarrow> bool" where
  "wf_auth_base a \<longleftrightarrow> 0 < ac_token_ttl_s a \<and> 0 < ac_token_idle_s a \<and> 0 < ac_admin_token_ttl_s a \<and> 0 < ac_admin_token_idle_s a \<and>
     (ac_admin_group a = [] \<or> is_valid_name (ac_admin_group a))"

lemma parse_auth_table_ok:
  assumes "parse_auth_table base tbl = Inr a"
  shows "wf_auth_base a \<and> ac_users a = [] \<and> ac_groups a = []"
proof -
  from assms obtain b where "parse_admin tbl b = Inr a" "ac_token_ttl_s b \<noteq> 0" "ac_token_idle_s b \<noteq> 0"
    "ac_users b = []" "ac_groups b = []"
    unfolding parse_auth_table_def by (auto simp: try_simps default_auth_def split: if_splits)
  with parse_admin_ok [OF this(1)] show ?thesis by (simp add: wf_auth_base_def)
qed

lemma parse_users_file_ok: "parse_users_file H path us ws = (Inr us', ws') \<Longrightarrow> wf_users us \<Longrightarrow> wf_users us'"
  by (auto simp: parse_users_file_def try_simps elim!: for_each_line_inv [where I = wf_users] intro: users_line_ok)

lemma parse_inline_users_ok: "parse_inline_users v us ws = (Inr us', ws') \<Longrightarrow> wf_users us \<Longrightarrow> wf_users us'"
  by (cases v) (simp_all add: parse_inline_users_def inline_user_list_ok)

lemma parse_groups_file_ok: "parse_groups_file H path users gs = Inr gs' \<Longrightarrow> wf_groups users gs \<Longrightarrow> wf_groups users gs'"
  by (auto simp: parse_groups_file_def elim!: for_each_line_inv [where I = "wf_groups users"] intro: groups_line_ok)

lemma parse_inline_groups_ok:
  "parse_inline_groups users v gs ws = (Inr gs', ws') \<Longrightarrow> wf_groups users gs \<Longrightarrow> wf_groups users gs'"
  by (cases v) (simp_all add: parse_inline_groups_def inline_group_list_ok)

lemma load_users_ok:
  assumes "load_users H root a ws = (Inr us, ws')"
  shows "wf_users us"
proof -
  from assms obtain us0 ws0 ws1 where l:
    "(if ac_users_file a = [] then (Inr [], ws) else parse_users_file H (ac_users_file a) [] ws) = (Inr us0, ws0)"
    "(case map_of root ''user'' of None \<Rightarrow> (Inr us0, ws0) | Some v \<Rightarrow> parse_inline_users v us0 ws0) = (Inr us, ws1)"
    unfolding load_users_def try_simps by (simp only: prod.inject sum.inject) blast
  have "wf_users []" by (simp add: wf_users_def)
  with l(1) have "wf_users us0" by (auto split: if_splits intro: parse_users_file_ok)
  with l(2) show ?thesis by (auto split: option.splits intro: parse_inline_users_ok)
qed

lemma load_groups_ok:
  assumes "load_groups H root a users ws = (Inr gs, ws')"
  shows "wf_groups users gs \<and> (ac_admin_group a = [] \<or> ac_admin_group a \<in> set (map gc_name gs))"
proof -
  from assms obtain gs0 ws0 ws1 gs1 where l:
    "(if ac_groups_file a = [] then Inr [] else parse_groups_file H (ac_groups_file a) users []) = Inr gs0"
    "(case map_of root ''group'' of None \<Rightarrow> (Inr gs0, ws0) | Some v \<Rightarrow> parse_inline_groups users v gs0 ws0) = (Inr gs1, ws1)"
    "gs1 = gs" "ac_admin_group a = [] \<or> ac_admin_group a \<in> set (map gc_name gs)"
    unfolding load_groups_def try_simps by (auto split: if_split_asm)
  have "wf_groups users []" by (simp add: wf_groups_def)
  with l(1) have "wf_groups users gs0" by (auto split: if_splits intro: parse_groups_file_ok)
  with l(2) have "wf_groups users gs1" by (auto split: option.splits intro: parse_inline_groups_ok)
  then show ?thesis using l(3,4) by simp
qed

lemma load_local_ok:
  assumes "load_local H root a ws = (Inr b, ws')"
  shows "wf_users (ac_users b) \<and> wf_groups (map uc_name (ac_users b)) (ac_groups b) \<and>
    (ac_admin_group b = [] \<or> ac_admin_group b \<in> set (map gc_name (ac_groups b))) \<and>
    (\<exists>us gs. b = a\<lparr>ac_users := us, ac_groups := gs\<rparr>)"
proof -
  from assms obtain us ws1 gs where l: "load_users H root a ws = (Inr us, ws1)"
    "load_groups H root a (map uc_name us) ws1 = (Inr gs, ws')" "b = a\<lparr>ac_users := us, ac_groups := gs\<rparr>"
    unfolding load_local_def try_simps by blast
  have "\<exists>us' gs'. b = a\<lparr>ac_users := us', ac_groups := gs'\<rparr>" using l(3) by blast
  with load_users_ok [OF l(1)] load_groups_ok [OF l(2)] show ?thesis by (simp add: l(3))
qed

lemma check_ldap_ok:
  "check_ldap c = Inr u \<Longrightarrow> lc_uri c \<noteq> [] \<and> lc_user_base_dn c \<noteq> [] \<and> 0 < lc_timeout_s c \<and>
     lc_preset c \<in> {''openldap'', ''active_directory''}"
  by (auto simp: check_ldap_def split: if_splits)

lemma parse_ldap_ok:
  assumes "parse_ldap H base auth ws = (Inr c, ws')"
  shows "lc_uri c \<noteq> [] \<and> lc_user_base_dn c \<noteq> [] \<and> 0 < lc_timeout_s c \<and> lc_preset c \<in> {''openldap'', ''active_directory''}"
proof -
  from assms obtain c0 u pw where "check_ldap c0 = Inr u" "c = c0\<lparr>lc_bind_password := pw\<rparr>"
    unfolding parse_ldap_def by (auto simp: try_simps no_ldap_section_def split: option.splits)
  with check_ldap_ok [OF this(1)] show ?thesis by simp
qed

lemma load_provider_ok:
  assumes "load_provider H base root tbl b ws = (Inr a, ws')" "wf_auth_base b" "ac_users b = []" "ac_groups b = []"
  shows "wf_auth a"
proof (cases "ac_provider b")
  case LocalProvider
  then obtain w where "load_local H root b w = (Inr a, ws')" using assms(1) by (simp add: load_provider_def)
  from load_local_ok [OF this] assms(2) LocalProvider show ?thesis by (auto simp: wf_auth_def wf_auth_base_def)
next
  case LdapProvider
  then obtain ldap w where "parse_ldap H base tbl ws = (Inr ldap, w)" "a = b\<lparr>ac_ldap := ldap\<rparr>"
    using assms(1) by (auto simp: load_provider_def cfd_tryS_Inr)
  with parse_ldap_ok [OF this(1)] assms(2-4) LdapProvider show ?thesis by (simp add: wf_auth_def wf_auth_base_def)
qed

lemma parse_auth_ok:
  assumes "parse_auth H base root ws = (Inr a, ws')"
  shows "wf_auth a"
proof -
  from assms obtain tbl ws0 b w where b: "(case tbl of None \<Rightarrow> (Inr default_auth, ws0)
      | Some t \<Rightarrow> (parse_auth_table base t, warn_unknown t ''auth.'' auth_keys ws0)) = (Inr b, w)"
    "load_provider H base root tbl b w = (Inr a, ws')"
    unfolding parse_auth_def cfd_tryS_Inr by blast
  have "wf_auth_base b \<and> ac_users b = [] \<and> ac_groups b = []"
  proof (cases tbl)
    case None
    with b(1) have "b = default_auth" by simp
    then show ?thesis by (simp add: wf_auth_base_def default_auth_def)
  next
    case (Some t)
    with b(1) have "parse_auth_table base t = Inr b" by simp
    then show ?thesis by (rule parse_auth_table_ok)
  qed
  then show ?thesis using load_provider_ok [OF b(2)] by blast
qed

lemma parse_sections_ok:
  assumes "parse_sections H base root inst w = (Inr cfg, w')" "is_valid_name inst"
  shows "wf_config cfg"
proof -
  from assms obtain storage w1 rest w2 tls w3 auth w4 log w5 ret w6 peers w7 where c:
    "parse_storage base root w = (Inr storage, w1)" "parse_rest root w1 = (Inr rest, w2)"
    "parse_tls base root w2 = (Inr tls, w3)" "parse_auth H base root w3 = (Inr auth, w4)"
    "parse_log base root storage w4 = (Inr log, w5)" "parse_retention root w5 = (Inr ret, w6)"
    "parse_peers root inst w6 = (Inr peers, w7)"
    "cfg = \<lparr>cf_instance_name = inst, cf_storage_root = storage, cf_rest = rest, cf_tls = tls,
       cf_auth = auth, cf_log = log, cf_retention = ret, cf_peers = peers, cf_warnings = w7\<rparr>"
    unfolding parse_sections_def cfd_tryS_Inr by (elim exE conjE, intro that) (assumption | simp)+
  note ok = parse_storage_ok [OF c(1)] parse_rest_ok [OF c(2)] parse_tls_ok [OF c(3)] parse_auth_ok [OF c(4)]
    parse_log_ok [OF c(5)] parse_retention_ok [OF c(6)] parse_peers_ok [OF c(7)]
  show ?thesis using assms(2) ok unfolding wf_config_def c(8) config.select_convs wf_rest_def wf_retention_def by blast
qed

lemma parser_run_ok:
  assumes "parser_run H base v = Inr cfg"
  shows "wf_config cfg"
proof -
  from assms obtain root inst where "is_valid_name inst"
    "fst (parse_sections H base root inst (warn_unknown root [] root_keys [])) = Inr cfg"
    by (cases v) (auto simp: parser_run_def cfd_try_Inr split: if_splits)
  then show ?thesis using parse_sections_ok by (metis prod.collapse)
qed

lemma config_file_ok: "config_from_file P H path = Inr cfg \<Longrightarrow> wf_config cfg"
  using parser_run_ok by (auto simp: config_from_file_def parser_parse_def split: option.splits sum.splits)

text \<open>
  C15. A server never starts on a bad configuration. Whatever the TOML document says and whatever the
  files it names hold, a configuration that the loader returns is well formed: every name is in the
  alphabet of names, user and group names are unique and apart from each other, group members are
  known users, the administrator group exists, ports, delays and retention times are in range, TLS has a
  certificate and a key when it is on, no peer has this server's name, and every peer secret is long,
  printable, free of the prefixes of session tokens and used exactly once over all peers and directions.
\<close>

theorem loaded_config_valid:
  assumes "config_from_file P H path = Inr cfg"
  shows "wf_config cfg"
  by (rule config_file_ok [OF assms])

definition sample_toml :: toml where
  "sample_toml = TTable [(''instance_name'', TString ''alpha''), (''storage'', TTable [(''root'', TString ''data'')]),
     (''tls'', TTable [(''enabled'', TBool False)]),
     (''auth'', TTable [(''users_file'', TString ''users.txt''), (''admin_group'', TString ''ops'')]),
     (''group'', TArray [TTable [(''name'', TString ''ops''), (''members'', TArray [TString ''bob''])]]),
     (''peer'', TArray [TTable [(''name'', TString ''beta''), (''host'', TString ''b.example''),
        (''token'', TString ''aaaaaaaaaaaaaaaaaaaaaaaaaaaaaaaa''),
        (''accept_token'', TString ''bbbbbbbbbbbbbbbbbbbbbbbbbbbbbbbb'')]])]"

definition sample_host :: host where
  "sample_host = \<lparr>h_open = (\<lambda>path. if path = ''/etc/confide.toml'' then Some (''doc'', False)
       else if path = ''/etc/users.txt'' then Some (''# users'' @ [CHR 0x0A] @ ''bob:secret'' @ [CHR 0x0A], False) else None),
     h_shared = (\<lambda>_. True), h_cwd = Some ''/''\<rparr>"

theorem loaded_config_valid_witness:
  "\<exists>cfg. config_from_file (\<lambda>_ _. Inr sample_toml) sample_host ''/etc/confide.toml'' = Inr cfg \<and> wf_config cfg"
proof -
  have "is_ok (config_from_file (\<lambda>_ _. Inr sample_toml) sample_host ''/etc/confide.toml'')" by code_simp
  then obtain cfg where "config_from_file (\<lambda>_ _. Inr sample_toml) sample_host ''/etc/confide.toml'' = Inr cfg"
    by (auto simp: is_ok_iff)
  with loaded_config_valid [OF this] show ?thesis by blast
qed

end
