(* ===== verification/Auth_Authenticator.thy ===== *)
theory Auth_Authenticator
  imports Auth_Limiter Auth_Sessions Auth_Directory Config_Valid Common_Base64
begin

section \<open>Who sent a request\<close>

text \<open>
  \<^verbatim>\<open>src/src/lib/auth/authenticator.cpp\<close>: from the value of an Authorization header to a name. The
  directory is the parameter \<open>D\<close> of its interface; the state holds the sessions, the
  limiter's counters and the directory's own state. Both clocks are the argument \<open>now\<close>.
\<close>

subsection \<open>Model\<close>

record auth_peer =
  ap_name :: string
  ap_token :: sha256_digest

record authenticator =
  au_admin_group :: string
  au_peers :: "auth_peer list"
  au_options :: session_options
  au_limits :: login_limits

record 'd auth_state =
  as_sessions :: session_table
  as_limiter :: limiter
  as_dir :: 'd

definition iequals :: "string \<Rightarrow> string \<Rightarrow> bool" where
  "iequals a b \<longleftrightarrow> map to_lower a = map to_lower b"

definition credentials :: "string \<Rightarrow> string \<Rightarrow> string option" where
  "credentials header scheme =
     (case split_first CHR '' '' header of
        None \<Rightarrow> None
      | Some (s, rest) \<Rightarrow> if iequals s scheme then Some (dropWhile (\<lambda>c. c = CHR '' '') rest) else None)"

fun load_auth_peers :: "evp \<Rightarrow> peer_cfg list \<Rightarrow> auth_peer list result" where
  "load_auth_peers E [] = Inr []"
| "load_auth_peers E (p # ps) =
     (if pc_accept_token p = [] then load_auth_peers E ps
      else cfd_try (sha_of_text E (pc_accept_token p)) (\<lambda>digest.
           cfd_try (load_auth_peers E ps) (\<lambda>rest. Inr (\<lparr>ap_name = pc_name p, ap_token = digest\<rparr> # rest))))"

definition authenticator_create :: "evp \<Rightarrow> config \<Rightarrow> login_limits \<Rightarrow> authenticator result" where
  "authenticator_create E cfg limits =
     cfd_try (load_auth_peers E (cf_peers cfg)) (\<lambda>peers.
       let auth = cf_auth cfg
       in Inr \<lparr>au_admin_group = ac_admin_group auth, au_peers = peers,
            au_options = \<lparr>ttl = int (ac_token_ttl_s auth), idle = int (ac_token_idle_s auth), max_per_user = 20,
              admin_ttl = int (ac_admin_token_ttl_s auth), admin_idle = int (ac_admin_token_idle_s auth)\<rparr>,
            au_limits = limits\<rparr>)"

definition fresh_auth :: "'d \<Rightarrow> 'd auth_state" where
  "fresh_auth d = \<lparr>as_sessions = [], as_limiter = [], as_dir = d\<rparr>"

text \<open>A user name and password are checked: throttled attempts never reach the directory.\<close>

definition check_login ::
  "authenticator \<Rightarrow> 'd directory \<Rightarrow> timestamp \<Rightarrow> string \<Rightarrow> string \<Rightarrow> string \<Rightarrow> 'd auth_state \<Rightarrow>
   string result \<times> 'd auth_state" where
  "check_login A D now user password source st =
     cfd_tryS (lim_check now (as_limiter st) user source, st) (\<lambda>_ st.
       case dir_verify D now user password (as_dir st) of
         (name, d) \<Rightarrow>
           let st = st\<lparr>as_dir := d\<rparr>
           in case name of
                Inr n \<Rightarrow> (name, st\<lparr>as_limiter := lim_succeeded user source (as_limiter st)\<rparr>)
              | Inl e \<Rightarrow>
                  (name, if code e = Auth
                         then st\<lparr>as_limiter := lim_failed (au_limits A) now user source (as_limiter st)\<rparr> else st))"

definition basic_pair :: "string \<Rightarrow> (string \<times> string) result" where
  "basic_pair authorization =
     (if authorization = [] then auth_denied ''missing Authorization header''
      else case credentials authorization ''Basic'' of
          None \<Rightarrow> auth_denied ''expected Basic credentials''
        | Some encoded \<Rightarrow>
            (case base64_decode encoded of
               Inl _ \<Rightarrow> auth_denied ''malformed Basic credentials''
             | Inr bytes \<Rightarrow>
                 (case split_first CHR '':'' (of_bytes bytes) of
                    None \<Rightarrow> auth_denied ''malformed Basic credentials''
                  | Some pair \<Rightarrow> Inr pair)))"

definition authenticate_password ::
  "authenticator \<Rightarrow> 'd directory \<Rightarrow> timestamp \<Rightarrow> string \<Rightarrow> string \<Rightarrow> 'd auth_state \<Rightarrow> string result \<times> 'd auth_state" where
  "authenticate_password A D now authorization source st =
     cfd_tryS (basic_pair authorization, st) (\<lambda>(user, password) st. check_login A D now user password source st)"

definition verify_session ::
  "evp \<Rightarrow> authenticator \<Rightarrow> timestamp \<Rightarrow> string \<Rightarrow> scope \<Rightarrow> 'd auth_state \<Rightarrow> string result \<times> 'd auth_state" where
  "verify_session E A now token sc st =
     (case session_verify E (au_options A) now token sc (as_sessions st) of (r, T) \<Rightarrow> (r, st\<lparr>as_sessions := T\<rparr>))"

definition authenticate_user ::
  "evp \<Rightarrow> authenticator \<Rightarrow> 'd directory \<Rightarrow> timestamp \<Rightarrow> string \<Rightarrow> string \<Rightarrow> 'd auth_state \<Rightarrow>
   string result \<times> 'd auth_state" where
  "authenticate_user E A D now authorization source st =
     (case credentials authorization ''Bearer'' of
        Some token \<Rightarrow> verify_session E A now token UserScope st
      | None \<Rightarrow> authenticate_password A D now authorization source st)"

definition require_admin ::
  "authenticator \<Rightarrow> 'd directory \<Rightarrow> timestamp \<Rightarrow> string \<Rightarrow> 'd auth_state \<Rightarrow> string result \<times> 'd auth_state" where
  "require_admin A D now user st =
     (if au_admin_group A = []
      then (fail Forbidden (''admin rights required, '' @ user @ '' has none''), st)
      else case dir_is_member D now user (au_admin_group A) (as_dir st) of
          (member, d) \<Rightarrow>
            (if member then Inr user else fail Forbidden (''admin rights required, '' @ user @ '' has none''),
             st\<lparr>as_dir := d\<rparr>))"

definition authenticate_admin_password ::
  "authenticator \<Rightarrow> 'd directory \<Rightarrow> timestamp \<Rightarrow> string \<Rightarrow> string \<Rightarrow> 'd auth_state \<Rightarrow> string result \<times> 'd auth_state" where
  "authenticate_admin_password A D now authorization source st =
     cfd_tryS (authenticate_password A D now authorization source st) (\<lambda>user st. require_admin A D now user st)"

definition authenticate_admin ::
  "evp \<Rightarrow> authenticator \<Rightarrow> 'd directory \<Rightarrow> timestamp \<Rightarrow> string \<Rightarrow> string \<Rightarrow> 'd auth_state \<Rightarrow>
   string result \<times> 'd auth_state" where
  "authenticate_admin E A D now authorization source st =
     (case credentials authorization ''Bearer'' of
        Some token \<Rightarrow>
          cfd_tryS (verify_session E A now token AdminScope st) (\<lambda>user st. require_admin A D now user st)
      | None \<Rightarrow> authenticate_admin_password A D now authorization source st)"

definition issue_token ::
  "evp \<Rightarrow> authenticator \<Rightarrow> byte list option \<Rightarrow> timestamp \<Rightarrow> string \<Rightarrow> scope \<Rightarrow> 'd auth_state \<Rightarrow>
   issued_token result \<times> 'd auth_state" where
  "issue_token E A random now user sc st =
     (case session_issue E (au_options A) random now user sc (as_sessions st) of (r, T) \<Rightarrow> (r, st\<lparr>as_sessions := T\<rparr>))"

definition revoke_token :: "evp \<Rightarrow> string \<Rightarrow> 'd auth_state \<Rightarrow> 'd auth_state" where
  "revoke_token E authorization st =
     (case credentials authorization ''Bearer'' of
        Some token \<Rightarrow> st\<lparr>as_sessions := session_revoke E token (as_sessions st)\<rparr>
      | None \<Rightarrow> st)"

text \<open>The loop over the peers has no early exit: the last match counts.\<close>

definition match_peer :: "auth_peer list \<Rightarrow> sha256_digest \<Rightarrow> auth_peer option" where
  "match_peer peers digest = fold (\<lambda>p m. if ap_token p = digest then Some p else m) peers None"

definition authenticate_peer :: "evp \<Rightarrow> authenticator \<Rightarrow> string \<Rightarrow> string result" where
  "authenticate_peer E A authorization =
     (if authorization = [] then auth_denied ''missing Authorization header''
      else case credentials authorization ''Bearer'' of
          None \<Rightarrow> auth_denied ''expected Bearer peer token''
        | Some token \<Rightarrow>
            if token = [] then auth_denied ''expected Bearer peer token''
            else if starts_with token kPrefix \<or> starts_with token kAdminPrefix
            then auth_denied ''user tokens are not accepted from peers''
            else cfd_try (sha_of_text E token) (\<lambda>digest.
                   case match_peer (au_peers A) digest of
                     None \<Rightarrow> auth_denied ''invalid peer token''
                   | Some p \<Rightarrow> Inr (ap_name p)))"

definition auth_sessions :: "authenticator \<Rightarrow> timestamp \<Rightarrow> 'd auth_state \<Rightarrow> session list \<times> 'd auth_state" where
  "auth_sessions A now st =
     (case session_list (au_options A) now (as_sessions st) of (r, T) \<Rightarrow> (r, st\<lparr>as_sessions := T\<rparr>))"

definition auth_revoke_user :: "string \<Rightarrow> 'd auth_state \<Rightarrow> nat \<times> 'd auth_state" where
  "auth_revoke_user user st =
     (case session_revoke_user user (as_sessions st) of (n, T) \<Rightarrow> (n, st\<lparr>as_sessions := T\<rparr>))"

subsection \<open>Peers\<close>

lemma load_auth_peers_map:
  assumes "load_auth_peers E ps = Inr aps" "\<forall>p \<in> set ps. pc_accept_token p \<noteq> []"
  shows "list_all2 (\<lambda>p a. ap_name a = pc_name p \<and> sha_of_text E (pc_accept_token p) = Inr (ap_token a)) ps aps"
  using assms by (induction ps arbitrary: aps) (auto simp: try_simps)

lemma credentials_bearer:
  "t = [] \<or> hd t \<noteq> CHR '' '' \<Longrightarrow> credentials (''Bearer '' @ t) ''Bearer'' = Some t"
  by (cases t) (simp_all add: credentials_def iequals_def)

lemma list_all2_left: "list_all2 R xs ys \<Longrightarrow> x \<in> set xs \<Longrightarrow> \<exists>y \<in> set ys. R x y"
  by (induction rule: list_all2_induct) auto

lemma list_all2_right: "list_all2 R xs ys \<Longrightarrow> y \<in> set ys \<Longrightarrow> \<exists>x \<in> set xs. R x y"
  by (induction rule: list_all2_induct) auto

lemma match_peer_Some: "match_peer aps d = Some a \<Longrightarrow> a \<in> set aps \<and> ap_token a = d"
  by (induction aps rule: rev_induct) (auto simp: match_peer_def split: if_splits)

lemma match_peer_None: "match_peer aps d = None \<longleftrightarrow> (\<forall>a \<in> set aps. ap_token a \<noteq> d)"
  by (induction aps rule: rev_induct) (auto simp: match_peer_def)

lemma accept_tokens_apart:
  assumes "wf_peers inst ps" "p \<in> set ps" "q \<in> set ps" "pc_accept_token p = pc_accept_token q"
  shows "p = q"
proof -
  have "distinct (peer_secrets ps)" using assms(1) by (simp add: wf_peers_def)
  then show ?thesis using assms(2-4)
    by (induction ps) (auto simp: peer_secrets_def)
qed

text \<open>
  C12. A peer token names exactly one peer. On a server whose configuration was loaded from a file, a
  request with a bearer token is taken for the peer \<open>name\<close> exactly when \<open>name\<close> is a configured
  peer and the token is the one that peer was given, as long as SHA-256 does not collide on the tokens
  involved.
\<close>

theorem peer_token_identifies:
  assumes "config_from_file P H path = Inr cfg" "authenticator_create E cfg limits = Inr A" "evp_sound E sha"
    and "inj_on (\<lambda>s. sha (as_bytes s)) (insert token (pc_accept_token ` set (cf_peers cfg)))"
    and "credentials header ''Bearer'' = Some token"
  shows "authenticate_peer E A header = Inr name \<longleftrightarrow>
    (\<exists>p \<in> set (cf_peers cfg). pc_name p = name \<and> pc_accept_token p = token)"
proof -
  have wf: "wf_peers (cf_instance_name cfg) (cf_peers cfg)" using config_file_ok [OF assms(1)] by (simp add: wf_config_def)
  have strong: "strong_secret (pc_accept_token p)" if "p \<in> set (cf_peers cfg)" for p
    using wf that by (auto simp: wf_peers_def peer_secrets_def)
  have ne: "strong_secret s \<Longrightarrow> s \<noteq> []" for s by (auto simp: strong_secret_def)
  from assms(2) have "load_auth_peers E (cf_peers cfg) = Inr (au_peers A)"
    by (auto simp: authenticator_create_def try_simps Let_def)
  from load_auth_peers_map [OF this] have l: "list_all2
      (\<lambda>p a. ap_name a = pc_name p \<and> sha_of_text E (pc_accept_token p) = Inr (ap_token a)) (cf_peers cfg) (au_peers A)"
    using strong ne by blast
  show ?thesis
  proof
    assume "authenticate_peer E A header = Inr name"
    then obtain d a where d: "sha_of_text E token = Inr d" "match_peer (au_peers A) d = Some a" "ap_name a = name"
      using assms(5) by (auto simp: authenticate_peer_def auth_denied_def try_simps split: if_splits option.splits)
    then have a: "a \<in> set (au_peers A)" "ap_token a = d" using match_peer_Some by blast+
    then obtain p where p: "p \<in> set (cf_peers cfg)" "ap_name a = pc_name p" "sha_of_text E (pc_accept_token p) = Inr d"
      using list_all2_right [OF l a(1)] by auto
    have "sha (as_bytes (pc_accept_token p)) = sha (as_bytes token)"
      using d(1) p(3) sha_of_sound [OF assms(3)] by (metis sha_of_text_def)
    from inj_onD [OF assms(4) this] p(1) have "pc_accept_token p = token" by simp
    then show "\<exists>p \<in> set (cf_peers cfg). pc_name p = name \<and> pc_accept_token p = token" using p(1,2) d(3) by auto
  next
    assume "\<exists>p \<in> set (cf_peers cfg). pc_name p = name \<and> pc_accept_token p = token"
    then obtain p where p: "p \<in> set (cf_peers cfg)" "pc_name p = name" "pc_accept_token p = token" by blast
    with list_all2_left [OF l p(1)] obtain a where a: "a \<in> set (au_peers A)" "ap_name a = name"
      "sha_of_text E token = Inr (ap_token a)" by auto
    have "ap_name b = name" if b: "b \<in> set (au_peers A)" "ap_token b = ap_token a" for b
    proof -
      from list_all2_right [OF l b(1)] obtain q where q: "q \<in> set (cf_peers cfg)" "ap_name b = pc_name q"
        "sha_of_text E (pc_accept_token q) = Inr (ap_token b)" by auto
      have "sha (as_bytes (pc_accept_token q)) = sha (as_bytes token)"
        using a(3) q(3) b(2) sha_of_sound [OF assms(3)] by (metis sha_of_text_def)
      from inj_onD [OF assms(4) this] q(1) p(3) have "pc_accept_token q = pc_accept_token p" by simp
      then have "q = p" using accept_tokens_apart [OF wf q(1) p(1)] by blast
      then show ?thesis using q(2) p(2) by simp
    qed
    moreover have "match_peer (au_peers A) (ap_token a) \<noteq> None" using a(1) match_peer_None by metis
    then obtain b where "match_peer (au_peers A) (ap_token a) = Some b" by blast
    moreover from this have "b \<in> set (au_peers A) \<and> ap_token b = ap_token a" using match_peer_Some by metis
    ultimately show "authenticate_peer E A header = Inr name"
      using assms(5) a(3) strong [OF p(1)] ne [of token] p(3) split_first_None [of "CHR '' ''" "[]"]
      by (auto simp: authenticate_peer_def strong_secret_def kPrefix_def kAdminPrefix_def credentials_def)
  qed
qed

subsection \<open>Password guessing\<close>

type_synonym attempt = "timestamp \<times> string \<times> string"

definition auth_attempts :: "authenticator \<Rightarrow> 'd directory \<Rightarrow> attempt list \<Rightarrow> 'd auth_state \<Rightarrow> 'd auth_state" where
  "auth_attempts A D as st =
     fold (\<lambda>(now, header, source) st. snd (authenticate_password A D now header source st)) as st"

text \<open>What an attempt tells the limiter.\<close>

definition attempt_event :: "'d directory \<Rightarrow> attempt \<Rightarrow> 'd auth_state \<Rightarrow> lim_event list" where
  "attempt_event D a st =
     (case a of (now, header, source) \<Rightarrow>
       case basic_pair header of
         Inl _ \<Rightarrow> []
       | Inr (user, password) \<Rightarrow>
           if \<not> is_ok (lim_check now (as_limiter st) user source) then []
           else case fst (dir_verify D now user password (as_dir st)) of
               Inr _ \<Rightarrow> [LSuccess user source]
             | Inl e \<Rightarrow> if code e = Auth then [LFail now user source] else [])"

lemma auth_attempts_simps [simp]:
  "auth_attempts A D [] st = st"
  "auth_attempts A D ((now, h, s) # as) st = auth_attempts A D as (snd (authenticate_password A D now h s st))"
  by (simp_all add: auth_attempts_def)

lemma attempt_limiter:
  "as_limiter (snd (authenticate_password A D now h s st)) =
     lim_run (au_limits A) (attempt_event D (now, h, s) st) (as_limiter st)"
proof (cases "basic_pair h")
  case (Inr up)
  obtain user pw where up: "up = (user, pw)" by fastforce
  show ?thesis
  proof (cases "lim_check now (as_limiter st) user s")
    case (Inr u)
    obtain r d where "dir_verify D now user pw (as_dir st) = (r, d)" by fastforce
    then show ?thesis
      using \<open>basic_pair h = Inr up\<close> Inr up
      by (cases r) (simp_all add: authenticate_password_def check_login_def attempt_event_def)
  qed (simp add: authenticate_password_def check_login_def attempt_event_def Inr up)
qed (simp add: authenticate_password_def attempt_event_def)

lemma lim_check_code: "lim_check now L user source = Inl e \<Longrightarrow> code e = Throttled"
  by (auto simp: lim_check_def Let_def split: if_splits)

lemma refused_event:
  assumes "basic_pair h = Inr (user, pw)" "authenticate_password A D now h s st = (Inl (Error Auth why), st')"
  shows "attempt_event D (now, h, s) st = [LFail now user s]"
proof (cases "lim_check now (as_limiter st) user s")
  case (Inl e)
  then have "e = Error Auth why" using assms by (simp add: authenticate_password_def check_login_def)
  with lim_check_code [OF Inl] show ?thesis by simp
next
  case (Inr u)
  obtain r d where "dir_verify D now user pw (as_dir st) = (r, d)" by fastforce
  then show ?thesis
    using assms Inr by (cases r) (auto simp: authenticate_password_def check_login_def attempt_event_def Let_def)
qed

lemma attempt_event_times:
  "t0 \<le> now \<Longrightarrow> times_from t0 (attempt_event D (now, h, s) st) \<and> last_time t0 (attempt_event D (now, h, s) st) \<le> now \<and>
     length (attempt_event D (now, h, s) st) \<le> 1"
  by (auto simp: attempt_event_def split: sum.splits prod.splits)

lemma last_time_append: "last_time t (xs @ ys) = last_time (last_time t xs) ys"
  by (induction t xs rule: last_time.induct) simp_all

lemma attempts_limiter:
  assumes "sorted (t0 # map fst as)" "last (t0 # map fst as) \<le> t"
  shows "\<exists>evs. as_limiter (auth_attempts A D as st) = lim_run (au_limits A) evs (as_limiter st) \<and>
    length evs \<le> length as \<and> times_from t0 evs \<and> last_time t0 evs \<le> t"
  using assms
proof (induction as arbitrary: t0 st)
  case Nil
  then show ?case by (intro exI [of _ "[]"]) simp
next
  case (Cons a as)
  obtain now h s where a: "a = (now, h, s)" by (cases a)
  let ?ev = "attempt_event D (now, h, s) st"
  have now: "t0 \<le> now" using Cons.prems(1) a by simp
  note e = attempt_event_times [OF now, of D h s st]
  have "sorted (last_time t0 ?ev # map fst as)" using Cons.prems(1) a e by (auto intro: order_trans)
  moreover have "last (last_time t0 ?ev # map fst as) \<le> t" using Cons.prems(2) a e by (auto split: if_splits)
  ultimately obtain evs where "as_limiter (auth_attempts A D as (snd (authenticate_password A D now h s st))) =
      lim_run (au_limits A) evs (as_limiter (snd (authenticate_password A D now h s st)))" "length evs \<le> length as"
    "times_from (last_time t0 ?ev) evs" "last_time (last_time t0 ?ev) evs \<le> t"
    using Cons.IH by blast
  then show ?case
    using e a by (intro exI [of _ "?ev @ evs"]) (simp add: attempt_limiter times_from_append last_time_append)
qed

lemma throttled_unchanged:
  assumes "\<And>user. \<exists>d. lim_check t (as_limiter st) user source = fail Throttled d"
  shows "snd (authenticate_password A D t header source st) = st \<and> \<not> is_ok (fst (authenticate_password A D t header source st))"
proof (cases "basic_pair header")
  case (Inr up)
  obtain user pw where "up = (user, pw)" by fastforce
  with assms [of user] Inr show ?thesis by (auto simp: authenticate_password_def check_login_def fail_def)
qed (simp add: authenticate_password_def)

text \<open>
  C10. Guessing from one address stops at the backoff. Take any history of password attempts on a
  fresh server, by any users from any addresses, and let one of them be refused by the directory
  while its address already has more failures than are free. Then until the delay of that failure has
  passed, no attempt from the address succeeds or reaches the directory, whatever user it names and
  whatever other logins, failed or successful, happen meanwhile.
\<close>

theorem guessing_stops_at_backoff:
  assumes "sorted (0 # map fst (before @ (now, header, source) # after) @ [t])" "length before + length after < 2 ^ 32 - 1"
    and "0 \<le> base_delay (au_limits A)" "basic_pair header = Inr (user, password)"
    and "authenticate_password A D now header source (auth_attempts A D before (fresh_auth d)) = (Inl (Error Auth why), st)"
    and "map_of (as_limiter st) (source_key source) = Some e" "free_per_source (au_limits A) < failures e"
    and "t < now + min (base_delay (au_limits A) * 2 ^ min (unat (failures e) - unat (free_per_source (au_limits A)) - 1) 20)
      (max_delay (au_limits A))"
  shows "snd (authenticate_password A D t anyheader source (auth_attempts A D after st)) = auth_attempts A D after st \<and>
    \<not> is_ok (fst (authenticate_password A D t anyheader source (auth_attempts A D after st)))"
proof -
  let ?st0 = "auth_attempts A D before (fresh_auth d)"
  have s: "sorted ((0 :: int) # map fst before)" "last (0 # map fst before) \<le> now" "sorted (now # map fst after)"
    "last (now # map fst after) \<le> t"
    using assms(1) by (auto simp: sorted_append last_map)
  from attempts_limiter [OF s(1,2), of A D "fresh_auth d"] obtain evs1 where e1:
    "as_limiter ?st0 = lim_run (au_limits A) evs1 []" "length evs1 \<le> length before" "times_from 0 evs1" "last_time 0 evs1 \<le> now"
    by (auto simp: fresh_auth_def)
  from attempts_limiter [OF s(3,4), of A D st] obtain evs2 where e2:
    "as_limiter (auth_attempts A D after st) = lim_run (au_limits A) evs2 (as_limiter st)" "length evs2 \<le> length after"
    "times_from now evs2" "last_time now evs2 \<le> t" by blast
  have "attempt_event D (now, header, source) ?st0 = [LFail now user source]"
    by (rule refused_event [OF assms(4,5)])
  then have l: "as_limiter st = lim_run (au_limits A) (evs1 @ [LFail now user source]) []"
    using attempt_limiter [of A D now header source ?st0] assms(5) e1(1) by simp
  have tm: "times_from 0 (evs1 @ LFail now user source # evs2)" using e1 e2 by (simp add: times_from_append)
  have "\<exists>d. lim_check t (as_limiter (auth_attempts A D after st)) anyone source = fail Throttled d" for anyone
    unfolding e2(1)
    by (rule address_backoff [OF tm _ assms(3) l assms(6,7) e2(4) assms(8)]) (use e1(2) e2(2) assms(2) in linarith)
  then show ?thesis by (rule throttled_unchanged)
qed

text \<open>The header a client sends for a name and a password.\<close>

definition basic_header :: "string \<Rightarrow> string \<Rightarrow> string" where
  "basic_header user password = ''Basic '' @ base64_encode (as_bytes (user @ '':'' @ password))"

lemma basic_pair_header:
  assumes "CHR '':'' \<notin> set user"
  shows "basic_pair (basic_header user password) = Inr (user, password)"
proof -
  let ?e = "base64_encode (as_bytes (user @ '':'' @ password))"
  have "CHR '' '' \<notin> set kAlphabet" by (simp add: kAlphabet_def)
  then have "CHR '' '' \<notin> set ?e" using base64_chars by force
  then have "dropWhile (\<lambda>c. c = CHR '' '') ?e = ?e" by (cases ?e) auto
  then have "credentials (basic_header user password) ''Basic'' = Some ?e"
    by (simp add: credentials_def basic_header_def iequals_def del: as_bytes_append)
  then show ?thesis
    using assms base64.dec_enc [of "as_bytes (user @ '':'' @ password)"]
    by (simp add: basic_pair_def basic_header_def del: as_bytes_append)
qed

lemma basic_not_bearer: "credentials (basic_header user password) ''Bearer'' = None"
  by (simp add: credentials_def basic_header_def iequals_def to_lower_def char_in_def ord_def)

definition sample_authenticator :: authenticator where
  "sample_authenticator = \<lparr>au_admin_group = ''ops'', au_peers = [], au_options = sample_options,
     au_limits = default_limits\<lparr>free_per_source := 1\<rparr>\<rparr>"

definition eve_header :: string where "eve_header = basic_header ''eve'' ''x''"
definition bob_header :: string where "bob_header = basic_header ''bob'' ''pw''"

abbreviation sample_dir :: "local_directory directory" where
  "sample_dir \<equiv> local_dir sample_evp sample_kdf"

theorem guessing_stops_at_backoff_witness:
  "\<exists>st. \<not> is_ok (fst (authenticate_password sample_authenticator sample_dir 120 bob_header ''h1''
     (auth_attempts sample_authenticator sample_dir [(110, bob_header, ''h2'')] st)))"
proof -
  let ?before = "[(90, eve_header, ''h1'')]"
  let ?st0 = "auth_attempts sample_authenticator sample_dir ?before (fresh_auth sample_directory)"
  let ?r = "authenticate_password sample_authenticator sample_dir 100 eve_header ''h1'' ?st0"
  have p: "basic_pair eve_header = Inr (''eve'', ''x'')" by (simp add: eve_header_def basic_pair_header)
  have a: "authenticate_password sample_authenticator sample_dir now eve_header ''h1'' st =
      check_login sample_authenticator sample_dir now ''eve'' ''x'' ''h1'' st" for now st
    by (simp add: authenticate_password_def p)
  have f: "fst ?r = Inl (Error Auth kDenied) \<and> map_option failures (map_of (as_limiter (snd ?r)) (source_key ''h1'')) = Some 2"
    unfolding auth_attempts_simps a by code_simp
  then obtain st e where st: "?r = (Inl (Error Auth kDenied), st)" "map_of (as_limiter st) (source_key ''h1'') = Some e"
    "failures e = 2"
    by (cases ?r) auto
  have s: "sorted ((0 :: int) # map fst (?before @ (100, eve_header, ''h1'') # [(110, bob_header, ''h2'')]) @ [120])" by simp
  show ?thesis
    using guessing_stops_at_backoff [OF s _ _ p st(1,2)] st(3)
    by (auto simp: sample_authenticator_def default_limits_def)
qed

subsection \<open>Administrators\<close>

lemma session_verify_scope:
  "session_verify E opts now token sc T = (Inr user, T') \<Longrightarrow> starts_with token (token_prefix sc)"
  by (auto simp: session_verify_def auth_denied_def split: if_splits)



subsection \<open>What a failed login says\<close>

context directory_contract
begin

lemma check_login_error:
  assumes "inv (as_dir st)" "fst (check_login A D now user password source st) = Inl e"
  shows "e = Error Auth kDenied \<or> code e \<in> {Throttled, Unavailable, Internal}"
proof (cases "lim_check now (as_limiter st) user source")
  case (Inl e')
  with lim_check_code have "code e' = Throttled" by blast
  with Inl assms(2) show ?thesis by (simp add: check_login_def)
next
  case (Inr u)
  obtain r d where "dir_verify D now user password (as_dir st) = (r, d)" by fastforce
  with verify_error [OF assms(1), of now user password e] assms(2) Inr show ?thesis
    by (cases r) (auto simp: check_login_def Let_def)
qed

lemma check_login_inv: "inv (as_dir st) \<Longrightarrow> inv (as_dir (snd (check_login A D now user password source st)))"
  using verify_inv [of "as_dir st" now user password]
  by (cases "lim_check now (as_limiter st) user source"; cases "dir_verify D now user password (as_dir st)")
    (auto simp: check_login_def Let_def split: sum.split)

end

lemma local_login_error:
  "fst (check_login A (local_dir E K) now user password source st) = Inl e \<Longrightarrow>
     e = Error Auth kDenied \<or> code e \<in> {Throttled, Unavailable, Internal}"
  by (rule local_directory.check_login_error [where us = "ld_users (as_dir st)" and gs = "ld_groups (as_dir st)"]) simp_all

theorem peer_token_identifies_witness:
  "\<exists>cfg A. authenticate_peer sample_evp A ''Bearer bbbbbbbbbbbbbbbbbbbbbbbbbbbbbbbb'' = Inr ''beta'' \<and>
     config_from_file (\<lambda>_ _. Inr sample_toml) sample_host ''/etc/confide.toml'' = Inr cfg"
proof -
  let ?c = "config_from_file (\<lambda>_ _. Inr sample_toml) sample_host ''/etc/confide.toml''"
  let ?t = "''bbbbbbbbbbbbbbbbbbbbbbbbbbbbbbbb''"
  have "(case ?c of Inr cfg \<Rightarrow> map (\<lambda>p. (pc_name p, pc_accept_token p)) (cf_peers cfg) = [(''beta'', ?t)] | Inl _ \<Rightarrow> False)" by code_simp
  then obtain cfg where c: "?c = Inr cfg" "map (\<lambda>p. (pc_name p, pc_accept_token p)) (cf_peers cfg) = [(''beta'', ?t)]"
    by (cases ?c) simp_all
  then obtain p where p: "cf_peers cfg = [p]" "pc_name p = ''beta''" "pc_accept_token p = ?t" by (auto simp: map_eq_Cons_conv)
  obtain A where A: "authenticator_create sample_evp cfg default_limits = Inr A"
    by (simp add: authenticator_create_def p sha_of_text_def Let_def)
  have "credentials (''Bearer '' @ ?t) ''Bearer'' = Some ?t" by (rule credentials_bearer) simp
  then have h: "credentials ''Bearer bbbbbbbbbbbbbbbbbbbbbbbbbbbbbbbb'' ''Bearer'' = Some ?t" by simp
  have "inj_on (\<lambda>s. sample_sha (as_bytes s)) (insert ?t (pc_accept_token ` set (cf_peers cfg)))" by (simp add: p)
  from peer_token_identifies [OF c(1) A sample_evp_sound this h, of "''beta''"] p c(1) show ?thesis by auto
qed

end
