(* ===== verification/Ldap_Client.thy ===== *)
theory Ldap_Client
  imports Confide_Prelude
begin

section \<open>The LDAP client\<close>

text \<open>
  \<^verbatim>\<open>src/src/lib/ldapclient/connection.cpp\<close> and \<^verbatim>\<open>ldapAuth.cpp\<close>. The OpenLDAP library with the
  servers behind it is the parameter \<open>L\<close>: a record of the calls the code makes, over a world \<open>'w\<close>.
  A handle of the library is a value with the options that were set on it. An exception \<^verbatim>\<open>LdapError\<close>
  is the left summand of a result; the loop over the pages of a search result may run forever, so that
  every call that searches returns an option, with \<open>None\<close> for not returning.
\<close>

subsection \<open>Model: the library\<close>

record ldap_handle =
  lh_uri :: string
  lh_timeout :: nat
  lh_require_cert :: bool
  lh_ca_file :: string
  lh_tls :: bool

datatype ldap_scope = BaseScope | SubtreeScope

record raw_entry =
  re_dn :: "string option"
  re_attributes :: "(string \<times> string list option) list"

text \<open>
  The answer to one page: the result code, the entries, the code of \<^verbatim>\<open>ldap_parse_result\<close> and the cookie of the
  paged results control, if the server sent a readable one.
\<close>

record page =
  pg_rc :: int
  pg_entries :: "raw_entry list"
  pg_parse_rc :: int
  pg_cookie :: "string option"

record 'w ldap_lib =
  ll_initialize :: "string \<Rightarrow> int"
  ll_start_tls :: "ldap_handle \<Rightarrow> 'w \<Rightarrow> int \<times> 'w"
  ll_bind :: "ldap_handle \<Rightarrow> string option \<Rightarrow> string \<Rightarrow> 'w \<Rightarrow> int \<times> 'w"
  ll_page_control :: "ldap_handle \<Rightarrow> nat \<Rightarrow> string \<Rightarrow> int"
  ll_search :: "ldap_handle \<Rightarrow> string \<Rightarrow> ldap_scope \<Rightarrow> string \<Rightarrow> string list option \<Rightarrow> string \<Rightarrow> 'w \<Rightarrow> page \<times> 'w"
  ll_err2string :: "int \<Rightarrow> string"
  ll_diagnostic :: "ldap_handle \<Rightarrow> 'w \<Rightarrow> string option"
  ll_dn_normalize :: "string \<Rightarrow> string option"

datatype ldap_error = LdapError (le_what: string) (le_code: int)

type_synonym 'a ldap_result = "ldap_error + 'a"

definition kInvalidCredentials :: int where "kInvalidCredentials = 49"
definition kOther :: int where "kOther = 80"
definition kPageSize :: nat where "kPageSize = 500"

text \<open>What follows a call that may throw, in code that always returns and in code that may not.\<close>

fun ldap_try :: "'a ldap_result \<times> 'w \<Rightarrow> ('a \<Rightarrow> 'w \<Rightarrow> 'b ldap_result \<times> 'w) \<Rightarrow> 'b ldap_result \<times> 'w" where
  "ldap_try (Inl e, w) k = (Inl e, w)"
| "ldap_try (Inr x, w) k = k x w"

definition ldap_then ::
  "('a ldap_result \<times> 'w) option \<Rightarrow> ('a \<Rightarrow> 'w \<Rightarrow> ('b ldap_result \<times> 'w) option) \<Rightarrow> ('b ldap_result \<times> 'w) option" where
  "ldap_then m k =
     (case m of None \<Rightarrow> None | Some (Inl e, w) \<Rightarrow> Some (Inl e, w) | Some (Inr x, w) \<Rightarrow> k x w)"

subsection \<open>Model: names and attributes\<close>

definition ci_less :: "string \<Rightarrow> string \<Rightarrow> bool" where
  "ci_less a b \<longleftrightarrow> map to_lower a < map to_lower b"

definition equalsIgnoreCase :: "string \<Rightarrow> string \<Rightarrow> bool" where
  "equalsIgnoreCase a b \<longleftrightarrow> \<not> ci_less a b \<and> \<not> ci_less b a"

type_synonym attributes = "(string \<times> string list) list"

record ldap_entry =
  en_dn :: string
  en_attributes :: attributes

definition attr_find :: "attributes \<Rightarrow> string \<Rightarrow> string list option" where
  "attr_find as a = map_option snd (find (\<lambda>kv. equalsIgnoreCase (fst kv) a) as)"

text \<open>\<^verbatim>\<open>attributes[name]\<close> followed by adding the values: the first spelling of a name stays.\<close>

fun attr_add :: "string \<Rightarrow> string list \<Rightarrow> attributes \<Rightarrow> attributes" where
  "attr_add a vs [] = [(a, vs)]"
| "attr_add a vs ((k, ws) # as) = (if equalsIgnoreCase k a then (k, ws @ vs) # as else (k, ws) # attr_add a vs as)"

definition readEntry :: "raw_entry \<Rightarrow> ldap_entry" where
  "readEntry e =
     \<lparr>en_dn = (case re_dn e of None \<Rightarrow> [] | Some dn \<Rightarrow> dn),
      en_attributes = fold (\<lambda>(a, vs). attr_add a (case vs of None \<Rightarrow> [] | Some vs \<Rightarrow> vs)) (re_attributes e) []\<rparr>"

definition attr_first :: "attributes \<Rightarrow> string \<Rightarrow> string" where
  "attr_first as a = (case attr_find as a of Some (v # _) \<Rightarrow> v | _ \<Rightarrow> [])"

definition entry_first :: "ldap_entry \<Rightarrow> string \<Rightarrow> string" where
  "entry_first e a = attr_first (en_attributes e) a"

subsection \<open>Model: connections\<close>

record ldap_config =
  lcf_uri :: string
  lcf_start_tls :: bool
  lcf_tls_verify :: bool
  lcf_ca_file :: string
  lcf_timeout :: nat
  lcf_bind_dn :: string
  lcf_bind_password :: string
  lcf_user_base_dn :: string
  lcf_user_filter :: string
  lcf_username_attribute :: string
  lcf_display_name_attribute :: string
  lcf_mail_attribute :: string
  lcf_extra_attributes :: "string list"
  lcf_group_base_dn :: string
  lcf_group_filter :: string
  lcf_member_of_filter :: string
  lcf_group_name_attribute :: string
  lcf_member_attribute :: string

definition ldap_fail :: "'w ldap_lib \<Rightarrow> ldap_handle \<Rightarrow> int \<Rightarrow> string \<Rightarrow> 'w \<Rightarrow> 'a ldap_result" where
  "ldap_fail L h rc what w =
     Inl (LdapError (what @ '': '' @ ll_err2string L rc @
       (case ll_diagnostic L h w of
          None \<Rightarrow> []
        | Some diag \<Rightarrow> if diag = [] then [] else '' ('' @ diag @ '')'')) rc)"

definition ldap_connect :: "'w ldap_lib \<Rightarrow> ldap_config \<Rightarrow> 'w \<Rightarrow> ldap_handle ldap_result \<times> 'w" where
  "ldap_connect L c w =
     (let rc = ll_initialize L (lcf_uri c)
      in if rc \<noteq> 0
         then (Inl (LdapError (''ldap_initialize('' @ lcf_uri c @ ''): '' @ ll_err2string L rc) rc), w)
         else
           let h = \<lparr>lh_uri = lcf_uri c, lh_timeout = lcf_timeout c, lh_require_cert = lcf_tls_verify c,
                 lh_ca_file = lcf_ca_file c, lh_tls = False\<rparr>
           in if \<not> lcf_start_tls c then (Inr h, w)
              else case ll_start_tls L h w of
                  (rc, w) \<Rightarrow> if rc \<noteq> 0 then (ldap_fail L h rc ''StartTLS'' w, w) else (Inr (h\<lparr>lh_tls := True\<rparr>), w))"

definition ldap_bind_as :: "'w ldap_lib \<Rightarrow> ldap_handle \<Rightarrow> string \<Rightarrow> string \<Rightarrow> 'w \<Rightarrow> unit ldap_result \<times> 'w" where
  "ldap_bind_as L h dn password w =
     (if dn \<noteq> [] \<and> password = []
      then (Inl (LdapError (''bind('' @ dn @ ''): empty password not allowed'') kInvalidCredentials), w)
      else case ll_bind L h (if dn = [] then None else Some dn) password w of
          (rc, w) \<Rightarrow> if rc \<noteq> 0 then (ldap_fail L h rc (''bind('' @ dn @ '')'') w, w) else (Inr (), w))"

definition search_context :: "string \<Rightarrow> string \<Rightarrow> string" where
  "search_context base filt = ''search('' @ base @ '', '' @ filt @ '')''"

partial_function (option) search_loop ::
  "'w ldap_lib \<Rightarrow> ldap_handle \<Rightarrow> string \<Rightarrow> ldap_scope \<Rightarrow> string \<Rightarrow> string list \<Rightarrow> string \<Rightarrow> ldap_entry list \<Rightarrow> 'w \<Rightarrow>
   (ldap_entry list ldap_result \<times> 'w) option" where
  "search_loop L h base sc filt attrs cookie entries w =
     (let rc = ll_page_control L h kPageSize cookie
      in if rc \<noteq> 0 then Some (ldap_fail L h rc (search_context base filt) w, w)
         else case ll_search L h base sc filt (if attrs = [] then None else Some attrs) cookie w of
             (pg, w) \<Rightarrow>
               if pg_rc pg \<noteq> 0 then Some (ldap_fail L h (pg_rc pg) (search_context base filt) w, w)
               else
                 let entries = entries @ map readEntry (pg_entries pg)
                 in if pg_parse_rc pg \<noteq> 0 then Some (ldap_fail L h (pg_parse_rc pg) (search_context base filt) w, w)
                    else case pg_cookie pg of
                        None \<Rightarrow> Some (Inr entries, w)
                      | Some cookie \<Rightarrow>
                          if cookie = [] then Some (Inr entries, w)
                          else search_loop L h base sc filt attrs cookie entries w)"

declare search_loop.simps [code]

definition ldap_search ::
  "'w ldap_lib \<Rightarrow> ldap_handle \<Rightarrow> string \<Rightarrow> ldap_scope \<Rightarrow> string \<Rightarrow> string list \<Rightarrow> 'w \<Rightarrow>
   (ldap_entry list ldap_result \<times> 'w) option" where
  "ldap_search L h base sc filt attrs w = search_loop L h base sc filt attrs [] [] w"

definition filter_special :: "char \<Rightarrow> bool" where
  "filter_special c \<longleftrightarrow> c = CHR ''*'' \<or> c = CHR ''('' \<or> c = CHR '')'' \<or> ord c = 0x5c \<or> ord c = 0"

definition lower_hex :: "nat \<Rightarrow> char" where
  "lower_hex n = (if n < 10 then char_of (48 + n) else char_of (87 + n))"

definition escapeFilterValue :: "string \<Rightarrow> string" where
  "escapeFilterValue v =
     concat (map (\<lambda>c. if filter_special c
       then [CHR 0x5c, lower_hex (ord c div 16), lower_hex (ord c mod 16)] else [c]) v)"

definition normalizeDn :: "'w ldap_lib \<Rightarrow> string \<Rightarrow> string" where
  "normalizeDn L dn = (case ll_dn_normalize L dn of None \<Rightarrow> [] | Some s \<Rightarrow> s)"

definition sameDn :: "'w ldap_lib \<Rightarrow> string \<Rightarrow> string \<Rightarrow> bool" where
  "sameDn L a b =
     (let na = normalizeDn L a; nb = normalizeDn L b
      in if na = [] \<or> nb = [] then equalsIgnoreCase a b else equalsIgnoreCase na nb)"

subsection \<open>Model: users and groups\<close>

record ldap_user =
  lu_dn :: string
  lu_username :: string
  lu_display_name :: string
  lu_mail :: string
  lu_groups :: "string list"
  lu_group_dns :: "string list"
  lu_attributes :: attributes

record ldap_group =
  gr_dn :: string
  gr_name :: string
  gr_description :: string
  gr_members :: "string list"

datatype auth_status = Success | InvalidCredentials | UserNotFound | AmbiguousUser

record auth_result =
  ar_status :: auth_status
  ar_user :: "ldap_user option"
  ar_message :: string

fun auth_status_to_string :: "auth_status \<Rightarrow> string" where
  "auth_status_to_string Success = ''success''"
| "auth_status_to_string InvalidCredentials = ''invalid credentials''"
| "auth_status_to_string UserNotFound = ''user not found''"
| "auth_status_to_string AmbiguousUser = ''ambiguous user''"

text \<open>One pass over the template from left to right; inserted values are not scanned again.\<close>

definition ph_username :: string where "ph_username = ''{username}''"
definition ph_dn :: string where "ph_dn = ''{dn}''"

function expand :: "string \<Rightarrow> string \<Rightarrow> string \<Rightarrow> string" where
  "expand filt username dn =
     (case filt of
        [] \<Rightarrow> []
      | c # cs \<Rightarrow>
          if starts_with filt ph_username
          then escapeFilterValue username @ expand (drop (length ph_username) filt) username dn
          else if starts_with filt ph_dn
          then escapeFilterValue dn @ expand (drop (length ph_dn) filt) username dn
          else c # expand cs username dn)"
  by pat_completeness auto
termination
  by (relation "measure (\<lambda>(f, _, _). length f)") (auto simp: ph_username_def ph_dn_def)

declare expand.simps [simp del]

definition default_ldap_config :: ldap_config where
  "default_ldap_config = \<lparr>lcf_uri = [], lcf_start_tls = False, lcf_tls_verify = True, lcf_ca_file = [],
     lcf_timeout = 5, lcf_bind_dn = [], lcf_bind_password = [], lcf_user_base_dn = [],
     lcf_user_filter = ''(&(objectClass=inetOrgPerson)(uid={username}))'', lcf_username_attribute = ''uid'',
     lcf_display_name_attribute = ''cn'', lcf_mail_attribute = ''mail'', lcf_extra_attributes = [],
     lcf_group_base_dn = [], lcf_group_filter = ''(objectClass=groupOfNames)'',
     lcf_member_of_filter = ''(&(objectClass=groupOfNames)(member={dn}))'', lcf_group_name_attribute = ''cn'',
     lcf_member_attribute = ''member''\<rparr>"

definition activeDirectory :: ldap_config where
  "activeDirectory = default_ldap_config\<lparr>
     lcf_user_filter := ''(&(objectCategory=person)(objectClass=user)(sAMAccountName={username}))'',
     lcf_username_attribute := ''sAMAccountName'', lcf_display_name_attribute := ''displayName'',
     lcf_mail_attribute := ''mail'', lcf_group_filter := ''(objectClass=group)'',
     lcf_member_of_filter := ''(&(objectClass=group)(member:1.2.840.113556.1.4.1941:={dn}))'',
     lcf_group_name_attribute := ''sAMAccountName'', lcf_member_attribute := ''member''\<rparr>"

definition serviceConnection :: "'w ldap_lib \<Rightarrow> ldap_config \<Rightarrow> 'w \<Rightarrow> ldap_handle ldap_result \<times> 'w" where
  "serviceConnection L c w =
     ldap_try (ldap_connect L c w) (\<lambda>h w.
     ldap_try (ldap_bind_as L h (lcf_bind_dn c) (lcf_bind_password c) w) (\<lambda>_ w. (Inr h, w)))"

definition userAttributes :: "ldap_config \<Rightarrow> string list" where
  "userAttributes c =
     [lcf_username_attribute c, lcf_display_name_attribute c, lcf_mail_attribute c] @ lcf_extra_attributes c"

definition toUser :: "ldap_config \<Rightarrow> ldap_entry \<Rightarrow> string \<Rightarrow> ldap_user" where
  "toUser c e login =
     (let name = entry_first e (lcf_username_attribute c)
      in \<lparr>lu_dn = en_dn e, lu_username = (if name = [] then login else name),
          lu_display_name = entry_first e (lcf_display_name_attribute c),
          lu_mail = entry_first e (lcf_mail_attribute c), lu_groups = [], lu_group_dns = [],
          lu_attributes = en_attributes e\<rparr>)"

definition toGroup :: "ldap_config \<Rightarrow> ldap_entry \<Rightarrow> ldap_group" where
  "toGroup c e =
     \<lparr>gr_dn = en_dn e, gr_name = entry_first e (lcf_group_name_attribute c),
      gr_description = entry_first e ''description'',
      gr_members = (case attr_find (en_attributes e) (lcf_member_attribute c) of None \<Rightarrow> [] | Some ms \<Rightarrow> ms)\<rparr>"

definition searchGroups ::
  "'w ldap_lib \<Rightarrow> ldap_config \<Rightarrow> ldap_handle \<Rightarrow> string \<Rightarrow> bool \<Rightarrow> 'w \<Rightarrow> (ldap_group list ldap_result \<times> 'w) option" where
  "searchGroups L c h filt with_members w =
     ldap_then (ldap_search L h (lcf_group_base_dn c) SubtreeScope filt
       ([lcf_group_name_attribute c, ''description''] @ (if with_members then [lcf_member_attribute c] else [])) w)
       (\<lambda>es w. Some (Inr (map (toGroup c) es), w))"

definition groupsOfUser ::
  "'w ldap_lib \<Rightarrow> ldap_config \<Rightarrow> ldap_handle \<Rightarrow> ldap_user \<Rightarrow> 'w \<Rightarrow> (ldap_group list ldap_result \<times> 'w) option" where
  "groupsOfUser L c h u w =
     (if lcf_group_base_dn c = [] then Some (Inr [], w)
      else searchGroups L c h (expand (lcf_member_of_filter c) (lu_username u) (lu_dn u)) False w)"

definition fillGroups ::
  "'w ldap_lib \<Rightarrow> ldap_config \<Rightarrow> ldap_handle \<Rightarrow> ldap_user \<Rightarrow> 'w \<Rightarrow> (ldap_user ldap_result \<times> 'w) option" where
  "fillGroups L c h u w =
     ldap_then (groupsOfUser L c h u w) (\<lambda>gs w.
       Some (Inr (u\<lparr>lu_groups := lu_groups u @ map gr_name gs, lu_group_dns := lu_group_dns u @ map gr_dn gs\<rparr>), w))"

definition user_first :: "ldap_user \<Rightarrow> string \<Rightarrow> string" where
  "user_first u a = attr_first (lu_attributes u) a"

definition inGroup :: "ldap_user \<Rightarrow> string \<Rightarrow> bool" where
  "inGroup u name \<longleftrightarrow> list_ex (\<lambda>g. equalsIgnoreCase g name) (lu_groups u)"

definition inGroupDn :: "'w ldap_lib \<Rightarrow> ldap_user \<Rightarrow> string \<Rightarrow> bool" where
  "inGroupDn L u dn \<longleftrightarrow> list_ex (\<lambda>d. sameDn L d dn) (lu_group_dns u)"

definition auth_refused :: "auth_status \<Rightarrow> string \<Rightarrow> auth_result" where
  "auth_refused s m = \<lparr>ar_status = s, ar_user = None, ar_message = m\<rparr>"

definition bind_user ::
  "'w ldap_lib \<Rightarrow> ldap_config \<Rightarrow> string \<Rightarrow> string \<Rightarrow> 'w \<Rightarrow> unit ldap_result \<times> 'w" where
  "bind_user L c dn password w =
     ldap_try (ldap_connect L c w) (\<lambda>h w. ldap_bind_as L h dn password w)"

definition find_entries ::
  "'w ldap_lib \<Rightarrow> ldap_config \<Rightarrow> ldap_handle \<Rightarrow> string \<Rightarrow> 'w \<Rightarrow> (ldap_entry list ldap_result \<times> 'w) option" where
  "find_entries L c svc username w =
     ldap_search L svc (lcf_user_base_dn c) SubtreeScope (expand (lcf_user_filter c) username []) (userAttributes c) w"

definition ldap_authenticate ::
  "'w ldap_lib \<Rightarrow> ldap_config \<Rightarrow> string \<Rightarrow> string \<Rightarrow> 'w \<Rightarrow> (auth_result ldap_result \<times> 'w) option" where
  "ldap_authenticate L c username password w =
     (if username = [] then Some (Inr (auth_refused UserNotFound ''empty username''), w)
      else if password = [] then Some (Inr (auth_refused InvalidCredentials ''empty password''), w)
      else
        ldap_then (Some (serviceConnection L c w)) (\<lambda>svc w.
        ldap_then (find_entries L c svc username w) (\<lambda>entries w.
          if length entries \<noteq> 1
          then Some (Inr (auth_refused (if entries = [] then UserNotFound else AmbiguousUser)
                 (dec (length entries) @ '' entries match user '' @ quoted username)), w)
          else case bind_user L c (en_dn (hd entries)) password w of
              (Inl e, w) \<Rightarrow>
                if le_code e \<noteq> kInvalidCredentials then Some (Inl e, w)
                else Some (Inr (auth_refused InvalidCredentials (le_what e)), w)
            | (Inr _, w) \<Rightarrow>
                ldap_then (fillGroups L c svc (toUser c (hd entries) username) w) (\<lambda>user w.
                  Some (Inr \<lparr>ar_status = Success, ar_user = Some user, ar_message = []\<rparr>, w)))))"

definition ldap_findUser ::
  "'w ldap_lib \<Rightarrow> ldap_config \<Rightarrow> string \<Rightarrow> 'w \<Rightarrow> (ldap_user option ldap_result \<times> 'w) option" where
  "ldap_findUser L c username w =
     (if username = [] then Some (Inr None, w)
      else
        ldap_then (Some (serviceConnection L c w)) (\<lambda>svc w.
        ldap_then (find_entries L c svc username w) (\<lambda>entries w.
          if length entries \<noteq> 1 then Some (Inr None, w)
          else ldap_then (fillGroups L c svc (toUser c (hd entries) username) w) (\<lambda>user w. Some (Inr (Some user), w)))))"

definition ldap_groupsOf ::
  "'w ldap_lib \<Rightarrow> ldap_config \<Rightarrow> ldap_user \<Rightarrow> 'w \<Rightarrow> (ldap_group list ldap_result \<times> 'w) option" where
  "ldap_groupsOf L c u w =
     ldap_then (Some (serviceConnection L c w)) (\<lambda>svc w. groupsOfUser L c svc u w)"

definition ldap_listGroups :: "'w ldap_lib \<Rightarrow> ldap_config \<Rightarrow> 'w \<Rightarrow> (ldap_group list ldap_result \<times> 'w) option" where
  "ldap_listGroups L c w =
     (if lcf_group_base_dn c = [] then Some (Inr [], w)
      else ldap_then (Some (serviceConnection L c w)) (\<lambda>svc w. searchGroups L c svc (lcf_group_filter c) False w))"

definition ldap_findGroup ::
  "'w ldap_lib \<Rightarrow> ldap_config \<Rightarrow> string \<Rightarrow> 'w \<Rightarrow> (ldap_group option ldap_result \<times> 'w) option" where
  "ldap_findGroup L c name w =
     (if lcf_group_base_dn c = [] \<or> name = [] then Some (Inr None, w)
      else
        ldap_then (Some (serviceConnection L c w)) (\<lambda>svc w.
          let filt = ''(&'' @ lcf_group_filter c @ ''('' @ lcf_group_name_attribute c @ ''='' @ escapeFilterValue name @ ''))''
          in ldap_then (searchGroups L c svc filt True w) (\<lambda>groups w.
               if groups = [] then Some (Inr None, w)
               else if 1 < length groups
               then Some (Inl (LdapError (''findGroup('' @ name @ ''): '' @ dec (length groups) @ '' groups match:'' @
                      concat (map (\<lambda>g. '' ['' @ gr_dn g @ '']'') groups)) kOther), w)
               else Some (Inr (Some (hd groups)), w))))"

subsection \<open>Searches return what the server has, page by page\<close>

text \<open>
  What a server hands out: the entries of the page after \<open>cookie\<close> and of all further pages, up to a page
  without a cookie.
\<close>

inductive paged ::
  "'w ldap_lib \<Rightarrow> ldap_handle \<Rightarrow> string \<Rightarrow> ldap_scope \<Rightarrow> string \<Rightarrow> string list \<Rightarrow> string \<Rightarrow> 'w \<Rightarrow> ldap_entry list \<Rightarrow> 'w \<Rightarrow> bool"
  for L h base sc filt attrs
where
  last_page: "ll_page_control L h kPageSize cookie = 0 \<Longrightarrow>
    ll_search L h base sc filt (if attrs = [] then None else Some attrs) cookie w = (pg, w') \<Longrightarrow>
    pg_rc pg = 0 \<Longrightarrow> pg_parse_rc pg = 0 \<Longrightarrow> pg_cookie pg = None \<or> pg_cookie pg = Some [] \<Longrightarrow>
    paged L h base sc filt attrs cookie w (map readEntry (pg_entries pg)) w'"
| more_pages: "ll_page_control L h kPageSize cookie = 0 \<Longrightarrow>
    ll_search L h base sc filt (if attrs = [] then None else Some attrs) cookie w = (pg, w') \<Longrightarrow>
    pg_rc pg = 0 \<Longrightarrow> pg_parse_rc pg = 0 \<Longrightarrow> pg_cookie pg = Some next_cookie \<Longrightarrow> next_cookie \<noteq> [] \<Longrightarrow>
    paged L h base sc filt attrs next_cookie w' es w'' \<Longrightarrow>
    paged L h base sc filt attrs cookie w (map readEntry (pg_entries pg) @ es) w''"

lemma paged_search_loop:
  "paged L h base sc filt attrs cookie w es w' \<Longrightarrow>
     search_loop L h base sc filt attrs cookie acc w = Some (Inr (acc @ es), w')"
proof (induction arbitrary: acc rule: paged.induct)
  case (last_page cookie w pg w')
  then show ?case by (subst search_loop.simps) auto
next
  case (more_pages cookie w pg w' next_cookie es w'')
  then show ?case by (subst search_loop.simps) simp
qed

lemma search_loop_paged:
  assumes "search_loop L h base sc filt attrs cookie acc w = Some r"
  shows "\<forall>xs w'. r = (Inr xs, w') \<longrightarrow> (\<exists>es. xs = acc @ es \<and> paged L h base sc filt attrs cookie w es w')"
proof (rule search_loop.raw_induct [OF _ assms, where P = "\<lambda>L h base sc filt attrs cookie acc w r.
    \<forall>xs w'. r = (Inr xs, w') \<longrightarrow> (\<exists>es. xs = acc @ es \<and> paged L h base sc filt attrs cookie w es w')"], goal_cases)
  case (1 f L h base sc filt attrs cookie acc w r)
  show ?case
  proof (intro allI impI)
    fix xs w'
    assume r: "r = (Inr xs, w')"
    obtain pg w1 where s: "ll_search L h base sc filt (if attrs = [] then None else Some attrs) cookie w = (pg, w1)" by fastforce
    have c: "ll_page_control L h kPageSize cookie = 0" "pg_rc pg = 0" "pg_parse_rc pg = 0"
      using 1(2) r s by (auto simp: Let_def ldap_fail_def split: if_splits)
    show "\<exists>es. xs = acc @ es \<and> paged L h base sc filt attrs cookie w es w'"
    proof (cases "pg_cookie pg = None \<or> pg_cookie pg = Some []")
      case True
      then have "xs = acc @ map readEntry (pg_entries pg)" "w' = w1" using 1(2) r s c by (auto simp: Let_def)
      then show ?thesis using last_page [OF c(1) s c(2,3) True] by blast
    next
      case False
      then obtain next_cookie where n: "pg_cookie pg = Some next_cookie" "next_cookie \<noteq> []" by auto
      then have "f L h base sc filt attrs next_cookie (acc @ map readEntry (pg_entries pg)) w1 = Some r"
        using 1(2) s c by (simp add: Let_def)
      from 1(1) [OF this] r obtain es where "xs = (acc @ map readEntry (pg_entries pg)) @ es"
        "paged L h base sc filt attrs next_cookie w1 es w'" by blast
      then show ?thesis using more_pages [OF c(1) s c(2,3) n] by auto
    qed
  qed
qed

text \<open>
  C31. A search ends exactly when the server's paging does, and is complete. The loop over the pages
  returns the list \<open>es\<close> exactly when the server hands out finitely many pages, each without an error,
  the last one without a cookie, and \<open>es\<close> is the concatenation of their entries in order. In particular
  it returns on every such server, however many pages there are.
\<close>

theorem search_returns_all_pages:
  "ldap_search L h base sc filt attrs w = Some (Inr es, w') \<longleftrightarrow> paged L h base sc filt attrs [] w es w'"
  using paged_search_loop [of L h base sc filt attrs "[]" w es w' "[]"]
    search_loop_paged [of L h base sc filt attrs "[]" "[]" w "(Inr es, w')"]
  by (auto simp: ldap_search_def)

subsection \<open>Values in filters\<close>

definition filter_meta :: "char \<Rightarrow> bool" where
  "filter_meta c \<longleftrightarrow> c = CHR ''('' \<or> c = CHR '')'' \<or> c = CHR ''*'' \<or> ord c = 0"

definition hex_value :: "char \<Rightarrow> nat" where
  "hex_value c = (if is_digit c then ord c - 48 else ord c - 87)"

text \<open>How a server reads a value of a filter: a backslash and two hexadecimal digits are one byte.\<close>

fun unescape :: "string \<Rightarrow> string" where
  "unescape (b # x # y # cs) =
     (if ord b = 0x5c then char_of (16 * hex_value x + hex_value y) # unescape cs else b # unescape (x # y # cs))"
| "unescape cs = cs"

lemma lower_hex_ord: "n < 16 \<Longrightarrow> ord (lower_hex n) = (if n < 10 then 48 + n else 87 + n)"
  by (simp add: lower_hex_def)

lemma lower_hex_plain: "n < 16 \<Longrightarrow> \<not> filter_special (lower_hex n)"
proof
  assume n: "n < 16" and s: "filter_special (lower_hex n)"
  have "ord CHR ''*'' = 42" "ord CHR ''('' = 40" "ord CHR '')'' = 41" by (simp_all add: ord_def)
  with s have "ord (lower_hex n) \<in> {42, 40, 41, 0x5c, 0}" unfolding filter_special_def by auto
  with n show False by (auto simp: lower_hex_ord split: if_splits)
qed

lemma hex_value_lower [simp]: "n < 16 \<Longrightarrow> hex_value (lower_hex n) = n"
  by (simp add: hex_value_def char_in_def lower_hex_ord)

lemma meta_special: "filter_meta c \<Longrightarrow> filter_special c"
  by (auto simp: filter_meta_def filter_special_def)

lemma special_cases: "filter_special c \<Longrightarrow> filter_meta c \<or> ord c = 0x5c"
  by (auto simp: filter_meta_def filter_special_def)

lemma escape_no_meta: "filter filter_meta (escapeFilterValue v) = []"
proof (induction v)
  case (Cons c v)
  have "ord c div 16 < 16" "ord c mod 16 < 16" using ord_less [of c] by (simp_all add: less_mult_imp_div_less)
  with lower_hex_plain meta_special have "\<not> filter_meta (lower_hex (ord c div 16))" "\<not> filter_meta (lower_hex (ord c mod 16))"
    by blast+
  moreover have "\<not> filter_meta (CHR 0x5c)" by (simp add: filter_meta_def ord_def)
  moreover have "\<not> filter_special c \<Longrightarrow> \<not> filter_meta c" using meta_special by blast
  ultimately show ?case using Cons by (simp add: escapeFilterValue_def)
qed (simp add: escapeFilterValue_def)

lemma unescape_plain: "ord c \<noteq> 0x5c \<Longrightarrow> unescape (c # cs) = c # unescape cs"
  by (cases cs rule: unescape.cases) simp_all

lemma unescape_escape: "unescape (escapeFilterValue v) = v"
proof (induction v)
  case (Cons c v)
  have d: "ord c div 16 < 16" "ord c mod 16 < 16" using ord_less [of c] by (simp_all add: less_mult_imp_div_less)
  have b: "ord (CHR 0x5c) = 0x5c" by (simp add: ord_def)
  show ?case
  proof (cases "filter_special c")
    case True
    then have "escapeFilterValue (c # v) = CHR 0x5c # lower_hex (ord c div 16) # lower_hex (ord c mod 16) # escapeFilterValue v"
      by (simp add: escapeFilterValue_def)
    moreover have "char_of (16 * (ord c div 16) + ord c mod 16) = c" using char_of_ord [of c] by simp
    ultimately show ?thesis using Cons d b by simp
  next
    case False
    then have "escapeFilterValue (c # v) = c # escapeFilterValue v" "ord c \<noteq> 0x5c"
      by (simp_all add: escapeFilterValue_def filter_special_def)
    then show ?thesis using Cons by (simp add: unescape_plain)
  qed
qed (simp add: escapeFilterValue_def)

text \<open>
  C16. A name cannot change the meaning of a search filter. Whatever the user name and the DN are,
  the parentheses, asterisks and zero bytes of the expanded filter are those of its template, in the same
  order; and a server that reads the inserted text gets back exactly the name that was typed.
\<close>

theorem filter_injection_free:
  "filter filter_meta (expand template username dn) = filter filter_meta (expand template [] []) \<and>
   unescape (escapeFilterValue username) = username"
proof -
  have "filter filter_meta (expand template username dn) = filter filter_meta (expand template [] [])"
  proof (induction template username dn rule: expand.induct)
    case (1 filt username dn)
    show ?case
    proof (cases filt)
      case Nil
      then show ?thesis by (simp add: expand.simps)
    next
      case (Cons c cs)
      then show ?thesis
        using 1 [OF Cons] escape_no_meta by (subst (1 2) expand.simps) (simp add: escapeFilterValue_def)
    qed
  qed
  then show ?thesis by (simp add: unescape_escape)
qed

end
