(* ===== verification/Auth_Ldap.thy ===== *)
theory Auth_Ldap
  imports Ldap_Client Auth_Authenticator
begin

section \<open>Users and groups from an LDAP directory\<close>

text \<open>
  \<^verbatim>\<open>src/src/lib/auth/ldap_directory.cpp\<close>: the directory over the LDAP client with its caches. The
  steady clock is the parameter \<open>C\<close>, a function of the world the client's calls change, in
  nanoseconds; log lines are left out. A call returns \<open>None\<close> when a search of the client does not
  return.
\<close>

subsection \<open>Model\<close>

record bind_entry =
  be_print :: sha256_digest
  be_name :: string
  be_at :: int

record user_entry =
  ue_groups :: "string list option"
  ue_at :: int

record group_entry =
  ge_exists :: bool
  ge_at :: int

record 'w ldap_directory =
  dl_config :: ldap_config
  dl_ttl :: int
  dl_salt :: "byte list"
  dl_binds :: "(string \<times> bind_entry) list"
  dl_users :: "(string \<times> user_entry) list"
  dl_groups :: "(string \<times> group_entry) list"
  dl_world :: 'w

definition kUnavailable :: string where "kUnavailable = ''user directory unavailable''"
definition kPruneAbove :: nat where "kPruneAbove = 1024"

definition dl_denied :: "'a result" where "dl_denied = fail Auth kDenied"
definition dl_unavailable :: "'a result" where "dl_unavailable = fail Unavailable kUnavailable"

definition dl_iequals :: "string \<Rightarrow> string \<Rightarrow> bool" where
  "dl_iequals a b \<longleftrightarrow> map to_lower a = map to_lower b"

definition set_nonempty :: "string \<Rightarrow> string \<Rightarrow> string" where
  "set_nonempty field v = (if v = [] then field else v)"

definition to_ldapauth :: "ldap_cfg \<Rightarrow> ldap_config" where
  "to_ldapauth c =
     (let out = (if lc_preset c = ''active_directory'' then activeDirectory else default_ldap_config)
      in out\<lparr>lcf_uri := lc_uri c, lcf_start_tls := lc_start_tls c, lcf_tls_verify := lc_tls_verify c,
          lcf_ca_file := lc_ca_file c, lcf_timeout := lc_timeout_s c, lcf_bind_dn := lc_bind_dn c,
          lcf_bind_password := lc_bind_password c, lcf_user_base_dn := lc_user_base_dn c,
          lcf_group_base_dn := lc_group_base_dn c,
          lcf_user_filter := set_nonempty (lcf_user_filter out) (lc_user_filter c),
          lcf_username_attribute := set_nonempty (lcf_username_attribute out) (lc_username_attribute c),
          lcf_group_filter := set_nonempty (lcf_group_filter out) (lc_group_filter c),
          lcf_member_of_filter := set_nonempty (lcf_member_of_filter out) (lc_member_of_filter c),
          lcf_group_name_attribute := set_nonempty (lcf_group_name_attribute out) (lc_group_name_attribute c)\<rparr>)"

definition dl_fresh :: "('w \<Rightarrow> int) \<Rightarrow> 'w ldap_directory \<Rightarrow> int \<Rightarrow> bool" where
  "dl_fresh C d at \<longleftrightarrow> C (dl_world d) - at < dl_ttl d"

definition dl_prune :: "int \<Rightarrow> int \<Rightarrow> ('v \<Rightarrow> int) \<Rightarrow> (string \<times> 'v) list \<Rightarrow> (string \<times> 'v) list" where
  "dl_prune life now at m = (if kPruneAbove < length m then filter (\<lambda>kv. now - at (snd kv) < life) m else m)"

definition dl_fingerprint :: "evp \<Rightarrow> byte list \<Rightarrow> string \<Rightarrow> string \<Rightarrow> sha256_digest result" where
  "dl_fingerprint E slt user password =
     cfd_try (sha_create E) (\<lambda>sha.
       fst (cfd_tryS (sha_update E sha slt) (\<lambda>_ sha.
            cfd_tryS (sha_update E sha (as_bytes user)) (\<lambda>_ sha.
            cfd_tryS (sha_update E sha [0]) (\<lambda>_ sha.
            cfd_tryS (sha_update E sha (as_bytes password)) (\<lambda>_ sha.
            sha_finish E sha))))))"

text \<open>A login the server accepted is remembered with the user's groups.\<close>

definition dl_accept :: "('w \<Rightarrow> int) \<Rightarrow> string \<Rightarrow> sha256_digest \<Rightarrow> ldap_user \<Rightarrow> 'w \<Rightarrow> 'w ldap_directory \<Rightarrow> 'w ldap_directory" where
  "dl_accept C user print u w d =
     (let now = C w
      in d\<lparr>dl_world := w,
           dl_binds := AList.update user \<lparr>be_print = print, be_name = lu_username u, be_at = now\<rparr>
             (dl_prune (dl_ttl d) now be_at (dl_binds d)),
           dl_users := AList.update user \<lparr>ue_groups = Some (lu_groups u), ue_at = now\<rparr>
             (dl_prune (dl_ttl d) now ue_at (dl_users d))\<rparr>)"

definition dl_ask ::
  "'w ldap_lib \<Rightarrow> ('w \<Rightarrow> int) \<Rightarrow> string \<Rightarrow> string \<Rightarrow> sha256_digest \<Rightarrow> 'w ldap_directory \<Rightarrow>
   (string result \<times> 'w ldap_directory) option" where
  "dl_ask L C user password print d =
     (case ldap_authenticate L (dl_config d) user password (dl_world d) of
        None \<Rightarrow> None
      | Some (Inl e, w) \<Rightarrow> Some (dl_unavailable, d\<lparr>dl_world := w\<rparr>)
      | Some (Inr r, w) \<Rightarrow>
          (case ar_user r of
             Some u \<Rightarrow>
               if ar_status r = Success then Some (Inr (lu_username u), dl_accept C user print u w d)
               else Some (dl_denied, d\<lparr>dl_world := w\<rparr>)
           | None \<Rightarrow> Some (dl_denied, d\<lparr>dl_world := w\<rparr>)))"

definition dl_verify ::
  "evp \<Rightarrow> 'w ldap_lib \<Rightarrow> ('w \<Rightarrow> int) \<Rightarrow> string \<Rightarrow> string \<Rightarrow> 'w ldap_directory \<Rightarrow>
   (string result \<times> 'w ldap_directory) option" where
  "dl_verify E L C user password d =
     (if \<not> is_valid_name user then Some (dl_denied, d)
      else case dl_fingerprint E (dl_salt d) user password of
          Inl e \<Rightarrow> Some (Inl e, d)
        | Inr print \<Rightarrow>
            (case map_of (dl_binds d) user of
               None \<Rightarrow> dl_ask L C user password print d
             | Some b \<Rightarrow>
                 if dl_fresh C d (be_at b) \<and> be_print b = print then Some (Inr (be_name b), d)
                 else dl_ask L C user password print d))"

definition dl_groups_of ::
  "'w ldap_lib \<Rightarrow> ('w \<Rightarrow> int) \<Rightarrow> string \<Rightarrow> 'w ldap_directory \<Rightarrow> (string list option result \<times> 'w ldap_directory) option" where
  "dl_groups_of L C user d =
     (if \<not> is_valid_name user then Some (Inr None, d)
      else
        let ask = (case ldap_findUser L (dl_config d) user (dl_world d) of
              None \<Rightarrow> None
            | Some (Inl e, w) \<Rightarrow> Some (dl_unavailable, d\<lparr>dl_world := w\<rparr>)
            | Some (Inr u, w) \<Rightarrow>
                let groups = map_option lu_groups u; now = C w
                in Some (Inr groups,
                     d\<lparr>dl_world := w, dl_users := AList.update user \<lparr>ue_groups = groups, ue_at = now\<rparr>
                       (dl_prune (dl_ttl d) now ue_at (dl_users d))\<rparr>))
        in case map_of (dl_users d) user of
             None \<Rightarrow> ask
           | Some e \<Rightarrow> if dl_fresh C d (ue_at e) then Some (Inr (ue_groups e), d) else ask)"

definition dl_has_user ::
  "'w ldap_lib \<Rightarrow> ('w \<Rightarrow> int) \<Rightarrow> string \<Rightarrow> 'w ldap_directory \<Rightarrow> (bool result \<times> 'w ldap_directory) option" where
  "dl_has_user L C name d =
     (case dl_groups_of L C name d of
        None \<Rightarrow> None
      | Some (r, d) \<Rightarrow> Some (cfd_try r (\<lambda>groups. Inr (groups \<noteq> None)), d))"

definition dl_has_group ::
  "'w ldap_lib \<Rightarrow> ('w \<Rightarrow> int) \<Rightarrow> string \<Rightarrow> 'w ldap_directory \<Rightarrow> (bool result \<times> 'w ldap_directory) option" where
  "dl_has_group L C name d =
     (if \<not> is_valid_name name then Some (Inr False, d)
      else
        let ask = (case ldap_findGroup L (dl_config d) name (dl_world d) of
              None \<Rightarrow> None
            | Some (Inl e, w) \<Rightarrow> Some (dl_unavailable, d\<lparr>dl_world := w\<rparr>)
            | Some (Inr g, w) \<Rightarrow>
                let now = C w
                in Some (Inr (g \<noteq> None),
                     d\<lparr>dl_world := w, dl_groups := AList.update name \<lparr>ge_exists = (g \<noteq> None), ge_at = now\<rparr>
                       (dl_prune (dl_ttl d) now ge_at (dl_groups d))\<rparr>))
        in case map_of (dl_groups d) name of
             None \<Rightarrow> ask
           | Some e \<Rightarrow> if dl_fresh C d (ge_at e) then Some (Inr (ge_exists e), d) else ask)"

definition dl_is_member ::
  "'w ldap_lib \<Rightarrow> ('w \<Rightarrow> int) \<Rightarrow> string \<Rightarrow> string \<Rightarrow> 'w ldap_directory \<Rightarrow> (bool \<times> 'w ldap_directory) option" where
  "dl_is_member L C user grp d =
     (case dl_groups_of L C user d of
        None \<Rightarrow> None
      | Some (r, d) \<Rightarrow>
          Some (case r of Inr (Some groups) \<Rightarrow> list_ex (\<lambda>g. dl_iequals g grp) groups | _ \<Rightarrow> False, d))"

definition make_ldap_directory :: "ldap_cfg \<Rightarrow> byte list option \<Rightarrow> 'w \<Rightarrow> 'w ldap_directory result" where
  "make_ldap_directory cfg random w =
     (case random of
        None \<Rightarrow> fail Internal ''RAND_bytes failed''
      | Some slt \<Rightarrow>
          Inr \<lparr>dl_config = to_ldapauth cfg, dl_ttl = int (lc_cache_ttl_s cfg) * 1000000000, dl_salt = slt,
            dl_binds = [], dl_users = [], dl_groups = [], dl_world = w\<rparr>)"

text \<open>The build without LDAP support.\<close>

definition make_ldap_directory_disabled :: "ldap_cfg \<Rightarrow> 'w ldap_directory result" where
  "make_ldap_directory_disabled cfg =
     fail Validation (''auth.provider = '' @ [CHR 0x22] @ ''ldap'' @ [CHR 0x22] @
       '' but this build has no LDAP support (rebuild with -DWITH_LDAP=ON)'')"

text \<open>\<^verbatim>\<open>make_directory\<close>: the directory the configuration asks for.\<close>

definition make_directory ::
  "config \<Rightarrow> byte list option \<Rightarrow> 'w \<Rightarrow> (local_directory + 'w ldap_directory) result" where
  "make_directory cfg random w =
     (case ac_provider (cf_auth cfg) of
        LocalProvider \<Rightarrow> cfd_try (ld_create cfg) (\<lambda>d. Inr (Inl d))
      | LdapProvider \<Rightarrow> cfd_try (make_ldap_directory (ac_ldap (cf_auth cfg)) random w) (\<lambda>d. Inr (Inr d)))"

subsection \<open>The directory interface\<close>

text \<open>For servers on which every search returns, the calls are those of the interface.\<close>

definition ldap_dir :: "evp \<Rightarrow> 'w ldap_lib \<Rightarrow> ('w \<Rightarrow> int) \<Rightarrow> 'w ldap_directory directory" where
  "ldap_dir E L C = \<lparr>dir_verify = (\<lambda>_ user password d. the (dl_verify E L C user password d)),
     dir_has_user = (\<lambda>_ name d. the (dl_has_user L C name d)),
     dir_has_group = (\<lambda>_ name d. the (dl_has_group L C name d)),
     dir_is_member = (\<lambda>_ user grp d. the (dl_is_member L C user grp d))\<rparr>"

definition searches_return :: "'w ldap_lib \<Rightarrow> bool" where
  "searches_return L \<longleftrightarrow> (\<forall>h base sc filt attrs w. ldap_search L h base sc filt attrs w \<noteq> None)"

lemma ldap_then_Some: "ldap_then m k = Some (Inr y, w') \<longleftrightarrow> (\<exists>x w. m = Some (Inr x, w) \<and> k x w = Some (Inr y, w'))"
  by (auto simp: ldap_then_def split: option.splits sum.splits)

definition returns :: "'a option \<Rightarrow> bool" where
  "returns m \<longleftrightarrow> m \<noteq> None"

lemma returns_Some [intro!]: "returns (Some x)"
  by (simp add: returns_def)

lemma returns_then [intro!]: "returns m \<Longrightarrow> (\<And>x w. returns (k x w)) \<Longrightarrow> returns (ldap_then m k)"
  by (auto simp: returns_def ldap_then_def split: option.splits sum.splits)

lemma returns_if [intro!]: "(P \<Longrightarrow> returns a) \<Longrightarrow> (\<not> P \<Longrightarrow> returns b) \<Longrightarrow> returns (if P then a else b)"
  by simp

lemma returns_case [intro!]:
  "(\<And>e w. returns (f e w)) \<Longrightarrow> (\<And>x w. returns (g x w)) \<Longrightarrow> returns (case q of (Inl e, w) \<Rightarrow> f e w | (Inr x, w) \<Rightarrow> g x w)"
  by (simp split: prod.split sum.split)

lemma ldap_calls_return:
  assumes "searches_return L"
  shows "returns (ldap_authenticate L c user password w)" "returns (ldap_findUser L c user w)" "returns (ldap_findGroup L c name w)"
proof -
  have s: "returns (ldap_search L h base sc filt attrs w)" for h base sc filt attrs w
    using assms by (simp add: searches_return_def returns_def)
  show "returns (ldap_authenticate L c user password w)"
    unfolding ldap_authenticate_def find_entries_def fillGroups_def groupsOfUser_def searchGroups_def by (intro s returns_Some
        returns_then returns_if returns_case)
  show "returns (ldap_findUser L c user w)"
    unfolding ldap_findUser_def find_entries_def fillGroups_def groupsOfUser_def searchGroups_def
    by (intro s returns_Some returns_then returns_if)
  show "returns (ldap_findGroup L c name w)"
    unfolding ldap_findGroup_def searchGroups_def Let_def by (intro s returns_Some returns_then returns_if)
qed

lemma sha_error_internal:
  "sha_create E = Inl e \<Longrightarrow> code e = Internal" "sha_update E ctx d = (Inl e, ctx') \<Longrightarrow> code e = Internal"
  "sha_finish E ctx = (Inl e, ctx') \<Longrightarrow> code e = Internal"
  by (auto simp: sha_create_def sha_update_def sha_finish_def openssl_failed_def split: option.splits if_splits)

lemma dl_fingerprint_error: "dl_fingerprint E slt u p = Inl e \<Longrightarrow> code e = Internal"
proof -
  have f: "fst q = Inl e \<longleftrightarrow> (\<exists>s. q = (Inl e, s))" for q :: "sha256_digest result \<times> sha256" by (cases q) auto
  show "dl_fingerprint E slt u p = Inl e \<Longrightarrow> code e = Internal"
    using sha_error_internal unfolding dl_fingerprint_def cfd_try_Inl f cfd_tryS_Inl by metis
qed

lemma dl_verify_returns: "searches_return L \<Longrightarrow> dl_verify E L C user password d \<noteq> None"
  using ldap_calls_return(1) [of L "dl_config d" user password "dl_world d"]
  by (auto simp: dl_verify_def dl_ask_def returns_def split: sum.splits option.splits)

lemma dl_verify_error:
  assumes "dl_verify E L C user password d = Some (Inl e, d')"
  shows "e = Error Auth kDenied \<or> code e \<in> {Unavailable, Internal}"
proof -
  have "e = Error Auth kDenied \<or> code e = Unavailable" if "dl_ask L C user password print d = Some (Inl e, d')" for print
    using that by (auto simp: dl_ask_def dl_denied_def dl_unavailable_def split: option.splits sum.splits if_splits)
  then show ?thesis
    using assms dl_fingerprint_error
    by (auto simp: dl_verify_def dl_denied_def split: if_splits sum.splits option.splits)
qed

text \<open>The contract of a directory, for servers on which every search returns.\<close>

lemma ldap_directory_contract:
  assumes "searches_return L"
  shows "directory_contract (ldap_dir E L C) (\<lambda>_. True)"
proof
  fix d now user password e
  assume "fst (dir_verify (ldap_dir E L C) now user password d) = Inl e"
  moreover obtain r d' where "dl_verify E L C user password d = Some (r, d')"
    using dl_verify_returns [OF assms] by fastforce
  ultimately show "e = Error Auth kDenied \<or> code e \<in> {Unavailable, Internal}"
    using dl_verify_error by (fastforce simp: ldap_dir_def)
qed simp_all

subsection \<open>Every accepted password was accepted by the server\<close>

datatype 'w dl_op =
    DVerify string string
  | DHasUser string
  | DHasGroup string
  | DMember string string
  | DWorld 'w

text \<open>The calls of a directory, and \<open>DWorld\<close> for what happens between them: time passes, the server changes.\<close>

fun dl_do :: "evp \<Rightarrow> 'w ldap_lib \<Rightarrow> ('w \<Rightarrow> int) \<Rightarrow> 'w dl_op \<Rightarrow> 'w ldap_directory \<Rightarrow> 'w ldap_directory option" where
  "dl_do E L C (DVerify user password) d = map_option snd (dl_verify E L C user password d)"
| "dl_do E L C (DHasUser name) d = map_option snd (dl_has_user L C name d)"
| "dl_do E L C (DHasGroup name) d = map_option snd (dl_has_group L C name d)"
| "dl_do E L C (DMember user grp) d = map_option snd (dl_is_member L C user grp d)"
| "dl_do E L C (DWorld w) d = Some (d\<lparr>dl_world := w\<rparr>)"

fun dl_run :: "evp \<Rightarrow> 'w ldap_lib \<Rightarrow> ('w \<Rightarrow> int) \<Rightarrow> 'w dl_op list \<Rightarrow> 'w ldap_directory \<Rightarrow> 'w ldap_directory option" where
  "dl_run E L C [] d = Some d"
| "dl_run E L C (op # ops) d = Option.bind (dl_do E L C op d) (dl_run E L C ops)"

text \<open>The server took the password of a user found by name: the one entry's DN was bound with it.\<close>

definition server_accepts :: "'w ldap_lib \<Rightarrow> ldap_config \<Rightarrow> string \<Rightarrow> string \<Rightarrow> 'w \<Rightarrow> string \<Rightarrow> 'w \<Rightarrow> bool" where
  "server_accepts L c user password w name w' \<longleftrightarrow> user \<noteq> [] \<and> password \<noteq> [] \<and>
     (\<exists>svc entry w1 w2 h w3 w4. find_entries L c svc user w1 = Some (Inr [entry], w2) \<and>
        ll_bind L h (if en_dn entry = [] then None else Some (en_dn entry)) password w3 = (0, w4) \<and>
        (\<exists>r u. ldap_authenticate L c user password w = Some (Inr r, w') \<and> ar_status r = Success \<and> ar_user r = Some u \<and>
          lu_username u = name) \<and>
        name = (let n = entry_first entry (lcf_username_attribute c) in if n = [] then user else n))"

lemma bind_user_ok: "bind_user L c dn password w = (Inr u, w') \<Longrightarrow>
    \<exists>h w1. ll_bind L h (if dn = [] then None else Some dn) password w1 = (0, w')"
proof -
  assume b: "bind_user L c dn password w = (Inr u, w')"
  obtain r w1 where "ldap_connect L c w = (r, w1)" by fastforce
  with b obtain h where "ldap_bind_as L h dn password w1 = (Inr u, w')" by (cases r) (auto simp: bind_user_def)
  then show ?thesis by (auto simp: ldap_bind_as_def ldap_fail_def split: if_splits prod.splits)
qed

lemma fillGroups_name: "fillGroups L c h u w = Some (Inr v, w') \<Longrightarrow> lu_username v = lu_username u"
  by (auto simp: fillGroups_def ldap_then_Some)

lemma authenticate_accepts:
  assumes "ldap_authenticate L c user password w = Some (Inr r, w')" "ar_status r = Success" "ar_user r = Some u"
  shows "server_accepts L c user password w (lu_username u) w'"
proof -
  have ne: "user \<noteq> []" "password \<noteq> []" using assms(1,2) by (auto simp: ldap_authenticate_def auth_refused_def split: if_splits)
  from assms(1) ne obtain svc w1 entries w2 where e: "find_entries L c svc user w1 = Some (Inr entries, w2)"
    and k: "(if length entries \<noteq> 1
          then Some (Inr (auth_refused (if entries = [] then UserNotFound else AmbiguousUser)
                 (dec (length entries) @ '' entries match user '' @ quoted user)), w2)
          else case bind_user L c (en_dn (hd entries)) password w2 of
              (Inl e, w) \<Rightarrow>
                if le_code e \<noteq> kInvalidCredentials then Some (Inl e, w)
                else Some (Inr (auth_refused InvalidCredentials (le_what e)), w)
            | (Inr _, w) \<Rightarrow>
                ldap_then (fillGroups L c svc (toUser c (hd entries) user) w) (\<lambda>user w.
                  Some (Inr \<lparr>ar_status = Success, ar_user = Some user, ar_message = []\<rparr>, w))) = Some (Inr r, w')"
    unfolding ldap_authenticate_def ldap_then_Some by (simp only: if_False ldap_then_Some) blast
  have "length entries = 1" using k assms(2) by (auto simp: auth_refused_def split: if_splits)
  then obtain entry where en: "entries = [entry]" by (auto simp: length_Suc_conv)
  obtain b w3 where b: "bind_user L c (en_dn entry) password w2 = (b, w3)" by fastforce
  then obtain x where "b = Inr x" using k en assms(2) by (cases b) (auto simp: auth_refused_def split: if_splits)
  then obtain v where v: "fillGroups L c svc (toUser c entry user) w3 = Some (Inr v, w')" "r = \<lparr>ar_status = Success, ar_user = Some v, ar_message = []\<rparr>"
    using k en b by (auto simp: ldap_then_Some)
  have n: "lu_username u = (let n = entry_first entry (lcf_username_attribute c) in if n = [] then user else n)"
    using fillGroups_name [OF v(1)] v(2) assms(3) by (simp add: toUser_def Let_def)
  from bind_user_ok [OF b [unfolded \<open>b = Inr x\<close>]] obtain h w4 where
    "ll_bind L h (if en_dn entry = [] then None else Some (en_dn entry)) password w4 = (0, w3)" by blast
  then show ?thesis
    unfolding server_accepts_def using ne e en assms n by blast
qed

lemma dl_run_append: "dl_run E L C (xs @ ys) d = Option.bind (dl_run E L C xs d) (dl_run E L C ys)"
  by (induction xs arbitrary: d) (auto split: option.splits bind_splits)

lemma dl_groups_of_keeps:
  "dl_groups_of L C user d = Some (r, d') \<Longrightarrow>
     dl_config d' = dl_config d \<and> dl_ttl d' = dl_ttl d \<and> dl_salt d' = dl_salt d \<and> dl_binds d' = dl_binds d"
  by (auto simp: dl_groups_of_def Let_def split: if_splits option.splits sum.splits)

lemma dl_has_group_keeps:
  "dl_has_group L C name d = Some (r, d') \<Longrightarrow>
     dl_config d' = dl_config d \<and> dl_ttl d' = dl_ttl d \<and> dl_salt d' = dl_salt d \<and> dl_binds d' = dl_binds d"
  by (auto simp: dl_has_group_def Let_def split: if_splits option.splits sum.splits)

lemma dl_verify_cases:
  assumes "dl_verify E L C user password d = Some (r, d')"
  obtains (cached) print b where "dl_fingerprint E (dl_salt d) user password = Inr print" "map_of (dl_binds d) user = Some b"
      "C (dl_world d) - be_at b < dl_ttl d" "be_print b = print" "r = Inr (be_name b)" "d' = d"
  | (asked) print rr u w where "dl_fingerprint E (dl_salt d) user password = Inr print"
      "ldap_authenticate L (dl_config d) user password (dl_world d) = Some (Inr rr, w)" "ar_status rr = Success"
      "ar_user rr = Some u" "r = Inr (lu_username u)" "d' = dl_accept C user print u w d"
  | (refused) e w where "r = Inl e" "d' = d\<lparr>dl_world := w\<rparr>"
proof -
  have ask: thesis if f: "dl_fingerprint E (dl_salt d) user password = Inr print"
      and a: "dl_ask L C user password print d = Some (r, d')" for print
  proof -
    obtain x w where l: "ldap_authenticate L (dl_config d) user password (dl_world d) = Some (x, w)"
      using a by (auto simp: dl_ask_def split: option.splits)
    show thesis
    proof (cases x)
      case (Inl e)
      then show thesis using a l refused by (auto simp: dl_ask_def dl_unavailable_def fail_def)
    next
      case (Inr rr)
      show thesis
      proof (cases "ar_status rr = Success \<and> ar_user rr \<noteq> None")
        case True
        then show thesis using a l Inr asked [OF f] by (auto simp: dl_ask_def)
      next
        case False
        then show thesis using a l Inr refused by (auto simp: dl_ask_def dl_denied_def fail_def split: option.splits if_splits)
      qed
    qed
  qed
  have r: thesis if "r = Inl e" "d' = d" for e using refused [of e "dl_world d"] that by simp
  show thesis
  proof (cases "is_valid_name user")
    case False
    then show thesis using assms r by (auto simp: dl_verify_def dl_denied_def fail_def)
  next
    case True
    show thesis
    proof (cases "dl_fingerprint E (dl_salt d) user password")
      case (Inl e)
      then show thesis using assms True r by (auto simp: dl_verify_def)
    next
      case (Inr print)
      show thesis
      proof (cases "\<exists>b. map_of (dl_binds d) user = Some b \<and> dl_fresh C d (be_at b) \<and> be_print b = print")
        case c: True
        then obtain b where b: "map_of (dl_binds d) user = Some b" "dl_fresh C d (be_at b)" "be_print b = print" by blast
        have "r = Inr (be_name b)" "d' = d" using assms True Inr b by (simp_all add: dl_verify_def)
        then show thesis using cached [OF Inr b(1) _ b(3)] b(2) by (simp add: dl_fresh_def)
      next
        case False
        then have "dl_ask L C user password print d = Some (r, d')"
          using assms True Inr by (auto simp: dl_verify_def split: option.splits if_splits)
        then show thesis by (rule ask [OF Inr])
      qed
    qed
  qed
qed

definition bind_from ::
  "evp \<Rightarrow> 'w ldap_lib \<Rightarrow> ('w \<Rightarrow> int) \<Rightarrow> 'w ldap_directory \<Rightarrow> 'w dl_op list \<Rightarrow> string \<Rightarrow> bind_entry \<Rightarrow> bool" where
  "bind_from E L C d0 ops user b \<longleftrightarrow>
     (\<exists>ops1 p ops2 d1 w'. ops = ops1 @ DVerify user p # ops2 \<and> dl_run E L C ops1 d0 = Some d1 \<and>
        server_accepts L (dl_config d0) user p (dl_world d1) (be_name b) w' \<and>
        dl_fingerprint E (dl_salt d0) user p = Inr (be_print b) \<and> be_at b = C w')"

lemma bind_from_mono: "bind_from E L C d0 ops user b \<Longrightarrow> bind_from E L C d0 (ops @ [op]) user b"
  unfolding bind_from_def by (metis append.assoc append_Cons)

definition dl_inv :: "evp \<Rightarrow> 'w ldap_lib \<Rightarrow> ('w \<Rightarrow> int) \<Rightarrow> 'w ldap_directory \<Rightarrow> 'w dl_op list \<Rightarrow> 'w ldap_directory \<Rightarrow> bool" where
  "dl_inv E L C d0 ops d \<longleftrightarrow> dl_config d = dl_config d0 \<and> dl_ttl d = dl_ttl d0 \<and> dl_salt d = dl_salt d0 \<and>
     distinct (map fst (dl_binds d)) \<and> (\<forall>user b. map_of (dl_binds d) user = Some b \<longrightarrow> bind_from E L C d0 ops user b)"

lemma prune_Some: "distinct (map fst m) \<Longrightarrow> map_of (dl_prune life now at m) k = Some v \<Longrightarrow> map_of m k = Some v"
  by (auto simp: dl_prune_def map_of_filter_Some split: if_splits)

lemma dl_accept_binds:
  "map_of (dl_binds (dl_accept C user print u w d)) =
     (map_of (dl_prune (dl_ttl d) (C w) be_at (dl_binds d)))(user \<mapsto> \<lparr>be_print = print, be_name = lu_username u, be_at = C w\<rparr>)"
  by (simp add: dl_accept_def Let_def)

lemma dl_inv_verify:
  assumes "dl_inv E L C d0 ops d" "dl_run E L C ops d0 = Some d" "dl_verify E L C user p d = Some (r, d')"
  shows "dl_inv E L C d0 (ops @ [DVerify user p]) d'"
  using assms(3)
proof (cases rule: dl_verify_cases)
  case (cached print b)
  then show ?thesis using assms(1) bind_from_mono unfolding dl_inv_def by blast
next
  case (refused e w)
  then show ?thesis using assms(1) bind_from_mono unfolding dl_inv_def by fastforce
next
  case (asked print rr u w)
  note i = assms(1) [unfolded dl_inv_def]
  have "server_accepts L (dl_config d0) user p (dl_world d) (lu_username u) w"
    using authenticate_accepts [OF asked(2-4)] i by simp
  then have new: "bind_from E L C d0 (ops @ [DVerify user p]) user \<lparr>be_print = print, be_name = lu_username u, be_at = C w\<rparr>"
    unfolding bind_from_def using assms(2) asked(1) i by (intro exI [of _ ops] exI [of _ p] exI [of _ "[]"]) auto
  have "bind_from E L C d0 (ops @ [DVerify user p]) v b" if "map_of (dl_binds d') v = Some b" for v b
  proof (cases "v = user")
    case True
    then show ?thesis using that new asked(6) by (simp add: dl_accept_binds)
  next
    case False
    then have "map_of (dl_prune (dl_ttl d) (C w) be_at (dl_binds d)) v = Some b"
      using that asked(6) by (simp add: dl_accept_binds)
    then have "map_of (dl_binds d) v = Some b" using i prune_Some [of "dl_binds d" "dl_ttl d" "C w" be_at v b] by blast
    then show ?thesis using i bind_from_mono [of E L C d0 ops v b] by blast
  qed
  moreover have "distinct (map fst (dl_binds d'))"
    using i asked(6) by (auto simp: dl_accept_def Let_def dl_prune_def distinct_filter_fst intro!: distinct_update)
  ultimately show ?thesis using i asked(6) by (simp add: dl_inv_def dl_accept_def Let_def)
qed

lemma dl_inv_same:
  assumes "dl_inv E L C d0 ops d"
    "dl_config d' = dl_config d \<and> dl_ttl d' = dl_ttl d \<and> dl_salt d' = dl_salt d \<and> dl_binds d' = dl_binds d"
  shows "dl_inv E L C d0 (ops @ [op]) d'"
  using assms(1) bind_from_mono unfolding dl_inv_def by (simp only: assms(2) simp_thms) blast

lemma dl_run_inv:
  assumes "dl_binds d0 = []" "dl_run E L C ops d0 = Some d"
  shows "dl_inv E L C d0 ops d"
  using assms(2)
proof (induction ops arbitrary: d rule: rev_induct)
  case Nil
  then show ?case using assms(1) by (auto simp: dl_inv_def)
next
  case (snoc op ops)
  from snoc.prems obtain d1 where d1: "dl_run E L C ops d0 = Some d1" "dl_do E L C op d1 = Some d"
    by (auto simp: dl_run_append split: bind_splits)
  note inv = snoc.IH [OF d1(1)]
  show ?case
  proof (cases op)
    case (DVerify user p)
    then obtain r where "dl_verify E L C user p d1 = Some (r, d)" using d1(2) by auto
    then show ?thesis using dl_inv_verify [OF inv d1(1)] DVerify by blast
  next
    case (DHasUser name)
    then obtain r where "dl_groups_of L C name d1 = Some (r, d)"
      using d1(2) by (auto simp: dl_has_user_def split: option.splits)
    then show ?thesis using dl_inv_same [OF inv dl_groups_of_keeps] by blast
  next
    case (DHasGroup name)
    then obtain r where "dl_has_group L C name d1 = Some (r, d)" using d1(2) by auto
    then show ?thesis using dl_inv_same [OF inv dl_has_group_keeps] by blast
  next
    case (DMember user grp)
    then obtain r where "dl_groups_of L C user d1 = Some (r, d)"
      using d1(2) by (auto simp: dl_is_member_def split: option.splits)
    then show ?thesis using dl_inv_same [OF inv dl_groups_of_keeps] by blast
  next
    case (DWorld w)
    then show ?thesis using dl_inv_same [OF inv] d1(2) by auto
  qed
qed

lemma dl_fingerprint_sound:
  assumes "evp_sound E sha" "dl_fingerprint E slt user p = Inr d"
  shows "d = sha (slt @ as_bytes user @ [0] @ as_bytes p)"
proof -
  have f: "fst q = Inr d \<longleftrightarrow> (\<exists>s. q = (Inr d, s))" for q :: "sha256_digest result \<times> sha256" by (cases q) auto
  show ?thesis
    using assms
    by (fastforce simp: dl_fingerprint_def f try_simps sha_create_Inr sha_update_Inr sha_finish_Inr evp_sound_def)
qed

text \<open>
  C14. Whoever logs in through LDAP was accepted by the server. Start with empty caches and take any
  history of calls of the directory, with time passing and the server changing in any way
  between them. If a login succeeds with the name \<open>name\<close>, then the LDAP server accepted this very
  password for the only entry found under the typed name, a non-empty password sent in a bind as that
  entry, and \<open>name\<close> is that entry's name: either in this call, or in an earlier login less than the
  cache time ago. This holds as long as SHA-256 does not collide on the passwords tried for that user.
\<close>

theorem ldap_login_accepted:
  assumes "make_ldap_directory cfg random w0 = Inr d0" "dl_run E L C ops d0 = Some d" "evp_sound E sha"
    and "inj_on (\<lambda>p. sha (dl_salt d0 @ as_bytes user @ [0] @ as_bytes p)) (insert password {p. DVerify user p \<in> set ops})"
    and "dl_verify E L C user password d = Some (Inr name, d')"
  shows "\<exists>w w'. server_accepts L (to_ldapauth cfg) user password w name w' \<and>
    (w = dl_world d \<or>
     C (dl_world d) - C w' < int (lc_cache_ttl_s cfg) * 1000000000 \<and>
     (\<exists>ops1 ops2 d1. ops = ops1 @ DVerify user password # ops2 \<and> dl_run E L C ops1 d0 = Some d1 \<and> w = dl_world d1))"
proof -
  have d0: "dl_binds d0 = []" "dl_config d0 = to_ldapauth cfg" "dl_ttl d0 = int (lc_cache_ttl_s cfg) * 1000000000"
    using assms(1) by (auto simp: make_ldap_directory_def split: option.splits)
  note i = dl_run_inv [OF d0(1) assms(2), unfolded dl_inv_def]
  from assms(5) show ?thesis
  proof (cases rule: dl_verify_cases)
    case (asked print rr u w)
    from authenticate_accepts [OF asked(2-4)] asked(5) i d0(2) show ?thesis by auto
  next
    case (cached print b)
    from i cached(2) have "bind_from E L C d0 ops user b" by blast
    then obtain ops1 p ops2 d1 w' where b: "ops = ops1 @ DVerify user p # ops2" "dl_run E L C ops1 d0 = Some d1"
      "server_accepts L (dl_config d0) user p (dl_world d1) (be_name b) w'" "dl_fingerprint E (dl_salt d0) user p = Inr (be_print b)"
      "be_at b = C w'"
      unfolding bind_from_def by blast
    have "sha (dl_salt d0 @ as_bytes user @ [0] @ as_bytes p) = sha (dl_salt d0 @ as_bytes user @ [0] @ as_bytes password)"
      using dl_fingerprint_sound [OF assms(3)] b(4) cached(1,4) i by metis
    from inj_onD [OF assms(4) this] b(1) have "p = password" by simp
    with b cached(3,5) i d0 show ?thesis by auto
  qed simp
qed

text \<open>A server with the one user \<open>Bob\<close>, whose password is \<open>pw\<close>.\<close>

definition sample_ldap :: "int ldap_lib" where
  "sample_ldap = \<lparr>ll_initialize = (\<lambda>_. 0), ll_start_tls = (\<lambda>_ w. (0, w)),
     ll_bind = (\<lambda>_ dn cred w. (if dn = None \<or> cred = ''pw'' then 0 else 49, w + 1)),
     ll_page_control = (\<lambda>_ _ _. 0),
     ll_search = (\<lambda>_ _ _ _ _ _ w. (\<lparr>pg_rc = 0, pg_entries = [\<lparr>re_dn = Some ''uid=bob'',
       re_attributes = [(''UID'', Some [''Bob''])]\<rparr>], pg_parse_rc = 0, pg_cookie = Some []\<rparr>, w)),
     ll_err2string = (\<lambda>_. ''error''), ll_diagnostic = (\<lambda>_ _. None), ll_dn_normalize = Some\<rparr>"

theorem ldap_login_accepted_witness:
  "\<exists>d0 d' w w'. make_ldap_directory (ac_ldap (cf_auth sample_config)) (Some [7]) 0 = Inr d0 \<and>
     dl_verify sample_evp sample_ldap (\<lambda>w. w) ''bob'' ''pw'' d0 = Some (Inr ''Bob'', d') \<and>
     server_accepts sample_ldap (to_ldapauth (ac_ldap (cf_auth sample_config))) ''bob'' ''pw'' w ''Bob'' w'"
proof -
  let ?cfg = "ac_ldap (cf_auth sample_config)"
  obtain d0 :: "int ldap_directory" where d0: "make_ldap_directory ?cfg (Some [7]) 0 = Inr d0"
    by (simp add: make_ldap_directory_def)
  have "(case make_ldap_directory ?cfg (Some [7]) 0 of Inl _ \<Rightarrow> False
      | Inr d0 \<Rightarrow> map_option fst (dl_verify sample_evp sample_ldap (\<lambda>w. w) ''bob'' ''pw'' d0) = Some (Inr ''Bob''))"
    by code_simp
  then obtain d' where v: "dl_verify sample_evp sample_ldap (\<lambda>w. w) ''bob'' ''pw'' d0 = Some (Inr ''Bob'', d')"
    using d0 by auto
  have "dl_run sample_evp sample_ldap (\<lambda>w. w) [] d0 = Some d0" by simp
  from ldap_login_accepted [OF d0 this sample_evp_sound _ v] d0 v show ?thesis by auto
qed

end
