(* ===== verification/Spec2Isabelle.thy ===== *)
theory Spec2Isabelle
  imports Common_Base64 Common_Id Common_Path Common_Sha256 Common_Time Storage_Contract Log_Tech Tx_Requests Tx_Properties Auth_Limiter Auth_Password Auth_Sessions Auth_Directory Auth_Authenticator Ldap_Client Auth_Ldap Config_Valid
begin

text \<open>
  Verification of the confide file-transfer server.
\<close>

end
